(* ===== verification/Shine_Prelude.thy ===== *)
theory Shine_Prelude
  imports Main "HOL-Library.Word" "HOL-Library.Sublist"
begin

text \<open>
  Types, collections of facts and generic lemmas that every component of the development shares:
  the machine types of \<^verbatim>\<open>src/core/common.hpp\<close>, bytes against characters, error statuses, decimal
  rendering, and the part of the Abseil string library the program calls, as a record of
  functions with its documented laws.
\<close>

unbundle bit_operations_syntax

named_theorems wire_simps "rewriting encoded messages to plain byte lists"
named_theorems buf_simps "definitions of the read buffer operations"
named_theorems sess_simps "definitions of the session operations"

section \<open>Machine types\<close>

type_synonym u8 = "8 word"
type_synonym u16 = "16 word"
type_synonym u32 = "32 word"
type_synonym u64 = "64 word"

type_synonym bytes = "u8 list"

text \<open>\<open>u8_of\<close> is the source's \<^verbatim>\<open>static_cast<u8>(c)\<close>, \<open>chr_of\<close> its \<^verbatim>\<open>static_cast<char>(b)\<close>; the
  list versions are the \<^verbatim>\<open>reinterpret_cast\<close>s between \<^verbatim>\<open>u8*\<close> and \<^verbatim>\<open>char*\<close>.\<close>

definition u8_of :: "char \<Rightarrow> u8" where
  "u8_of c = of_nat (of_char c)"

definition chr_of :: "u8 \<Rightarrow> char" where
  "chr_of b = char_of (unat b)"

definition as_bytes :: "string \<Rightarrow> bytes" where
  "as_bytes s = map u8_of s"

definition as_string :: "bytes \<Rightarrow> string" where
  "as_string bs = map chr_of bs"

lemma u8_of_chr_of [simp]: "u8_of (chr_of b) = b"
proof -
  have "unat b < 256" using unsigned_less [of b] by simp
  then show ?thesis by (simp add: u8_of_def chr_of_def)
qed

lemma chr_of_u8_of [simp]: "chr_of (u8_of c) = c"
proof -
  have "(of_char c :: nat) < 256" by simp
  then show ?thesis by (simp add: u8_of_def chr_of_def unat_of_nat)
qed

lemma u8_of_eq_iff [simp]: "u8_of c = u8_of d \<longleftrightarrow> c = d"
  by (metis chr_of_u8_of)

lemma chr_of_eq_iff [simp]: "chr_of a = chr_of b \<longleftrightarrow> a = b"
  by (metis u8_of_chr_of)

lemma as_bytes_as_string [simp]: "as_bytes (as_string bs) = bs"
  by (simp add: as_bytes_def as_string_def comp_def)

lemma as_string_as_bytes [simp]: "as_string (as_bytes s) = s"
  by (simp add: as_bytes_def as_string_def comp_def)

lemma length_as_bytes [simp]: "length (as_bytes s) = length s"
  by (simp add: as_bytes_def)

lemma length_as_string [simp]: "length (as_string bs) = length bs"
  by (simp add: as_string_def)

lemma as_bytes_append [simp]: "as_bytes (s @ t) = as_bytes s @ as_bytes t"
  by (simp add: as_bytes_def)

lemma as_string_append [simp]: "as_string (s @ t) = as_string s @ as_string t"
  by (simp add: as_string_def)

lemma as_bytes_Nil [simp]: "as_bytes [] = []"
  by (simp add: as_bytes_def)

lemma as_string_Nil [simp]: "as_string [] = []"
  by (simp add: as_string_def)

lemma as_bytes_Cons [simp]: "as_bytes (c # s) = u8_of c # as_bytes s"
  by (simp add: as_bytes_def)

lemma as_string_Cons [simp]: "as_string (b # bs) = chr_of b # as_string bs"
  by (simp add: as_string_def)

lemma as_bytes_inject [simp]: "as_bytes s = as_bytes t \<longleftrightarrow> s = t"
  by (metis as_string_as_bytes)

lemma as_bytes_eq_Nil [simp]: "as_bytes s = [] \<longleftrightarrow> s = []"
  by (simp add: as_bytes_def)

lemma as_bytes_take: "as_bytes (take n s) = take n (as_bytes s)"
  by (simp add: as_bytes_def take_map)

lemma as_bytes_drop: "as_bytes (drop n s) = drop n (as_bytes s)"
  by (simp add: as_bytes_def drop_map)

lemma as_string_take: "as_string (take n s) = take n (as_string s)"
  by (simp add: as_string_def take_map)

lemma as_string_drop: "as_string (drop n s) = drop n (as_string s)"
  by (simp add: as_string_def drop_map)

lemma drop_length_append: "drop (length xs) (xs @ ys) = ys"
  by simp

lemma set_as_bytes: "set (as_bytes s) = u8_of ` set s"
  by (simp add: as_bytes_def)

section \<open>Statuses\<close>

text \<open>\<^verbatim>\<open>absl::Status\<close> with its message, one constructor per status code the sources build;
  \<^verbatim>\<open>StatusOr<T>\<close> is \<open>'a result\<close>.\<close>

datatype status =
    InvalidArgumentError string
  | ResourceExhaustedError string
  | UnavailableError string
  | NotFoundError string
  | FailedPreconditionError string
  | UnauthenticatedError string

type_synonym 'a result = "status + 'a"

fun status_message :: "status \<Rightarrow> string" where
  "status_message (InvalidArgumentError m) = m"
| "status_message (ResourceExhaustedError m) = m"
| "status_message (UnavailableError m) = m"
| "status_message (NotFoundError m) = m"
| "status_message (FailedPreconditionError m) = m"
| "status_message (UnauthenticatedError m) = m"

definition is_ok :: "'a result \<Rightarrow> bool" where
  "is_ok r = (case r of Inl _ \<Rightarrow> False | Inr _ \<Rightarrow> True)"

text \<open>Sequencing with early return: the source's \<^verbatim>\<open>if (!x.ok()) return x.status();\<close>.\<close>

fun rbind :: "'a result \<Rightarrow> ('a \<Rightarrow> 'b result) \<Rightarrow> 'b result" where
  "rbind (Inl e) k = Inl e"
| "rbind (Inr x) k = k x"

lemma rbind_Inr: "rbind r k = Inr y \<longleftrightarrow> (\<exists>x. r = Inr x \<and> k x = Inr y)"
  by (cases r) auto

lemma rbind_Inl: "rbind r k = Inl e \<longleftrightarrow> r = Inl e \<or> (\<exists>x. r = Inr x \<and> k x = Inl e)"
  by (cases r) auto

lemma is_ok_simps [simp]: "is_ok (Inr x)" "\<not> is_ok (Inl e)"
  by (simp_all add: is_ok_def)

section \<open>Decimal rendering\<close>

definition digit_char :: "nat \<Rightarrow> char" where
  "digit_char d = char_of (48 + d)"

fun dec :: "nat \<Rightarrow> string" where
  "dec n = (if n < 10 then [digit_char n] else dec (n div 10) @ [digit_char (n mod 10)])"

declare dec.simps [simp del]

definition is_digit :: "char \<Rightarrow> bool" where
  "is_digit c \<longleftrightarrow> 48 \<le> (of_char c :: nat) \<and> (of_char c :: nat) \<le> 57"

definition digit_val :: "char \<Rightarrow> nat" where
  "digit_val c = of_char c - 48"

definition dec_val :: "string \<Rightarrow> nat" where
  "dec_val s = foldl (\<lambda>a c. 10 * a + digit_val c) 0 s"

lemma is_digit_digit_char [simp]: "d < 10 \<Longrightarrow> is_digit (digit_char d)"
  by (simp add: is_digit_def digit_char_def)

lemma digit_val_digit_char [simp]: "d < 10 \<Longrightarrow> digit_val (digit_char d) = d"
  by (simp add: digit_val_def digit_char_def)

lemma dec_digits: "c \<in> set (dec n) \<Longrightarrow> is_digit c"
proof (induction n rule: dec.induct)
  case (1 n)
  then show ?case by (cases "n < 10") (auto simp: dec.simps [of n])
qed

lemma dec_nonempty [simp]: "dec n \<noteq> []"
  by (subst dec.simps) simp

lemma dec_val_dec [simp]: "dec_val (dec n) = n"
proof (induction n rule: dec.induct)
  case (1 n)
  then show ?case
    by (cases "n < 10") (simp_all add: dec.simps [of n] dec_val_def)
qed

lemma dec_inject [simp]: "dec m = dec n \<longleftrightarrow> m = n"
  by (metis dec_val_dec)

lemma not_digit_notin_dec: "\<not> is_digit c \<Longrightarrow> c \<notin> set (dec n)"
  using dec_digits by blast

section \<open>Searching a string\<close>

text \<open>\<^verbatim>\<open>string_view::find\<close> and \<^verbatim>\<open>rfind\<close> for one character.\<close>

definition find_char :: "char \<Rightarrow> string \<Rightarrow> nat option" where
  "find_char c s = (let n = length (takeWhile (\<lambda>x. x \<noteq> c) s) in if n < length s then Some n else None)"

definition rfind_char :: "char \<Rightarrow> string \<Rightarrow> nat option" where
  "rfind_char c s = map_option (\<lambda>n. length s - 1 - n) (find_char c (rev s))"

lemma find_char_None: "find_char c s = None \<longleftrightarrow> c \<notin> set s"
proof -
  have "length (takeWhile (\<lambda>x. x \<noteq> c) s) < length s \<longleftrightarrow> c \<in> set s"
    by (induction s) auto
  then show ?thesis by (simp add: find_char_def Let_def)
qed

lemma find_char_Some:
  assumes "find_char c s = Some n"
  shows "n < length s" "s = take n s @ c # drop (Suc n) s" "c \<notin> set (take n s)"
proof -
  have n: "n = length (takeWhile (\<lambda>x. x \<noteq> c) s)" and l: "n < length s"
    using assms by (auto simp: find_char_def Let_def split: if_splits)
  then show "n < length s" by simp
  have "s ! n = c" using nth_length_takeWhile [of "\<lambda>x. x \<noteq> c" s] n l by simp
  then show "s = take n s @ c # drop (Suc n) s" using l by (metis id_take_nth_drop)
  show "c \<notin> set (take n s)" by (metis n set_takeWhileD takeWhile_eq_take)
qed

section \<open>The Abseil string functions the program calls\<close>

text \<open>
  Abseil is not part of the repository, so its functions are parameters: a record the
  definitions take as an argument. \<open>absl_laws\<close> states what Abseil documents about them:
  \<^verbatim>\<open>SimpleAtoi\<close> reads a base-10 integer that fits the result type and rejects a string with any
  character other than digits, a sign and surrounding white space; \<^verbatim>\<open>StrCat\<close>/\<^verbatim>\<open>StrAppend\<close> print
  an unsigned integer in base 10; \<^verbatim>\<open>StrSplit\<close> cuts at every occurrence of the delimiter;
  \<^verbatim>\<open>StartsWith\<close> and \<^verbatim>\<open>EndsWith\<close> are the prefix and suffix tests.
\<close>

record absl =
  SimpleAtoi64 :: "string \<Rightarrow> int option"
  SimpleAtoi32 :: "string \<Rightarrow> int option"
  StrNum :: "nat \<Rightarrow> string"
  StrSplit :: "string \<Rightarrow> char \<Rightarrow> string list"
  StartsWith :: "string \<Rightarrow> string \<Rightarrow> bool"
  EndsWith :: "string \<Rightarrow> string \<Rightarrow> bool"

definition is_space :: "char \<Rightarrow> bool" where
  "is_space c \<longleftrightarrow> (of_char c :: nat) = 32 \<or> (9 \<le> (of_char c :: nat) \<and> (of_char c :: nat) \<le> 13)"

definition number_char :: "char \<Rightarrow> bool" where
  "number_char c \<longleftrightarrow> is_digit c \<or> is_space c \<or> c = CHR ''+'' \<or> c = CHR ''-''"

fun join :: "char \<Rightarrow> string list \<Rightarrow> string" where
  "join d [] = []"
| "join d [p] = p"
| "join d (p # ps) = p @ d # join d ps"

locale absl_laws =
  fixes L :: absl
  assumes atoi64_range: "SimpleAtoi64 L s = Some i \<Longrightarrow> - (2 ^ 63) \<le> i \<and> i < 2 ^ 63"
    and atoi64_dec: "n < 2 ^ 63 \<Longrightarrow> SimpleAtoi64 L (dec n) = Some (int n)"
    and atoi32_range: "SimpleAtoi32 L s = Some i \<Longrightarrow> - (2 ^ 31) \<le> i \<and> i < 2 ^ 31"
    and atoi32_dec: "n < 2 ^ 31 \<Longrightarrow> SimpleAtoi32 L (dec n) = Some (int n)"
    and atoi32_chars: "SimpleAtoi32 L s = Some i \<Longrightarrow> c \<in> set s \<Longrightarrow> number_char c"
    and strnum: "StrNum L n = dec n"
    and split_nonempty: "StrSplit L s d \<noteq> []"
    and split_join: "join d (StrSplit L s d) = s"
    and split_pieces: "p \<in> set (StrSplit L s d) \<Longrightarrow> d \<notin> set p"
    and starts_with: "StartsWith L s p \<longleftrightarrow> prefix p s"
    and ends_with: "EndsWith L s p \<longleftrightarrow> suffix p s"

end
