(* ===== verification/Buffer.thy ===== *)
theory Buffer
  imports Shine_Prelude
begin

text \<open>
  \<^verbatim>\<open>src/core/buffer.hpp\<close>: \<^verbatim>\<open>BufferSlab\<close> and the read buffer that \<^verbatim>\<open>Link\<close> parses from. A
  \<^verbatim>\<open>ReadBuffer\<close> is the vector \<open>rb_buf\<close> with the consumed prefix \<open>rb_head\<close> and the filled
  prefix \<open>rb_size\<close>. The interface its client sees is a queue of bytes: the locale
  \<open>byte_queue\<close>, interpreted on the buffer at the end. Sizes are naturals: a vector's size and
  the sums formed from it stay far below \<open>2 ^ 64\<close>.
\<close>

section \<open>BufferSlab\<close>

record buffer_slab =
  slab_data :: bytes
  slab_size :: nat

definition slab_new :: "nat \<Rightarrow> buffer_slab" where
  "slab_new cap = \<lparr>slab_data = replicate cap 0, slab_size = 0\<rparr>"

definition slab_resize :: "nat \<Rightarrow> buffer_slab \<Rightarrow> buffer_slab" where
  "slab_resize n b = b\<lparr>slab_size := n\<rparr>"

definition slab_span :: "buffer_slab \<Rightarrow> bytes" where
  "slab_span b = take (slab_size b) (slab_data b)"

section \<open>ReadBuffer\<close>

record read_buffer =
  rb_buf :: bytes
  rb_head :: nat
  rb_size :: nat

definition new_read_buffer :: "nat \<Rightarrow> read_buffer" where
  "new_read_buffer initial = \<lparr>rb_buf = replicate initial 0, rb_head = 0, rb_size = 0\<rparr>"

definition writable_size :: "read_buffer \<Rightarrow> nat" where
  "writable_size rb = length (rb_buf rb) - rb_size rb"

text \<open>What a socket read stores at \<^verbatim>\<open>writable_ptr()\<close>: it overwrites the bytes from \<^verbatim>\<open>size_\<close> on.\<close>

definition fill_writable :: "bytes \<Rightarrow> read_buffer \<Rightarrow> read_buffer" where
  "fill_writable bs rb =
     rb\<lparr>rb_buf := take (rb_size rb) (rb_buf rb) @ bs @ drop (rb_size rb + length bs) (rb_buf rb)\<rparr>"

definition committed :: "nat \<Rightarrow> read_buffer \<Rightarrow> read_buffer" where
  "committed n rb = rb\<lparr>rb_size := rb_size rb + n\<rparr>"

text \<open>The readable view: \<^verbatim>\<open>size()\<close> bytes from \<^verbatim>\<open>data()\<close>.\<close>

definition rb_avail :: "read_buffer \<Rightarrow> nat" where
  "rb_avail rb = rb_size rb - rb_head rb"

definition rb_data :: "read_buffer \<Rightarrow> bytes" where
  "rb_data rb = take (rb_avail rb) (drop (rb_head rb) (rb_buf rb))"

definition consume :: "nat \<Rightarrow> read_buffer \<Rightarrow> read_buffer" where
  "consume n rb =
     (let head = rb_head rb + n; size = rb_size rb; buf = rb_buf rb in
      if head \<ge> size then rb\<lparr>rb_head := 0, rb_size := 0\<rparr>
      else if head > length buf div 2 then
        \<lparr>rb_buf = take (size - head) (drop head buf) @ drop (size - head) buf,
         rb_head = 0, rb_size = size - head\<rparr>
      else rb\<lparr>rb_head := head\<rparr>)"

definition grow :: "nat \<Rightarrow> read_buffer \<Rightarrow> read_buffer" where
  "grow cap rb = rb\<lparr>rb_buf := rb_buf rb @ replicate (cap - length (rb_buf rb)) 0\<rparr>"

definition ensure_writable :: "nat \<Rightarrow> read_buffer \<Rightarrow> read_buffer" where
  "ensure_writable n rb =
     (if writable_size rb \<ge> n then rb
      else
        let rb1 = (if rb_head rb > 0 then consume 0 rb else rb) in
        if writable_size rb1 \<ge> n then rb1
        else
          let need = rb_size rb1 - rb_head rb1 + n;
              cap = max (length (rb_buf rb1) * 2) need
          in grow cap rb1)"

lemmas read_buffer_defs [buf_simps] =
  new_read_buffer_def writable_size_def fill_writable_def committed_def rb_avail_def rb_data_def
  consume_def grow_def ensure_writable_def

section \<open>Invariant and abstraction\<close>

definition rb_ok :: "read_buffer \<Rightarrow> bool" where
  "rb_ok rb \<longleftrightarrow> rb_head rb \<le> rb_size rb \<and> rb_size rb \<le> length (rb_buf rb)"

lemma new_read_buffer_ok [simp]: "rb_ok (new_read_buffer n)" "rb_data (new_read_buffer n) = []"
  by (simp_all add: rb_ok_def buf_simps)

lemma length_rb_data: "rb_ok rb \<Longrightarrow> length (rb_data rb) = rb_avail rb"
  by (auto simp: rb_ok_def buf_simps)

lemma consume_ok: "rb_ok rb \<Longrightarrow> rb_ok (consume n rb)"
  by (auto simp: rb_ok_def consume_def Let_def)

lemma consume_capacity: "rb_ok rb \<Longrightarrow> length (rb_buf (consume n rb)) = length (rb_buf rb)"
  by (auto simp: rb_ok_def consume_def Let_def)

lemma consume_data: "rb_ok rb \<Longrightarrow> rb_data (consume n rb) = drop n (rb_data rb)"
  by (auto simp: rb_ok_def consume_def Let_def rb_data_def rb_avail_def drop_take
        algebra_simps)

lemma grow_ok: "rb_ok rb \<Longrightarrow> rb_ok (grow cap rb)"
  by (auto simp: rb_ok_def grow_def)

lemma grow_data: "rb_ok rb \<Longrightarrow> rb_data (grow cap rb) = rb_data rb"
  by (auto simp: rb_ok_def grow_def rb_data_def rb_avail_def)

lemma ensure_writable_ok: "rb_ok rb \<Longrightarrow> rb_ok (ensure_writable n rb)"
  by (auto simp: ensure_writable_def Let_def intro: grow_ok consume_ok)

lemma ensure_writable_data: "rb_ok rb \<Longrightarrow> rb_data (ensure_writable n rb) = rb_data rb"
  by (auto simp: ensure_writable_def Let_def grow_data consume_data consume_ok)

lemma ensure_writable_capacity:
  "rb_ok rb \<Longrightarrow> length (rb_buf rb) \<le> length (rb_buf (ensure_writable n rb))"
  by (auto simp: ensure_writable_def Let_def grow_def consume_capacity)

text \<open>When a request is no larger than the buffer, doubling always makes room for it, whether or
  not the lazy compaction moved the data.\<close>

lemma grow_room:
  assumes "rb_ok rb" "n \<le> length (rb_buf rb)" "length (rb_buf rb) * 2 \<le> cap"
  shows "n \<le> writable_size (grow cap rb)"
  using assms by (auto simp: rb_ok_def grow_def writable_size_def)

lemma ensure_writable_room:
  assumes "rb_ok rb" "n \<le> length (rb_buf rb)"
  shows "n \<le> writable_size (ensure_writable n rb)"
proof -
  let ?rb1 = "if rb_head rb > 0 then consume 0 rb else rb"
  have "rb_ok ?rb1" "n \<le> length (rb_buf ?rb1)"
    using assms by (auto simp: consume_ok consume_capacity)
  then show ?thesis
    by (auto simp: ensure_writable_def Let_def intro!: grow_room simp del: if_split)
qed

text \<open>One socket read as the reader loop performs it: room for \<open>w\<close> bytes, then the bytes that
  arrived, then \<^verbatim>\<open>committed\<close>.\<close>

definition read_some :: "nat \<Rightarrow> bytes \<Rightarrow> read_buffer \<Rightarrow> read_buffer" where
  "read_some w bs rb = committed (length bs) (fill_writable bs (ensure_writable w rb))"

lemma fill_committed:
  assumes "rb_ok rb" "length bs \<le> writable_size rb"
  shows "rb_ok (committed (length bs) (fill_writable bs rb))"
    and "rb_data (committed (length bs) (fill_writable bs rb)) = rb_data rb @ bs"
    and "length (rb_buf (committed (length bs) (fill_writable bs rb))) = length (rb_buf rb)"
proof -
  let ?rb = "committed (length bs) (fill_writable bs rb)"
  from assms have ok: "rb_head rb \<le> rb_size rb" "rb_size rb + length bs \<le> length (rb_buf rb)"
    by (auto simp: rb_ok_def writable_size_def)
  then show "length (rb_buf ?rb) = length (rb_buf rb)" and "rb_ok ?rb"
    by (auto simp: rb_ok_def fill_writable_def committed_def)
  have "rb_avail ?rb = rb_avail rb + length bs"
    using ok by (simp add: rb_avail_def committed_def fill_writable_def)
  then show "rb_data ?rb = rb_data rb @ bs"
    using ok by (simp add: rb_data_def rb_avail_def committed_def fill_writable_def drop_take)
qed

lemma read_some_spec:
  assumes "rb_ok rb" "length bs \<le> writable_size (ensure_writable w rb)"
  shows "rb_ok (read_some w bs rb)"
    and "rb_data (read_some w bs rb) = rb_data rb @ bs"
    and "length (rb_buf rb) \<le> length (rb_buf (read_some w bs rb))"
  using fill_committed [OF ensure_writable_ok [OF assms(1)] assms(2)]
    ensure_writable_data [OF assms(1)] ensure_writable_capacity [OF assms(1)]
  by (auto simp: read_some_def)

section \<open>The interface: a queue of bytes\<close>

text \<open>The client appends what the socket delivered (\<open>push\<close>, as much as \<open>room\<close> allows) and drops
  what it parsed (\<open>pop\<close>).\<close>

locale byte_queue =
  fixes contents :: "'q \<Rightarrow> bytes"
    and invar :: "'q \<Rightarrow> bool"
    and room :: "'q \<Rightarrow> nat"
    and push :: "bytes \<Rightarrow> 'q \<Rightarrow> 'q"
    and pop :: "nat \<Rightarrow> 'q \<Rightarrow> 'q"
    and minroom :: nat
  assumes contents_push: "invar q \<Longrightarrow> length bs \<le> room q \<Longrightarrow> contents (push bs q) = contents q @ bs"
    and contents_pop: "invar q \<Longrightarrow> contents (pop n q) = drop n (contents q)"
    and invar_push: "invar q \<Longrightarrow> length bs \<le> room q \<Longrightarrow> invar (push bs q)"
    and invar_pop: "invar q \<Longrightarrow> invar (pop n q)"
    and room_min: "invar q \<Longrightarrow> minroom \<le> room q"
begin

lemma pop_pop: "invar q \<Longrightarrow> contents (pop m (pop n q)) = contents (pop (n + m) q)"
  by (simp add: contents_pop invar_pop add.commute)

lemma push_pop_all:
  "invar q \<Longrightarrow> length bs \<le> room q \<Longrightarrow> contents (pop (length (contents q)) (push bs q)) = bs"
  by (simp add: contents_pop contents_push invar_push)

end

text \<open>The read buffer of a link starts at 16 KiB and never shrinks, so each read finds room.\<close>

definition link_buffer :: "nat \<Rightarrow> read_buffer \<Rightarrow> bool" where
  "link_buffer w rb \<longleftrightarrow> rb_ok rb \<and> w \<le> length (rb_buf rb)"

interpretation rb: byte_queue rb_data "link_buffer w" "\<lambda>rb. writable_size (ensure_writable w rb)"
    "read_some w" consume w for w
proof (unfold_locales, goal_cases)
  case (1 q bs) then show ?case by (simp add: link_buffer_def read_some_spec)
next
  case (2 q n) then show ?case by (simp add: link_buffer_def consume_data)
next
  case (3 q bs) then show ?case
    using read_some_spec [of q bs w] by (auto simp: link_buffer_def)
next
  case (4 q n) then show ?case by (simp add: link_buffer_def consume_ok consume_capacity)
next
  case (5 q) then show ?case by (simp add: link_buffer_def ensure_writable_room)
qed

section \<open>Properties\<close>

text \<open>C31. The read buffer behaves as a queue of bytes: while its invariant holds, preparing room for
  \<open>w\<close> bytes (at most the buffer's size) loses no unread byte and yields at least \<open>w\<close> writable
  bytes, storing and committing up to \<open>w\<close> received bytes appends exactly those bytes to the unread
  data, and consuming \<open>n\<close> bytes drops exactly the first \<open>n\<close> unread bytes, whether the data is
  moved to the front or not; every operation keeps the invariant.\<close>

theorem read_buffer_is_queue:
  assumes "rb_ok rb" and "w \<le> length (rb_buf rb)" and "length bs \<le> w"
  shows "rb_data (ensure_writable w rb) = rb_data rb
    \<and> w \<le> writable_size (ensure_writable w rb)
    \<and> rb_data (read_some w bs rb) = rb_data rb @ bs
    \<and> rb_data (consume n rb) = drop n (rb_data rb)
    \<and> rb_ok (ensure_writable w rb) \<and> rb_ok (read_some w bs rb) \<and> rb_ok (consume n rb)"
proof -
  have inv: "link_buffer w rb" using assms by (simp add: link_buffer_def)
  have room: "w \<le> writable_size (ensure_writable w rb)" using rb.room_min [OF inv] .
  with assms have fits: "length bs \<le> writable_size (ensure_writable w rb)" by simp
  show ?thesis
    using room rb.contents_push [OF inv fits] rb.contents_pop [OF inv]
      rb.invar_push [OF inv fits] rb.invar_pop [OF inv]
      ensure_writable_data [OF assms(1)] ensure_writable_ok [OF assms(1)]
    by (auto simp: link_buffer_def)
qed

definition example_buffer :: read_buffer where
  "example_buffer = \<lparr>rb_buf = [1, 2, 3, 4, 5, 6, 7, 8], rb_head = 5, rb_size = 7\<rparr>"

theorem read_buffer_is_queue_witness:
  "rb_data (read_some 4 [9, 10, 11] example_buffer) = [6, 7, 9, 10, 11]
   \<and> rb_data (consume 1 example_buffer) = [7]"
proof -
  have ok: "rb_ok example_buffer" "4 \<le> length (rb_buf example_buffer)"
    by (simp_all add: rb_ok_def example_buffer_def)
  have len: "length [9, 10, 11 :: u8] \<le> 4" by simp
  show ?thesis
    using read_buffer_is_queue [OF ok len, of 1]
    by (simp add: example_buffer_def rb_data_def rb_avail_def)
qed

text \<open>The size bound of the property is needed. \<^verbatim>\<open>ensure_writable\<close> sizes the new vector for the
  unread bytes plus the request, but the data stays behind the consumed prefix when that prefix
  is at most half of the vector, so a request larger than the vector can be left without room.\<close>

lemma ensure_writable_short:
  "\<exists>rb n. rb_ok rb \<and> writable_size (ensure_writable n rb) < n"
  by (rule exI [of _ "\<lparr>rb_buf = [1, 2, 3, 4], rb_head = 1, rb_size = 4\<rparr>"], rule exI [of _ 7])
     (simp add: rb_ok_def buf_simps)

end
