(* ===== verification/Absl_Reference.thy ===== *)
theory Absl_Reference
  imports Shine_Prelude
begin

text \<open>
  An executable instance of the Abseil string interface that follows Abseil's documentation,
  and the proof that it satisfies \<open>absl_laws\<close>: the laws are consistent, and the witnesses of
  the development evaluate the program on it.
\<close>

definition strip_spaces :: "string \<Rightarrow> string" where
  "strip_spaces s = rev (dropWhile is_space (rev (dropWhile is_space s)))"

definition digits_val :: "string \<Rightarrow> nat option" where
  "digits_val s = (if s \<noteq> [] \<and> list_all is_digit s then Some (dec_val s) else None)"

definition atoi_ref :: "int \<Rightarrow> int \<Rightarrow> string \<Rightarrow> int option" where
  "atoi_ref lo hi s =
     (let t = strip_spaces s;
          v = (case t of
                 [] \<Rightarrow> None
               | c # r \<Rightarrow>
                   if c = CHR ''-'' then map_option (\<lambda>n. - int n) (digits_val r)
                   else if c = CHR ''+'' then map_option int (digits_val r)
                   else map_option int (digits_val t))
      in case v of None \<Rightarrow> None | Some i \<Rightarrow> if lo \<le> i \<and> i < hi then Some i else None)"

fun split_ref :: "string \<Rightarrow> char \<Rightarrow> string list" where
  "split_ref [] d = [[]]"
| "split_ref (c # s) d =
     (if c = d then [] # split_ref s d
      else case split_ref s d of [] \<Rightarrow> [[c]] | p # ps \<Rightarrow> (c # p) # ps)"

definition absl_ref :: absl where
  "absl_ref =
     \<lparr>SimpleAtoi64 = atoi_ref (- (2 ^ 63)) (2 ^ 63),
      SimpleAtoi32 = atoi_ref (- (2 ^ 31)) (2 ^ 31),
      StrNum = dec,
      StrSplit = split_ref,
      StartsWith = (\<lambda>s p. take (length p) s = p),
      EndsWith = (\<lambda>s p. length p \<le> length s \<and> drop (length s - length p) s = p)\<rparr>"

lemma digit_not_space: "is_digit c \<Longrightarrow> \<not> is_space c"
  by (auto simp: is_digit_def is_space_def)

lemma strip_spaces_dec [simp]: "strip_spaces (dec n) = dec n"
proof -
  have *: "dropWhile is_space s = s" if "list_all is_digit s" for s
    using that by (cases s) (auto simp: digit_not_space)
  have "list_all is_digit (dec n)" using dec_digits by (auto simp: list_all_iff)
  then show ?thesis by (simp add: strip_spaces_def * list_all_iff)
qed

lemma hd_dec: "dec n = c # r \<Longrightarrow> is_digit c"
  using dec_digits [of c n] by simp

lemma sign_not_digit: "is_digit c \<Longrightarrow> c \<noteq> CHR ''-'' \<and> c \<noteq> CHR ''+''"
  by (auto simp: is_digit_def)

lemma digits_val_dec [simp]: "digits_val (dec n) = Some n"
  using dec_digits by (auto simp: digits_val_def list_all_iff)

lemma atoi_ref_dec:
  assumes "lo \<le> int n" "int n < hi"
  shows "atoi_ref lo hi (dec n) = Some (int n)"
proof -
  obtain c r where cr: "dec n = c # r" by (metis dec_nonempty neq_Nil_conv)
  then have "c \<noteq> CHR ''-'' \<and> c \<noteq> CHR ''+''" by (blast dest: hd_dec sign_not_digit)
  moreover have "strip_spaces (c # r) = c # r" "digits_val (c # r) = Some n"
    by (simp_all flip: cr)
  ultimately show ?thesis
    using assms unfolding cr by (simp add: atoi_ref_def)
qed

lemma atoi_ref_range: "atoi_ref lo hi s = Some i \<Longrightarrow> lo \<le> i \<and> i < hi"
  by (auto simp: atoi_ref_def Let_def split: option.splits if_splits)

lemma digits_val_chars: "digits_val s = Some n \<Longrightarrow> c \<in> set s \<Longrightarrow> is_digit c"
  by (auto simp: digits_val_def list_all_iff split: if_splits)

lemma strip_spaces_set: "c \<in> set s \<Longrightarrow> is_space c \<or> c \<in> set (strip_spaces s)"
proof -
  have drop: "c \<in> set t \<Longrightarrow> is_space c \<or> c \<in> set (dropWhile is_space t)" for t
    by (metis Un_iff set_append set_takeWhileD takeWhile_dropWhile_id)
  assume "c \<in> set s"
  then show ?thesis using drop [of s] drop [of "rev (dropWhile is_space s)"]
    by (auto simp: strip_spaces_def)
qed

lemma atoi_ref_chars:
  assumes "atoi_ref lo hi s = Some i" "c \<in> set s"
  shows "number_char c"
proof (cases "is_space c")
  case False
  then have "c \<in> set (strip_spaces s)" using strip_spaces_set assms(2) by blast
  with assms(1) show ?thesis
    by (cases "strip_spaces s")
       (auto simp: atoi_ref_def number_char_def split: if_splits option.splits
             dest: digits_val_chars)
qed (simp add: number_char_def)

lemma split_ref_nonempty [simp]: "split_ref s d \<noteq> []"
  by (induction s) (auto split: list.splits)

lemma join_Cons: "ps \<noteq> [] \<Longrightarrow> join d (p # ps) = p @ d # join d ps"
  by (cases ps) auto

lemma join_head: "join d ((c # p) # ps) = c # join d (p # ps)"
  by (cases ps) auto

lemma split_ref_join: "join d (split_ref s d) = s"
proof (induction s)
  case (Cons c s)
  show ?case
  proof (cases "split_ref s d")
    case Nil
    then show ?thesis by simp
  next
    case (Cons p ps)
    then show ?thesis using Cons.IH by (simp add: join_head)
  qed
qed simp

lemma split_ref_pieces: "p \<in> set (split_ref s d) \<Longrightarrow> d \<notin> set p"
proof (induction s arbitrary: p)
  case (Cons c s)
  then show ?case by (cases "split_ref s d") (auto split: if_splits)
qed simp

interpretation absl_ref: absl_laws absl_ref
proof (unfold_locales, goal_cases)
  case (1 s i) then show ?case by (simp add: absl_ref_def atoi_ref_range)
next
  case (2 n) then show ?case by (simp add: absl_ref_def atoi_ref_dec)
next
  case (3 s i) then show ?case by (simp add: absl_ref_def atoi_ref_range)
next
  case (4 n) then show ?case by (simp add: absl_ref_def atoi_ref_dec)
next
  case (5 s i c) then show ?case by (simp add: absl_ref_def atoi_ref_chars)
next
  case (6 n) then show ?case by (simp add: absl_ref_def)
next
  case (7 s d) then show ?case by (simp add: absl_ref_def)
next
  case (8 d s) then show ?case by (simp add: absl_ref_def split_ref_join)
next
  case (9 p s d) then show ?case by (simp add: absl_ref_def split_ref_pieces)
next
  case (10 s p) then show ?case by (auto simp: absl_ref_def prefix_def) (metis append_take_drop_id)
next
  case (11 s p)
  show ?case
    by (auto simp: absl_ref_def suffix_def) (metis append_take_drop_id)
qed

lemmas absl_ref_laws = absl_ref.absl_laws_axioms

end
