(* ===== verification/Resp2.thy ===== *)
theory Resp2
  imports Shine_Prelude Absl_Reference
begin

text \<open>
  \<^verbatim>\<open>src/proto/resp2_parser.cpp\<close> and \<^verbatim>\<open>src/proto/resp2_writer.cpp\<close>: the RESP2 subset that
  carries shine frames, a top-level bulk string or an array of bulk strings. The parser works on
  offsets into the readable bytes of the read buffer, as the source does; \<open>None\<close> is
  \<^verbatim>\<open>npos\<close>. A frame that points into the buffer holds here the bytes it points at: the reader
  loop uses it before it consumes them.
\<close>

section \<open>Parser\<close>

function findCrlf_loop :: "bytes \<Rightarrow> nat \<Rightarrow> nat option" where
  "findCrlf_loop data i =
     (if i + 1 < length data then
        if data ! i = 13 \<and> data ! (i + 1) = 10 then Some i else findCrlf_loop data (i + 1)
      else None)"
  by pat_completeness auto
termination
  by (relation "measure (\<lambda>(data, i). length data - i)") auto

declare findCrlf_loop.simps [simp del]

definition findCrlf :: "bytes \<Rightarrow> nat \<Rightarrow> nat option" where
  "findCrlf data from = (if length data < 2 then None else findCrlf_loop data from)"

definition parseInt64 :: "absl \<Rightarrow> bytes \<Rightarrow> int option" where
  "parseInt64 L data = SimpleAtoi64 L (as_string data)"

datatype bulk_scan = Incomplete | Bulk (value_off: nat) (value_len: nat) (end_off: nat)

definition parseBulkString :: "absl \<Rightarrow> nat \<Rightarrow> bytes \<Rightarrow> nat \<Rightarrow> bulk_scan result" where
  "parseBulkString L max_bulk data off =
     (if off \<ge> length data then Inr Incomplete
      else if data ! off \<noteq> 36 then Inl (InvalidArgumentError ''expected '$' bulk marker'')
      else case findCrlf data (off + 1) of
        None \<Rightarrow> Inr Incomplete
      | Some hdr_end \<Rightarrow>
          (case parseInt64 L (take (hdr_end - off - 1) (drop (off + 1) data)) of
             None \<Rightarrow> Inl (InvalidArgumentError ''bad bulk length'')
           | Some len \<Rightarrow>
               if len < 0 then Inl (InvalidArgumentError ''null bulk not supported'')
               else if nat len > max_bulk then
                 Inl (ResourceExhaustedError
                   (''bulk length '' @ StrNum L (nat len) @ '' exceeds max '' @ StrNum L max_bulk))
               else
                 let body_start = hdr_end + 2; body_end = body_start + nat len in
                 if body_end + 2 > length data then Inr Incomplete
                 else if data ! body_end \<noteq> 13 \<or> data ! (body_end + 1) \<noteq> 10 then
                   Inl (InvalidArgumentError ''missing CRLF after bulk body'')
                 else Inr (Bulk body_start (nat len) (body_end + 2))))"

datatype resp2_frame =
    Resp2Empty
  | Resp2BulkFrame bytes
  | Resp2ArrayFrame "string list"

text \<open>The element loop of \<^verbatim>\<open>tryParse\<close>: \<open>n\<close> elements to go from \<open>off\<close>, with the elements so far;
  \<open>None\<close> when the data ends early.\<close>

fun parseElements ::
  "absl \<Rightarrow> nat \<Rightarrow> bytes \<Rightarrow> nat \<Rightarrow> nat \<Rightarrow> string list \<Rightarrow> (nat \<times> string list) option result"
where
  "parseElements L max_bulk data 0 off elems = Inr (Some (off, elems))"
| "parseElements L max_bulk data (Suc n) off elems =
     (case parseBulkString L max_bulk data off of
        Inl e \<Rightarrow> Inl e
      | Inr Incomplete \<Rightarrow> Inr None
      | Inr (Bulk vo vl eo) \<Rightarrow>
          parseElements L max_bulk data n eo (elems @ [as_string (take vl (drop vo data))]))"

definition hex_digit :: "nat \<Rightarrow> char" where
  "hex_digit d = (if d < 10 then char_of (48 + d) else char_of (87 + d))"

text \<open>The result is the number of bytes consumed (0: incomplete, \<open>out\<close> untouched) and the frame.\<close>

definition tryParse :: "absl \<Rightarrow> nat \<Rightarrow> bytes \<Rightarrow> (nat \<times> resp2_frame) result" where
  "tryParse L max_bulk data =
     (if length data = 0 then Inr (0, Resp2Empty)
      else
        let type = data ! 0 in
        if type = 36 then
          (case parseBulkString L max_bulk data 0 of
             Inl e \<Rightarrow> Inl e
           | Inr Incomplete \<Rightarrow> Inr (0, Resp2Empty)
           | Inr (Bulk vo vl eo) \<Rightarrow> Inr (eo, Resp2BulkFrame (take vl (drop vo data))))
        else if type = 42 then
          (case findCrlf data 1 of
             None \<Rightarrow> Inr (0, Resp2Empty)
           | Some hdr_end \<Rightarrow>
               (case parseInt64 L (take (hdr_end - 1) (drop 1 data)) of
                  None \<Rightarrow> Inl (InvalidArgumentError ''bad array length'')
                | Some n \<Rightarrow>
                    if n < 0 \<or> n > 1024 then
                      Inl (InvalidArgumentError ''array length out of range'')
                    else
                      (case parseElements L max_bulk data (nat n) (hdr_end + 2) [] of
                         Inl e \<Rightarrow> Inl e
                       | Inr None \<Rightarrow> Inr (0, Resp2Empty)
                       | Inr (Some (off, elems)) \<Rightarrow> Inr (off, Resp2ArrayFrame elems))))
        else
          Inl (InvalidArgumentError
            (''unexpected RESP2 type byte 0x'' @
             [hex_digit (unat type div 16), hex_digit (unat type mod 16)])))"

section \<open>Writer\<close>

definition crlf :: string where
  "crlf = [CHR 0x0D, CHR 0x0A]"

definition writeBulkHeader :: "absl \<Rightarrow> string \<Rightarrow> nat \<Rightarrow> string" where
  "writeBulkHeader L out payload_len = out @ ''$'' @ StrNum L payload_len @ crlf"

definition writeBulk :: "absl \<Rightarrow> string \<Rightarrow> string \<Rightarrow> string" where
  "writeBulk L out payload = writeBulkHeader L out (length payload) @ payload @ crlf"

definition writeArray :: "absl \<Rightarrow> string \<Rightarrow> string list \<Rightarrow> string" where
  "writeArray L out parts = foldl (writeBulk L) (out @ ''*'' @ StrNum L (length parts) @ crlf) parts"

section \<open>Searching for CRLF\<close>

lemma findCrlf_eq_loop: "findCrlf data i = findCrlf_loop data i"
  by (cases "length data < 2") (auto simp: findCrlf_def findCrlf_loop.simps)

lemma findCrlf_bounds:
  "findCrlf_loop data i = Some h \<Longrightarrow> i \<le> h \<and> h + 1 < length data \<and> data ! h = 13 \<and> data ! (h + 1) = 10"
proof (induction data i rule: findCrlf_loop.induct)
  case (1 data i)
  then show ?case by (subst (asm) (2) findCrlf_loop.simps) (force split: if_splits)
qed

lemma findCrlf_append:
  "findCrlf_loop data i = Some h \<Longrightarrow> findCrlf_loop (data @ extra) i = Some h"
proof (induction data i rule: findCrlf_loop.induct)
  case (1 data i)
  then show ?case
    by (subst findCrlf_loop.simps, subst (asm) (2) findCrlf_loop.simps)
       (auto simp: nth_append split: if_splits)
qed

lemma findCrlf_shift:
  "findCrlf_loop (pre @ data) (length pre + i) = map_option ((+) (length pre)) (findCrlf_loop data i)"
proof (induction data i rule: findCrlf_loop.induct)
  case (1 data i)
  then show ?case
    by (subst findCrlf_loop.simps, subst (2) findCrlf_loop.simps) (auto simp: nth_append)
qed

lemma findCrlf_here: "13 \<notin> set ds \<Longrightarrow> findCrlf_loop (ds @ 13 # 10 # rest) 0 = Some (length ds)"
proof (induction ds)
  case (Cons d ds)
  have "findCrlf_loop (d # ds @ 13 # 10 # rest) (length [d] + 0)
      = map_option ((+) (length [d])) (findCrlf_loop (ds @ 13 # 10 # rest) 0)"
    using findCrlf_shift [of "[d]" "ds @ 13 # 10 # rest" 0] by simp
  moreover have "findCrlf_loop (d # ds @ 13 # 10 # rest) 0
      = findCrlf_loop (d # ds @ 13 # 10 # rest) 1"
    using Cons.prems by (subst findCrlf_loop.simps) auto
  ultimately show ?case using Cons by simp
qed (simp add: findCrlf_loop.simps)

section \<open>Bounds and stability of the parser\<close>

lemma parseBulkString_bounds:
  "parseBulkString L m data off = Inr (Bulk vo vl eo)
   \<Longrightarrow> off < vo \<and> eo = vo + vl + 2 \<and> eo \<le> length data \<and> vl \<le> m"
  by (auto simp: parseBulkString_def findCrlf_eq_loop Let_def
        split: if_splits option.splits dest!: findCrlf_bounds)

lemma parseBulkString_append:
  assumes "parseBulkString L m data off \<noteq> Inr Incomplete"
  shows "parseBulkString L m (data @ extra) off = parseBulkString L m data off"
proof -
  from assms obtain h where off: "off < length data" and
    h: "data ! off \<noteq> 36 \<or> findCrlf_loop data (off + 1) = Some h"
    by (auto simp: parseBulkString_def findCrlf_eq_loop split: if_splits option.splits)
  show ?thesis
  proof (cases "data ! off = 36")
    case True
    with h have h: "findCrlf_loop data (off + 1) = Some h" by simp
    then have "off + 1 \<le> h" "h + 1 < length data" by (auto dest: findCrlf_bounds)
    then have "h - length data = 0" by simp
    note facts = this findCrlf_append [OF h, of extra] h True off
    show ?thesis
    proof (cases "parseInt64 L (take (h - off - 1) (drop (off + 1) data))")
      case None
      with facts show ?thesis by (simp add: parseBulkString_def findCrlf_eq_loop nth_append)
    next
      case (Some len)
      show ?thesis
      proof (cases "len < 0 \<or> m < nat len")
        case True
        with Some facts show ?thesis
          by (auto simp: parseBulkString_def findCrlf_eq_loop nth_append)
      next
        case False
        with Some facts assms have "\<not> h + 2 + nat len + 2 > length data"
          by (auto simp: parseBulkString_def findCrlf_eq_loop)
        with False Some facts show ?thesis
          by (simp add: parseBulkString_def findCrlf_eq_loop nth_append)
      qed
    qed
  qed (use off in \<open>simp add: parseBulkString_def nth_append\<close>)
qed

lemma parseElements_bounds:
  "parseElements L m data n off elems = Inr (Some (off', es)) \<Longrightarrow> off \<le> length data
   \<Longrightarrow> off \<le> off' \<and> off' \<le> length data
     \<and> (\<exists>new. es = elems @ new \<and> length new = n \<and> (\<forall>e \<in> set new. length e \<le> m))"
proof (induction n arbitrary: off elems)
  case (Suc n)
  from Suc.prems(1) obtain vo vl eo where b: "parseBulkString L m data off = Inr (Bulk vo vl eo)"
    and rec: "parseElements L m data n eo (elems @ [as_string (take vl (drop vo data))])
      = Inr (Some (off', es))"
    by (auto split: sum.splits bulk_scan.splits)
  note bounds = parseBulkString_bounds [OF b]
  from bounds have "eo \<le> length data" by simp
  from Suc.IH [OF rec this] obtain new where
    "eo \<le> off'" "off' \<le> length data" "es = elems @ as_string (take vl (drop vo data)) # new"
    "length new = n" "\<forall>e \<in> set new. length e \<le> m" by auto
  with bounds show ?case by auto
qed simp

lemma parseElements_append:
  assumes "parseElements L m data n off elems \<noteq> Inr None"
  shows "parseElements L m (data @ extra) n off elems = parseElements L m data n off elems"
  using assms
proof (induction n arbitrary: off elems)
  case (Suc n)
  show ?case
  proof (cases "parseBulkString L m data off")
    case (Inl e)
    then show ?thesis by (simp add: parseBulkString_append)
  next
    case (Inr r)
    with Suc.prems obtain vo vl eo where b: "parseBulkString L m data off = Inr (Bulk vo vl eo)"
      by (cases r) auto
    from parseBulkString_bounds [OF b] have "vl - (length data - vo) = 0" by simp
    with Suc b show ?thesis by (simp add: parseBulkString_append)
  qed
qed simp

text \<open>The type byte selects the branch.\<close>

lemma tryParse_bulk:
  "data \<noteq> [] \<Longrightarrow> data ! 0 = 36 \<Longrightarrow> tryParse L m data =
     (case parseBulkString L m data 0 of
        Inl e \<Rightarrow> Inl e
      | Inr Incomplete \<Rightarrow> Inr (0, Resp2Empty)
      | Inr (Bulk vo vl eo) \<Rightarrow> Inr (eo, Resp2BulkFrame (take vl (drop vo data))))"
  by (simp add: tryParse_def)

definition array_header :: "absl \<Rightarrow> bytes \<Rightarrow> (nat \<times> int option) option" where
  "array_header L data =
     map_option (\<lambda>h. (h, parseInt64 L (take (h - 1) (drop 1 data)))) (findCrlf_loop data 1)"

lemma tryParse_array:
  "data \<noteq> [] \<Longrightarrow> data ! 0 = 42 \<Longrightarrow> tryParse L m data =
     (case array_header L data of
        None \<Rightarrow> Inr (0, Resp2Empty)
      | Some (h, None) \<Rightarrow> Inl (InvalidArgumentError ''bad array length'')
      | Some (h, Some n) \<Rightarrow>
          if n < 0 \<or> n > 1024 then Inl (InvalidArgumentError ''array length out of range'')
          else (case parseElements L m data (nat n) (h + 2) [] of
                  Inl e \<Rightarrow> Inl e
                | Inr None \<Rightarrow> Inr (0, Resp2Empty)
                | Inr (Some (off, elems)) \<Rightarrow> Inr (off, Resp2ArrayFrame elems)))"
  by (cases "findCrlf_loop data 1") (simp_all add: tryParse_def array_header_def findCrlf_eq_loop
        split: option.split)

lemma tryParse_other:
  "data \<noteq> [] \<Longrightarrow> data ! 0 \<noteq> 36 \<Longrightarrow> data ! 0 \<noteq> 42 \<Longrightarrow> \<exists>e. \<forall>extra. tryParse L m (data @ extra) = Inl e"
  by (auto simp: tryParse_def nth_append Let_def)

lemma array_header_append:
  assumes "array_header L data = Some x"
  shows "array_header L (data @ extra) = Some x"
proof -
  from assms obtain h where h: "findCrlf_loop data 1 = Some h"
    by (auto simp: array_header_def)
  from findCrlf_bounds [OF h] have "h - 1 - (length data - 1) = 0" by simp
  then show ?thesis using h assms findCrlf_append [OF h, of extra]
    by (auto simp: array_header_def)
qed

lemma array_header_bound: "array_header L data = Some (h, k) \<Longrightarrow> h + 2 \<le> length data"
  by (auto simp: array_header_def dest: findCrlf_bounds)

fun frame_within :: "nat \<Rightarrow> resp2_frame \<Rightarrow> bool" where
  "frame_within m Resp2Empty \<longleftrightarrow> True"
| "frame_within m (Resp2BulkFrame b) \<longleftrightarrow> length b \<le> m"
| "frame_within m (Resp2ArrayFrame es) \<longleftrightarrow> length es \<le> 1024 \<and> (\<forall>e \<in> set es. length e \<le> m)"

lemma tryParse_bounds:
  assumes "tryParse L m data = Inr (n, f)"
  shows "n \<le> length data \<and> (n = 0 \<longleftrightarrow> f = Resp2Empty) \<and> frame_within m f"
proof (cases "data = []")
  case True
  with assms show ?thesis by (auto simp: tryParse_def)
next
  case ne: False
  consider "data ! 0 = 36" | "data ! 0 = 42" | "data ! 0 \<noteq> 36" "data ! 0 \<noteq> 42" by blast
  then show ?thesis
  proof cases
    case 1
    with assms ne show ?thesis
      by (auto simp: tryParse_bulk split: sum.splits bulk_scan.splits dest!: parseBulkString_bounds)
  next
    case 2
    show ?thesis
    proof (cases "f = Resp2Empty")
      case True
      with assms show ?thesis
        by (auto simp: tryParse_array [OF ne 2]
              split: sum.splits option.splits if_splits prod.splits)
    next
      case False
      with assms obtain h k es where h: "array_header L data = Some (h, Some k)" and
        k: "0 \<le> k" "k \<le> 1024" and
        es: "parseElements L m data (nat k) (h + 2) [] = Inr (Some (n, es))" "f = Resp2ArrayFrame es"
        by (auto simp: tryParse_array [OF ne 2]
              split: sum.splits option.splits if_splits prod.splits)
      from parseElements_bounds [OF es(1) array_header_bound [OF h]] k es(2) show ?thesis by auto
    qed
  next
    case 3
    from tryParse_other [OF ne 3, of L m] obtain e where "tryParse L m (data @ []) = Inl e" by blast
    with assms show ?thesis by simp
  qed
qed

lemma tryParse_append:
  assumes complete: "\<not> (\<exists>f. tryParse L m data = Inr (0, f))"
  shows "tryParse L m (data @ extra) = tryParse L m data"
proof -
  from assms have ne: "data \<noteq> []" by (auto simp: tryParse_def)
  then have hd: "(data @ extra) ! 0 = data ! 0" and ne': "data @ extra \<noteq> []"
    by (simp_all add: nth_append)
  consider "data ! 0 = 36" | "data ! 0 = 42" | "data ! 0 \<noteq> 36" "data ! 0 \<noteq> 42" by blast
  then show ?thesis
  proof cases
    case 1
    with complete ne have "parseBulkString L m data 0 \<noteq> Inr Incomplete"
      by (auto simp: tryParse_bulk)
    with 1 ne ne' hd show ?thesis
      by (auto simp: tryParse_bulk parseBulkString_append
            split: sum.split bulk_scan.split dest!: parseBulkString_bounds)
  next
    case 2
    with complete ne obtain h k where h: "array_header L data = Some (h, k)"
      by (cases "array_header L data") (auto simp: tryParse_array)
    show ?thesis
    proof (cases "k = None \<or> the k < 0 \<or> 1024 < the k")
      case True
      then show ?thesis
        using 2 ne ne' hd h array_header_append [OF h] by (cases k) (simp_all add: tryParse_array)
    next
      case False
      then obtain i where i: "k = Some i" "\<not> (i < 0 \<or> 1024 < i)" by auto
      with complete have "parseElements L m data (nat i) (h + 2) [] \<noteq> Inr None"
        using 2 ne h by (auto simp: tryParse_array)
      from parseElements_append [OF this] show ?thesis
        using 2 ne ne' hd h i array_header_append [OF h] by (simp add: tryParse_array)
    qed
  next
    case 3
    from tryParse_other [OF ne this, of L m] obtain e where
      e: "\<And>x. tryParse L m (data @ x) = Inl e" by blast
    from e [of "[]"] e [of extra] show ?thesis by simp
  qed
qed

section \<open>What the writer emits, the parser reads back\<close>

lemma as_bytes_crlf [simp, wire_simps]: "as_bytes crlf = [13, 10]"
  by (simp add: crlf_def u8_of_def)

lemma u8_of_markers [simp, wire_simps]: "u8_of CHR ''$'' = 36" "u8_of CHR ''*'' = 42"
  by (simp_all add: u8_of_def)

lemma length_crlf [simp]: "length crlf = 2"
  by (simp add: crlf_def)

lemma no_cr_in_dec: "13 \<notin> set (as_bytes (dec n))"
proof
  assume "13 \<in> set (as_bytes (dec n))"
  then obtain c where c: "c \<in> set (dec n)" "u8_of c = 13" by (auto simp: set_as_bytes)
  then have "c = CHR 0x0D" by (metis chr_of_u8_of as_bytes_crlf as_bytes_Cons crlf_def list.inject)
  with dec_digits [OF c(1)] show False by (simp add: is_digit_def)
qed

lemma writeBulk_append: "writeBulk L out p = out @ writeBulk L [] p"
  by (simp add: writeBulk_def writeBulkHeader_def)

lemma writeArray_concat:
  "writeArray L out parts =
     out @ ''*'' @ StrNum L (length parts) @ crlf @ concat (map (writeBulk L []) parts)"
proof -
  have "foldl (writeBulk L) acc ps = acc @ concat (map (writeBulk L []) ps)" for acc ps
    by (induction ps arbitrary: acc) (simp_all, metis append.assoc writeBulk_append)
  then show ?thesis by (simp add: writeArray_def)
qed

lemma crlf_search_after:
  assumes "13 \<notin> set ds"
  shows "findCrlf_loop (pre @ c # ds @ 13 # 10 # rest) (length pre + 1)
    = Some (length pre + 1 + length ds)"
  using findCrlf_shift [of "pre @ [c]" "ds @ 13 # 10 # rest" 0] findCrlf_here [OF assms]
  by simp

context absl_laws
begin

lemma wire_bulk:
  "as_bytes (writeBulk L [] p) = 36 # as_bytes (dec (length p)) @ 13 # 10 # as_bytes p @ [13, 10]"
  by (simp add: writeBulk_def writeBulkHeader_def strnum)

lemma parseBulkString_written:
  fixes pre :: bytes
  assumes "length p \<le> m" "length p < 2 ^ 63"
  defines "hdr \<equiv> length pre + 1 + length (dec (length p)) + 2"
  shows "parseBulkString L m (pre @ as_bytes (writeBulk L [] p) @ rest) (length pre)
    = Inr (Bulk hdr (length p) (length pre + length (writeBulk L [] p)))"
    and "take (length p) (drop hdr (pre @ as_bytes (writeBulk L [] p) @ rest)) = as_bytes p"
proof -
  let ?ds = "as_bytes (dec (length p))"
  let ?tail = "as_bytes p @ [13, 10] @ rest"
  let ?data = "pre @ 36 # ?ds @ 13 # 10 # ?tail"
  have data: "pre @ as_bytes (writeBulk L [] p) @ rest = ?data" by (simp add: wire_bulk)
  have crlf: "findCrlf_loop ?data (length pre + 1) = Some (length pre + 1 + length ?ds)"
    by (rule crlf_search_after [OF no_cr_in_dec])
  have len: "parseInt64 L (take (length pre + 1 + length ?ds - length pre - 1)
      (drop (length pre + 1) ?data)) = Some (int (length p))"
    using assms(2) by (simp add: parseInt64_def atoi64_dec)
  let ?front = "pre @ 36 # ?ds @ [13, 10]"
  have front: "?data = ?front @ ?tail" "hdr = length ?front" by (simp_all add: hdr_def)
  show "take (length p) (drop hdr (pre @ as_bytes (writeBulk L [] p) @ rest)) = as_bytes p"
    unfolding data front drop_length_append by simp
  have "drop (hdr + length p) ?data = [13, 10] @ rest"
    unfolding front add.commute [of _ "length p"] drop_drop [symmetric] drop_length_append by simp
  then have "?data ! (hdr + length p) = 13" "?data ! (hdr + length p + 1) = 10"
    using nth_drop [of "hdr + length p" ?data 0] nth_drop [of "hdr + length p" ?data 1]
    unfolding hdr_def by simp_all
  moreover have "length (writeBulk L [] p) = 1 + length (dec (length p)) + 2 + length p + 2"
    by (simp add: writeBulk_def writeBulkHeader_def strnum)
  ultimately show "parseBulkString L m (pre @ as_bytes (writeBulk L [] p) @ rest) (length pre)
    = Inr (Bulk hdr (length p) (length pre + length (writeBulk L [] p)))"
    unfolding data using crlf len assms(1)
    by (simp add: parseBulkString_def findCrlf_eq_loop hdr_def nth_append)
qed

lemma parseElements_step:
  "parseBulkString L m data off = Inr (Bulk vo vl eo) \<Longrightarrow> take vl (drop vo data) = as_bytes p
   \<Longrightarrow> parseElements L m data (Suc n) off elems = parseElements L m data n eo (elems @ [p])"
  by simp

lemma parseElements_written:
  assumes "\<forall>p \<in> set parts. length p \<le> m \<and> length p < 2 ^ 63"
  shows "parseElements L m (pre @ as_bytes (concat (map (writeBulk L []) parts)) @ rest)
      (length parts) (length pre) elems
    = Inr (Some (length pre + length (concat (map (writeBulk L []) parts)), elems @ parts))"
  using assms
proof (induction parts arbitrary: pre elems)
  case (Cons p parts)
  let ?w = "writeBulk L [] p"
  let ?ws = "concat (map (writeBulk L []) parts)"
  have "length p \<le> m" "length p < 2 ^ 63" using Cons.prems by simp_all
  note bulk = parseBulkString_written [OF this, of pre "as_bytes ?ws @ rest"]
  have "parseElements L m ((pre @ as_bytes ?w) @ as_bytes ?ws @ rest) (length parts)
      (length (pre @ as_bytes ?w)) (elems @ [p])
    = Inr (Some (length (pre @ as_bytes ?w) + length ?ws, (elems @ [p]) @ parts))"
    using Cons.prems by (intro Cons.IH) simp
  then show ?case using parseElements_step [OF bulk] by (simp add: add.assoc)
qed simp

lemma tryParse_writeBulk:
  assumes "length p \<le> m" "length p < 2 ^ 63"
  shows "tryParse L m (as_bytes (writeBulk L [] p) @ rest)
    = Inr (length (writeBulk L [] p), Resp2BulkFrame (as_bytes p))"
proof -
  have "as_bytes (writeBulk L [] p) @ rest \<noteq> []" "(as_bytes (writeBulk L [] p) @ rest) ! 0 = 36"
    by (simp_all add: wire_bulk)
  then show ?thesis
    using parseBulkString_written [OF assms, of "[]" rest]
    by (simp add: tryParse_bulk del: drop_append take_append)
qed

lemma tryParse_writeArray:
  assumes "\<forall>p \<in> set parts. length p \<le> m \<and> length p < 2 ^ 63" "length parts \<le> 1024"
  shows "tryParse L m (as_bytes (writeArray L [] parts) @ rest)
    = Inr (length (writeArray L [] parts), Resp2ArrayFrame parts)"
proof -
  let ?ds = "as_bytes (dec (length parts))"
  let ?body = "as_bytes (concat (map (writeBulk L []) parts))"
  let ?data = "42 # ?ds @ 13 # 10 # ?body @ rest"
  have data: "as_bytes (writeArray L [] parts) @ rest = ?data"
    by (simp add: writeArray_concat strnum)
  have "findCrlf_loop ?data 1 = Some (1 + length ?ds)"
    using crlf_search_after [OF no_cr_in_dec, of "[]" 42] by simp
  then have hdr: "array_header L ?data = Some (1 + length ?ds, Some (int (length parts)))"
    using assms(2) by (simp add: array_header_def parseInt64_def atoi64_dec)
  have "parseElements L m ((42 # ?ds @ [13, 10]) @ ?body @ rest) (length parts)
      (length (42 # ?ds @ [13, 10])) []
    = Inr (Some (length (42 # ?ds @ [13, 10]) + length (concat (map (writeBulk L []) parts)), [] @ parts))"
    by (rule parseElements_written [OF assms(1)])
  then show ?thesis
    unfolding data using hdr assms(2)
    by (simp add: tryParse_array writeArray_concat strnum)
qed

end

end
