(* ===== verification/Framing.thy ===== *)
theory Framing
  imports Resp2 Absl_Reference
begin

text \<open>
  The framing contract between the RESP2 codec and the link that reads it: a parser that reports
  how many bytes a frame took, or that it needs more. \<open>frames_of\<close> is the meaning of a byte stream
  under such a parser: the frames it starts with, an error that ended them, and the unparsed
  rest. The locale \<open>frame_codec\<close> states the laws and proves, once, that the meaning does not
  depend on how the stream is cut into pieces; the RESP2 parser and writer satisfy them.
\<close>

function frames_of ::
  "(bytes \<Rightarrow> (nat \<times> 'f) result) \<Rightarrow> bytes \<Rightarrow> 'f list \<times> status option \<times> bytes"
where
  "frames_of parse d =
     (case parse d of
        Inl e \<Rightarrow> ([], Some e, d)
      | Inr (n, f) \<Rightarrow>
          if n = 0 \<or> n > length d then ([], None, d)
          else (case frames_of parse (drop n d) of (fs, e, r) \<Rightarrow> (f # fs, e, r)))"
  by pat_completeness auto
termination
  by (relation "measure (\<lambda>(parse, d). length d)") auto

declare frames_of.simps [simp del]

definition after_frames ::
  "'f list \<Rightarrow> 'f list \<times> status option \<times> bytes \<Rightarrow> 'f list \<times> status option \<times> bytes"
where
  "after_frames fs x = (case x of (gs, e, r) \<Rightarrow> (fs @ gs, e, r))"

lemma after_frames_Nil [simp]: "after_frames [] x = x"
  by (simp add: after_frames_def split: prod.splits)

lemma after_frames_after [simp]: "after_frames fs (after_frames gs x) = after_frames (fs @ gs) x"
  by (simp add: after_frames_def split: prod.splits)

lemma frames_of_step:
  "parse d = Inr (n, f) \<Longrightarrow> 0 < n \<Longrightarrow> n \<le> length d
   \<Longrightarrow> frames_of parse d = after_frames [f] (frames_of parse (drop n d))"
  by (subst frames_of.simps) (simp add: after_frames_def split: prod.splits)

lemma frames_of_stop: "parse d = Inr (0, f) \<Longrightarrow> frames_of parse d = ([], None, d)"
  by (subst frames_of.simps) simp

lemma frames_of_error: "parse d = Inl e \<Longrightarrow> frames_of parse d = ([], Some e, d)"
  by (subst frames_of.simps) simp

locale frame_codec =
  fixes parse :: "bytes \<Rightarrow> (nat \<times> 'f) result"
    and wire :: "'f \<Rightarrow> bytes"
    and valid :: "'f \<Rightarrow> bool"
  assumes parse_wire: "valid f \<Longrightarrow> parse (wire f @ rest) = Inr (length (wire f), f)"
    and wire_nonempty: "valid f \<Longrightarrow> wire f \<noteq> []"
    and parse_bound: "parse d = Inr (n, f) \<Longrightarrow> n \<le> length d"
    and parse_stable: "parse d = Inr (n, f) \<Longrightarrow> 0 < n \<Longrightarrow> parse (d @ x) = Inr (n, f)"
    and error_stable: "parse d = Inl e \<Longrightarrow> parse (d @ x) = Inl e"
begin

lemma prefix_incomplete:
  assumes "valid f" "strict_prefix p (wire f)"
  shows "\<exists>g. parse p = Inr (0, g)"
proof -
  from assms(2) obtain x where x: "wire f = p @ x" and len: "length p < length (wire f)"
    by (auto simp: strict_prefix_def prefix_def)
  have full: "parse (p @ x) = Inr (length (wire f), f)"
    using parse_wire [OF assms(1), of "[]"] x by simp
  show ?thesis
  proof (cases "parse p")
    case (Inl e)
    from error_stable [OF this, of x] full show ?thesis by simp
  next
    case (Inr y)
    then obtain n g where y: "parse p = Inr (n, g)" by (cases y) auto
    have "n = 0"
    proof (rule ccontr)
      assume "n \<noteq> 0"
      with parse_stable [OF y, of x] full have "n = length (wire f)" by auto
      with parse_bound [OF y] len show False by simp
    qed
    with y show ?thesis by blast
  qed
qed

lemma unique_decoding:
  assumes "valid f" "valid g" "wire f @ x = wire g @ y"
  shows "f = g \<and> x = y"
proof -
  have "Inr (length (wire f), f) = (Inr (length (wire g), g) :: (nat \<times> 'f) result)"
    using parse_wire [OF assms(1), of x] parse_wire [OF assms(2), of y] assms(3) by simp
  with assms(3) show ?thesis by simp
qed

lemma frames_of_append:
  "frames_of parse (d @ x) =
     (case frames_of parse d of
        (fs, Some e, r) \<Rightarrow> (fs, Some e, r @ x)
      | (fs, None, r) \<Rightarrow> after_frames fs (frames_of parse (r @ x)))"
proof (induction d rule: length_induct)
  case (1 d)
  show ?case
  proof (cases "parse d")
    case (Inl e)
    then show ?thesis by (simp add: frames_of_error error_stable)
  next
    case (Inr y)
    then obtain n f where y: "parse d = Inr (n, f)" by (cases y) auto
    show ?thesis
    proof (cases "n = 0")
      case True
      with y show ?thesis by (simp add: frames_of_stop)
    next
      case False
      with y parse_bound have n: "0 < n" "n \<le> length d" by auto
      then have "length (drop n d) < length d" by simp
      with 1 have IH: "frames_of parse (drop n d @ x) =
         (case frames_of parse (drop n d) of
            (fs, Some e, r) \<Rightarrow> (fs, Some e, r @ x)
          | (fs, None, r) \<Rightarrow> after_frames fs (frames_of parse (r @ x)))" by blast
      have "frames_of parse (d @ x) = after_frames [f] (frames_of parse (drop n d @ x))"
        using frames_of_step [of parse "d @ x" n f] parse_stable [OF y n(1)] n by simp
      then show ?thesis
        using IH frames_of_step [of parse, OF y n]
        by (auto simp: after_frames_def split: prod.splits option.splits)
    qed
  qed
qed

lemma frames_of_wires:
  assumes "list_all valid fs"
  shows "frames_of parse (concat (map wire fs) @ rest) = after_frames fs (frames_of parse rest)"
  using assms
proof (induction fs)
  case (Cons f fs)
  let ?d = "concat (map wire (f # fs)) @ rest"
  have "parse ?d = Inr (length (wire f), f)" "0 < length (wire f)"
    using Cons.prems parse_wire [of f] wire_nonempty [of f] by auto
  then show ?case using Cons by (simp add: frames_of_step)
qed simp

end

section \<open>The RESP2 codec satisfies the contract\<close>

fun resp2_wire :: "absl \<Rightarrow> resp2_frame \<Rightarrow> bytes" where
  "resp2_wire L Resp2Empty = []"
| "resp2_wire L (Resp2BulkFrame b) = as_bytes (writeBulk L [] (as_string b))"
| "resp2_wire L (Resp2ArrayFrame es) = as_bytes (writeArray L [] es)"

text \<open>What can be sent: a frame within the parser's limits (an \<^verbatim>\<open>i64\<close> holds every length).\<close>

definition resp2_valid :: "nat \<Rightarrow> resp2_frame \<Rightarrow> bool" where
  "resp2_valid m f \<longleftrightarrow> f \<noteq> Resp2Empty \<and> frame_within (min m (2 ^ 63 - 1)) f"

lemma tryParse_stable_frame:
  "tryParse L m d = Inr (n, f) \<Longrightarrow> 0 < n \<Longrightarrow> tryParse L m (d @ x) = Inr (n, f)"
  by (subst tryParse_append) auto

lemma tryParse_stable_error: "tryParse L m d = Inl e \<Longrightarrow> tryParse L m (d @ x) = Inl e"
  by (subst tryParse_append) auto

sublocale absl_laws \<subseteq> resp2: frame_codec "tryParse L m" "resp2_wire L" "resp2_valid m" for m
proof (unfold_locales, goal_cases)
  case (1 f rest)
  show ?case
  proof (cases f)
    case (Resp2BulkFrame b)
    with 1 show ?thesis using tryParse_writeBulk [of "as_string b" m rest]
      by (simp add: resp2_valid_def)
  next
    case (Resp2ArrayFrame es)
    with 1 have "length e \<le> m \<and> length e < 2 ^ 63" if "e \<in> set es" for e
      using that by (fastforce simp: resp2_valid_def)
    with 1 Resp2ArrayFrame show ?thesis using tryParse_writeArray [of es m rest]
      by (simp add: resp2_valid_def)
  qed (use 1 in \<open>simp add: resp2_valid_def\<close>)
next
  case (2 f)
  then show ?case
    by (cases f) (auto simp: resp2_valid_def wire_bulk writeArray_concat)
next
  case (3 d n f)
  then show ?case using tryParse_bounds by blast
next
  case (4 d n f x)
  then show ?case by (rule tryParse_stable_frame)
next
  case (5 d e x)
  then show ?case by (rule tryParse_stable_error)
qed

context absl_laws
begin

lemmas resp2_laws =
  resp2.parse_wire resp2.prefix_incomplete resp2.unique_decoding resp2.frames_of_append
  resp2.frames_of_wires

end

section \<open>Properties of the codec\<close>

text \<open>C33. Round trip of the RESP2 layer: the parser, given what the writer produced for a bulk string
  or an array within its limits, followed by anything, consumes exactly the written bytes and
  returns exactly the written value.\<close>

theorem resp2_roundtrip:
  assumes "absl_laws L" and "resp2_valid m f"
  shows "tryParse L m (resp2_wire L f @ rest) = Inr (length (resp2_wire L f), f)"
  using absl_laws.resp2_laws(1) [OF assms] .

theorem resp2_roundtrip_witness:
  "tryParse absl_ref 4 (as_bytes (writeArray absl_ref [] [''PING'', ''x'']) @ [36, 1])
     = Inr (length (writeArray absl_ref [] [''PING'', ''x'']), Resp2ArrayFrame [''PING'', ''x''])"
  using resp2_roundtrip [OF absl_ref_laws, of 4 "Resp2ArrayFrame [''PING'', ''x'']" "[36, 1]"]
  by (simp add: resp2_valid_def)

text \<open>A frame that has arrived only in part is never mistaken for something else: on every proper
  prefix of a written frame the parser asks for more bytes, and reports neither an error nor a
  frame.\<close>

theorem resp2_partial_frame:
  assumes "absl_laws L" and "resp2_valid m f" and "strict_prefix p (resp2_wire L f)"
  shows "tryParse L m p = Inr (0, Resp2Empty)"
proof -
  from absl_laws.resp2_laws(2) [OF assms] obtain g where "tryParse L m p = Inr (0, g)" ..
  with tryParse_bounds [OF this] show ?thesis by auto
qed

theorem resp2_partial_frame_witness:
  "tryParse absl_ref 8 [36, 51, 13, 10, 97, 98] = Inr (0, Resp2Empty)"
proof -
  have "resp2_wire absl_ref (Resp2BulkFrame [97, 98, 99])
      = [36, 51, 13, 10, 97, 98] @ [99, 13, 10]"
    by code_simp
  then have "strict_prefix [36, 51, 13, 10, 97, 98] (resp2_wire absl_ref (Resp2BulkFrame [97, 98, 99]))"
    by (simp only:) (rule strict_prefixI', simp)
  then show ?thesis
    by (intro resp2_partial_frame [OF absl_ref_laws, of _ "Resp2BulkFrame [97, 98, 99]"])
       (simp_all add: resp2_valid_def)
qed

text \<open>A decision of the parser is final: unless it asks for more bytes, appending bytes that arrive
  later changes neither the frame nor the number of bytes consumed nor the error.\<close>

theorem resp2_decision_final:
  "tryParse L m d = Inr (0, Resp2Empty) \<or> tryParse L m (d @ x) = tryParse L m d"
proof (cases "\<exists>f. tryParse L m d = Inr (0, f)")
  case True
  then show ?thesis using tryParse_bounds by blast
next
  case False
  then show ?thesis using tryParse_append by blast
qed

text \<open>C34. The parser's limits hold for every input, hostile ones included: it never consumes more bytes
  than it was given, it yields a frame exactly when it consumes at least one byte, no frame has
  more than 1024 elements, and no bulk string is longer than the limit it was configured with.\<close>

theorem resp2_limits:
  assumes "tryParse L m d = Inr (n, f)"
  shows "n \<le> length d \<and> (n = 0 \<longleftrightarrow> f = Resp2Empty)
    \<and> (case f of Resp2Empty \<Rightarrow> True
       | Resp2BulkFrame b \<Rightarrow> length b \<le> m
       | Resp2ArrayFrame es \<Rightarrow> length es \<le> 1024 \<and> list_all (\<lambda>e. length e \<le> m) es)"
  using tryParse_bounds [OF assms] by (cases f) (auto simp: list_all_iff)

theorem resp2_limits_witness:
  "tryParse absl_ref 3 [36, 51, 13, 10, 97, 98, 99, 13, 10, 42] = Inr (9, Resp2BulkFrame [97, 98, 99])
   \<and> 9 \<le> length [36, 51, 13, 10, 97, 98, 99, 13, 10, 42 :: u8]"
proof -
  have parsed: "tryParse absl_ref 3 [36, 51, 13, 10, 97, 98, 99, 13, 10, 42]
      = Inr (9, Resp2BulkFrame [97, 98, 99])"
    by code_simp
  show ?thesis using parsed resp2_limits [OF parsed] by blast
qed

end
