(* ===== verification/Big_Endian.thy ===== *)
theory Big_Endian
  imports Shine_Prelude
begin

text \<open>
  Big-endian integers at their width: one step of the loops that write and read them. A byte
  order loop that takes eight bits at a time is undone by one that shifts them in again.
\<close>

definition be_push :: "'a :: len word \<Rightarrow> u8 \<Rightarrow> 'a word" where
  "be_push v b = push_bit 8 v OR ucast b"

text \<open>Masking before the narrowing cast is a no-op, and one step of the reading loop restores the
  eight bits the writing loop took.\<close>

lemma ucast_and_0xff: "8 \<le> LENGTH('a) \<Longrightarrow> (ucast (w AND 0xff) :: u8) = ucast (w :: 'a :: len word)"
proof -
  assume "8 \<le> LENGTH('a)"
  have "(0xff :: 'a word) = mask 8" by (simp add: mask_eq_exp_minus_1)
  then have "w AND 0xff = take_bit 8 w" by (simp only: take_bit_eq_mask and.commute)
  then show ?thesis by (simp add: unsigned_take_bit_eq take_bit_word_eq_self)
qed

lemma be_step:
  "8 \<le> LENGTH('a) \<Longrightarrow> be_push (drop_bit (8 + k) w) (ucast (drop_bit k w)) = drop_bit k (w :: 'a :: len word)"
  by (rule bit_word_eqI) (auto simp: bit_simps be_push_def)

lemma be_push_0 [simp]: "be_push 0 b = ucast b"
  by (simp add: be_push_def)

lemma be_low: "8 \<le> LENGTH('a) \<Longrightarrow> (ucast (be_push (v :: 'a :: len word) b) :: u8) = b"
  by (intro bit_word_eqI) (auto simp: bit_simps be_push_def)

lemma be_high:
  "16 + k \<le> LENGTH('a) \<Longrightarrow>
   (ucast (drop_bit (8 + k) (be_push v b)) :: u8) = ucast (drop_bit k (v :: 'a :: len word))"
  by (rule bit_word_eqI) (auto simp: bit_simps be_push_def dest: bit_imp_le_length)

lemma ucast_ucast_byte: "8 \<le> LENGTH('a) \<Longrightarrow> (ucast (ucast (b :: u8) :: 'a :: len word) :: u8) = b"
  by (rule bit_word_eqI) (auto simp: bit_simps)

lemma be_top16: "ucast (ucast (drop_bit 8 (v :: u16)) :: u8) = drop_bit 8 v"
  by (rule bit_word_eqI) (auto simp: bit_simps dest: bit_imp_le_length)

lemma be16_bytes: "be_push (ucast (ucast (drop_bit 8 v AND 0xff) :: u8)) (ucast (v AND 0xff)) = (v :: u16)"
  using be_step [of 0 v] by (simp add: ucast_and_0xff be_top16)

lemma be16_high: "(ucast (drop_bit 8 (be_push (ucast a :: u16) b) AND 0xff) :: u8) = a"
  using be_high [of 0 "ucast a :: u16" b] by (simp add: ucast_and_0xff ucast_ucast_byte)

lemma be16_low: "(ucast (be_push (ucast a :: u16) b AND 0xff) :: u8) = b"
  by (simp add: ucast_and_0xff be_low)

end
