(* ===== verification/Shine_Frame.thy ===== *)
theory Shine_Frame
  imports Framing Big_Endian
begin

text \<open>
  \<^verbatim>\<open>src/proto/shine_frame.cpp\<close>: the frames of the shine protocol, the big-endian helpers, the
  decoder from RESP2 values and the encoders. Control frames are RESP2 arrays, a DATA frame is a
  bulk string of the magic byte, the session id and the payload.
\<close>

section \<open>Frames\<close>

datatype shine_frame =
    HelloFrame string string
  | AuthFrame string
  | OkFrame
  | ErrFrame string string
  | NewFrame u64 string u32
  | AckFrame u64
  | CloseFrame u64 string
  | ResetFrame u64
  | WindowFrame u64 u32
  | PingFrame u64
  | PongFrame u64
  | DataFrame u64 bytes
  | NewUdpFrame u64
  | UdpDataFrame u64 string string

definition kDataMagic :: u8 where
  "kDataMagic = 0xD1"

section \<open>Big-endian integers\<close>

definition putU32BE :: "string \<Rightarrow> u32 \<Rightarrow> string" where
  "putU32BE out v = out @
     [chr_of (ucast (drop_bit 24 v AND 0xff)), chr_of (ucast (drop_bit 16 v AND 0xff)),
      chr_of (ucast (drop_bit 8 v AND 0xff)), chr_of (ucast (v AND 0xff))]"

definition putU64BE :: "string \<Rightarrow> u64 \<Rightarrow> string" where
  "putU64BE out v = out @ map (\<lambda>i. chr_of (ucast (drop_bit (56 - 8 * i) v AND 0xff))) [0..<8]"

definition readU32BE :: "string \<Rightarrow> u32 option" where
  "readU32BE s =
     (if length s \<noteq> 4 then None
      else Some (push_bit 24 (ucast (u8_of (s ! 0))) OR push_bit 16 (ucast (u8_of (s ! 1)))
             OR push_bit 8 (ucast (u8_of (s ! 2))) OR ucast (u8_of (s ! 3))))"

definition be_value :: "bytes \<Rightarrow> u64" where
  "be_value bs = foldl be_push 0 bs"

definition readU64BE :: "string \<Rightarrow> u64 option" where
  "readU64BE s = (if length s \<noteq> 8 then None else Some (be_value (as_bytes s)))"

lemma upt8: "[0..<8] = [0, 1, 2, 3, 4, 5, 6, 7 :: nat]"
  by (simp add: upt_rec)

lemma length_putU64BE [simp]: "length (putU64BE out v) = length out + 8"
  by (simp add: putU64BE_def)

lemma length_putU32BE [simp]: "length (putU32BE out v) = length out + 4"
  by (simp add: putU32BE_def)

lemma be_top32: "ucast (ucast (drop_bit 24 (v :: u32)) :: u8) = drop_bit 24 v"
  by (rule bit_word_eqI) (auto simp: bit_simps dest: bit_imp_le_length)

lemma be_top64: "ucast (ucast (drop_bit 56 (v :: u64)) :: u8) = drop_bit 56 v"
  by (rule bit_word_eqI) (auto simp: bit_simps dest: bit_imp_le_length)

lemma be_push_nest:
  "push_bit 24 a OR push_bit 16 (ucast b) OR push_bit 8 (ucast c) OR ucast d
   = be_push (be_push (be_push a b) c) d"
  by (simp add: be_push_def push_bit_or or.assoc)

lemma readU32BE_putU32BE [simp]: "readU32BE (putU32BE [] v) = Some v"
  using be_step [of 16 v] be_step [of 8 v] be_step [of 0 v]
  by (simp add: readU32BE_def putU32BE_def ucast_and_0xff be_push_nest be_top32)

lemma be_value_putU64BE: "be_value (as_bytes (putU64BE [] v)) = v"
  using be_step [of 48 v] be_step [of 40 v] be_step [of 32 v] be_step [of 24 v] be_step [of 16 v]
    be_step [of 8 v] be_step [of 0 v]
  by (simp add: be_value_def putU64BE_def upt8 ucast_and_0xff be_top64)

lemma readU64BE_putU64BE [simp]: "readU64BE (putU64BE [] v) = Some v"
  by (simp add: readU64BE_def be_value_putU64BE)

text \<open>Conversely, eight bytes are the encoding of the value they are read as.\<close>

lemma list8: "length s = 8 \<longleftrightarrow> (\<exists>a b c d e f g h. s = [a, b, c, d, e, f, g, h])"
  by (auto simp: numeral_eq_Suc length_Suc_conv)

lemma list4: "length s = 4 \<longleftrightarrow> (\<exists>a b c d. s = [a, b, c, d])"
  by (auto simp: numeral_eq_Suc length_Suc_conv)

lemmas be_bytes64 =
  be_high [of 48, where 'a = 64, simplified] be_high [of 40, where 'a = 64, simplified]
  be_high [of 32, where 'a = 64, simplified] be_high [of 24, where 'a = 64, simplified]
  be_high [of 16, where 'a = 64, simplified] be_high [of 8, where 'a = 64, simplified]
  be_high [of 0, where 'a = 64, simplified] be_low [where 'a = 64, simplified]

lemmas be_bytes32 =
  be_high [of 16, where 'a = 32, simplified] be_high [of 8, where 'a = 32, simplified]
  be_high [of 0, where 'a = 32, simplified] be_low [where 'a = 32, simplified]

lemma putU64BE_be_value: "length bs = 8 \<Longrightarrow> as_bytes (putU64BE [] (be_value bs)) = bs"
  by (auto simp: list8 be_value_def putU64BE_def upt8 ucast_and_0xff be_bytes64 ucast_ucast_byte)

lemma readU64BE_Some: "readU64BE s = Some v \<longleftrightarrow> s = putU64BE [] v"
proof
  assume "readU64BE s = Some v"
  then have "length (as_bytes s) = 8" "v = be_value (as_bytes s)"
    by (auto simp: readU64BE_def split: if_splits)
  then show "s = putU64BE [] v" using putU64BE_be_value by (metis as_string_as_bytes)
qed simp

lemma readU32BE_Some: "readU32BE s = Some v \<longleftrightarrow> s = putU32BE [] v"
proof
  assume "readU32BE s = Some v"
  then show "s = putU32BE [] v"
    by (auto simp: readU32BE_def list4 putU32BE_def be_push_nest ucast_and_0xff be_bytes32
          ucast_ucast_byte split: if_splits)
qed simp

section \<open>Decoder\<close>

definition decodeSid :: "string \<Rightarrow> u64 result" where
  "decodeSid s =
     (case readU64BE s of None \<Rightarrow> Inl (InvalidArgumentError ''bad sid'') | Some v \<Rightarrow> Inr v)"

definition decodeU32 :: "string \<Rightarrow> u32 result" where
  "decodeU32 s =
     (case readU32BE s of None \<Rightarrow> Inl (InvalidArgumentError ''bad u32'') | Some v \<Rightarrow> Inr v)"

text \<open>The lambda \<^verbatim>\<open>need(n)\<close> of the decoder.\<close>

definition need :: "absl \<Rightarrow> string list \<Rightarrow> nat \<Rightarrow> unit result" where
  "need L arr n =
     (if length arr < n then
        Inl (InvalidArgumentError
          (''command '' @ arr ! 0 @ '' needs '' @ StrNum L (n - 1) @ '' args''))
      else Inr ())"

definition decodeCommand :: "absl \<Rightarrow> string list \<Rightarrow> shine_frame result" where
  "decodeCommand L arr =
     (let cmd = arr ! 0 in
      if cmd = ''HELLO'' then
        rbind (need L arr 3) (\<lambda>_. Inr (HelloFrame (arr ! 1) (arr ! 2)))
      else if cmd = ''AUTH'' then
        rbind (need L arr 2) (\<lambda>_. Inr (AuthFrame (arr ! 1)))
      else if cmd = ''OK'' then Inr OkFrame
      else if cmd = ''ERR'' then
        rbind (need L arr 3) (\<lambda>_. Inr (ErrFrame (arr ! 1) (arr ! 2)))
      else if cmd = ''NEW'' then
        rbind (need L arr 4) (\<lambda>_. rbind (decodeSid (arr ! 1)) (\<lambda>sid.
          rbind (decodeU32 (arr ! 3)) (\<lambda>win. Inr (NewFrame sid (arr ! 2) win))))
      else if cmd = ''ACK'' then
        rbind (need L arr 2) (\<lambda>_. rbind (decodeSid (arr ! 1)) (\<lambda>sid. Inr (AckFrame sid)))
      else if cmd = ''CLOSE'' then
        rbind (need L arr 2) (\<lambda>_. rbind (decodeSid (arr ! 1)) (\<lambda>sid.
          Inr (CloseFrame sid (if length arr \<ge> 3 then arr ! 2 else []))))
      else if cmd = ''RESET'' then
        rbind (need L arr 2) (\<lambda>_. rbind (decodeSid (arr ! 1)) (\<lambda>sid. Inr (ResetFrame sid)))
      else if cmd = ''WINDOW'' then
        rbind (need L arr 3) (\<lambda>_. rbind (decodeSid (arr ! 1)) (\<lambda>sid.
          rbind (decodeU32 (arr ! 2)) (\<lambda>dlt. Inr (WindowFrame sid dlt))))
      else if cmd = ''PING'' then
        rbind (need L arr 2) (\<lambda>_. rbind (decodeSid (arr ! 1)) (\<lambda>n. Inr (PingFrame n)))
      else if cmd = ''PONG'' then
        rbind (need L arr 2) (\<lambda>_. rbind (decodeSid (arr ! 1)) (\<lambda>n. Inr (PongFrame n)))
      else if cmd = ''NEW_UDP'' then
        rbind (need L arr 2) (\<lambda>_. rbind (decodeSid (arr ! 1)) (\<lambda>sid. Inr (NewUdpFrame sid)))
      else if cmd = ''UDP_DATA'' then
        rbind (need L arr 4) (\<lambda>_. rbind (decodeSid (arr ! 1)) (\<lambda>sid.
          Inr (UdpDataFrame sid (arr ! 2) (arr ! 3))))
      else Inl (InvalidArgumentError (''unknown cmd: '' @ cmd)))"

definition decodeShineFrame :: "absl \<Rightarrow> resp2_frame \<Rightarrow> shine_frame result" where
  "decodeShineFrame L rf =
     (case rf of
        Resp2BulkFrame b \<Rightarrow>
          if length b < 1 + 8 \<or> b ! 0 \<noteq> kDataMagic then
            Inl (InvalidArgumentError ''bad DATA frame header'')
          else Inr (DataFrame (be_value (take 8 (drop 1 b))) (drop 9 b))
      | Resp2Empty \<Rightarrow> Inl (InvalidArgumentError ''empty frame'')
      | Resp2ArrayFrame arr \<Rightarrow>
          if arr = [] then Inl (InvalidArgumentError ''empty array frame'')
          else decodeCommand L arr)"

section \<open>Encoders\<close>

definition encodeHello :: "absl \<Rightarrow> string \<Rightarrow> string \<Rightarrow> string \<Rightarrow> string" where
  "encodeHello L out version features = writeArray L out [''HELLO'', version, features]"

definition encodeAuth :: "absl \<Rightarrow> string \<Rightarrow> string \<Rightarrow> string" where
  "encodeAuth L out password = writeArray L out [''AUTH'', password]"

definition encodeOk :: "absl \<Rightarrow> string \<Rightarrow> string" where
  "encodeOk L out = writeArray L out [''OK'']"

definition encodeErr :: "absl \<Rightarrow> string \<Rightarrow> string \<Rightarrow> string \<Rightarrow> string" where
  "encodeErr L out code message = writeArray L out [''ERR'', code, message]"

definition encodeNew :: "absl \<Rightarrow> string \<Rightarrow> u64 \<Rightarrow> string \<Rightarrow> u32 \<Rightarrow> string" where
  "encodeNew L out sid addr_blob init_window =
     writeArray L out [''NEW'', putU64BE [] sid, addr_blob, putU32BE [] init_window]"

definition encodeAck :: "absl \<Rightarrow> string \<Rightarrow> u64 \<Rightarrow> string" where
  "encodeAck L out sid = writeArray L out [''ACK'', putU64BE [] sid]"

definition encodeClose :: "absl \<Rightarrow> string \<Rightarrow> u64 \<Rightarrow> string \<Rightarrow> string" where
  "encodeClose L out sid reason = writeArray L out [''CLOSE'', putU64BE [] sid, reason]"

definition encodeReset :: "absl \<Rightarrow> string \<Rightarrow> u64 \<Rightarrow> string" where
  "encodeReset L out sid = writeArray L out [''RESET'', putU64BE [] sid]"

definition encodeWindow :: "absl \<Rightarrow> string \<Rightarrow> u64 \<Rightarrow> u32 \<Rightarrow> string" where
  "encodeWindow L out sid delta = writeArray L out [''WINDOW'', putU64BE [] sid, putU32BE [] delta]"

definition encodePing :: "absl \<Rightarrow> string \<Rightarrow> u64 \<Rightarrow> string" where
  "encodePing L out nonce = writeArray L out [''PING'', putU64BE [] nonce]"

definition encodePong :: "absl \<Rightarrow> string \<Rightarrow> u64 \<Rightarrow> string" where
  "encodePong L out nonce = writeArray L out [''PONG'', putU64BE [] nonce]"

definition encodeNewUdp :: "absl \<Rightarrow> string \<Rightarrow> u64 \<Rightarrow> string" where
  "encodeNewUdp L out sid = writeArray L out [''NEW_UDP'', putU64BE [] sid]"

definition encodeUdpData :: "absl \<Rightarrow> string \<Rightarrow> u64 \<Rightarrow> string \<Rightarrow> string \<Rightarrow> string" where
  "encodeUdpData L out sid addr_blob payload =
     writeArray L out [''UDP_DATA'', putU64BE [] sid, addr_blob, payload]"

definition encodeData :: "absl \<Rightarrow> string \<Rightarrow> u64 \<Rightarrow> bytes \<Rightarrow> string" where
  "encodeData L out sid payload =
     (let bulk_len = 1 + 8 + length payload;
          out = out @ ''$'' @ StrNum L bulk_len @ crlf;
          out = out @ [chr_of kDataMagic];
          sid_buf = map (\<lambda>i. chr_of (ucast (drop_bit (56 - 8 * i) sid AND 0xff))) [0..<8];
          out = out @ sid_buf;
          out = out @ as_string payload
      in out @ crlf)"

text \<open>The encoder of each frame, and the RESP2 value it writes.\<close>

fun encodeFrame :: "absl \<Rightarrow> shine_frame \<Rightarrow> string" where
  "encodeFrame L (HelloFrame v fs) = encodeHello L [] v fs"
| "encodeFrame L (AuthFrame p) = encodeAuth L [] p"
| "encodeFrame L OkFrame = encodeOk L []"
| "encodeFrame L (ErrFrame c m) = encodeErr L [] c m"
| "encodeFrame L (NewFrame sid a w) = encodeNew L [] sid a w"
| "encodeFrame L (AckFrame sid) = encodeAck L [] sid"
| "encodeFrame L (CloseFrame sid r) = encodeClose L [] sid r"
| "encodeFrame L (ResetFrame sid) = encodeReset L [] sid"
| "encodeFrame L (WindowFrame sid d) = encodeWindow L [] sid d"
| "encodeFrame L (PingFrame n) = encodePing L [] n"
| "encodeFrame L (PongFrame n) = encodePong L [] n"
| "encodeFrame L (DataFrame sid p) = encodeData L [] sid p"
| "encodeFrame L (NewUdpFrame sid) = encodeNewUdp L [] sid"
| "encodeFrame L (UdpDataFrame sid a p) = encodeUdpData L [] sid a p"

fun frame_value :: "shine_frame \<Rightarrow> resp2_frame" where
  "frame_value (HelloFrame v fs) = Resp2ArrayFrame [''HELLO'', v, fs]"
| "frame_value (AuthFrame p) = Resp2ArrayFrame [''AUTH'', p]"
| "frame_value OkFrame = Resp2ArrayFrame [''OK'']"
| "frame_value (ErrFrame c m) = Resp2ArrayFrame [''ERR'', c, m]"
| "frame_value (NewFrame sid a w) = Resp2ArrayFrame [''NEW'', putU64BE [] sid, a, putU32BE [] w]"
| "frame_value (AckFrame sid) = Resp2ArrayFrame [''ACK'', putU64BE [] sid]"
| "frame_value (CloseFrame sid r) = Resp2ArrayFrame [''CLOSE'', putU64BE [] sid, r]"
| "frame_value (ResetFrame sid) = Resp2ArrayFrame [''RESET'', putU64BE [] sid]"
| "frame_value (WindowFrame sid d) = Resp2ArrayFrame [''WINDOW'', putU64BE [] sid, putU32BE [] d]"
| "frame_value (PingFrame n) = Resp2ArrayFrame [''PING'', putU64BE [] n]"
| "frame_value (PongFrame n) = Resp2ArrayFrame [''PONG'', putU64BE [] n]"
| "frame_value (DataFrame sid p) = Resp2BulkFrame (kDataMagic # as_bytes (putU64BE [] sid) @ p)"
| "frame_value (NewUdpFrame sid) = Resp2ArrayFrame [''NEW_UDP'', putU64BE [] sid]"
| "frame_value (UdpDataFrame sid a p) = Resp2ArrayFrame [''UDP_DATA'', putU64BE [] sid, a, p]"

lemmas encoder_defs [wire_simps] =
  encodeHello_def encodeAuth_def encodeOk_def encodeErr_def encodeNew_def encodeAck_def
  encodeClose_def encodeReset_def encodeWindow_def encodePing_def encodePong_def encodeNewUdp_def
  encodeUdpData_def

section \<open>Decoding what was encoded\<close>

lemma decodeSid_put [simp]: "decodeSid (putU64BE [] sid) = Inr sid"
  by (simp add: decodeSid_def readU64BE_putU64BE)

lemma decodeU32_put [simp]: "decodeU32 (putU32BE [] v) = Inr v"
  by (simp add: decodeU32_def readU32BE_putU32BE)

lemma putU64BE_inject [simp]: "putU64BE [] v = putU64BE [] w \<longleftrightarrow> v = w"
  by (metis readU64BE_Some option.inject)

lemma putU32BE_inject [simp]: "putU32BE [] v = putU32BE [] w \<longleftrightarrow> v = w"
  by (metis readU32BE_Some option.inject)

lemma decodeSid_Inr: "decodeSid s = Inr sid \<longleftrightarrow> s = putU64BE [] sid"
  by (auto simp: decodeSid_def readU64BE_Some split: option.splits)

lemma decodeU32_Inr: "decodeU32 s = Inr v \<longleftrightarrow> s = putU32BE [] v"
  by (auto simp: decodeU32_def readU32BE_Some split: option.splits)

lemma need_Inr: "need L arr n = Inr u \<longleftrightarrow> n \<le> length arr"
  by (auto simp: need_def)

lemma decode_frame_value: "decodeShineFrame L (frame_value f) = Inr f"
  by (cases f) (simp_all add: decodeShineFrame_def decodeCommand_def need_def be_value_putU64BE)

lemma encodeData_bulk:
  "encodeData L [] sid p = writeBulk L [] (chr_of kDataMagic # putU64BE [] sid @ as_string p)"
  by (simp add: encodeData_def writeBulk_def writeBulkHeader_def putU64BE_def)

lemma encodeFrame_wire: "as_bytes (encodeFrame L f) = resp2_wire L (frame_value f)"
  by (cases f) (simp_all add: wire_simps encodeData_bulk)

text \<open>The frames that a parser with bulk limit \<open>m\<close> accepts.\<close>

definition frame_fits :: "nat \<Rightarrow> shine_frame \<Rightarrow> bool" where
  "frame_fits m f \<longleftrightarrow> resp2_valid m (frame_value f)"

lemma args_split:
  "2 \<le> length xs \<Longrightarrow> xs = [xs ! 0, xs ! 1] @ drop 2 xs"
  "3 \<le> length xs \<Longrightarrow> xs = [xs ! 0, xs ! 1, xs ! 2] @ drop 3 xs"
  "4 \<le> length xs \<Longrightarrow> xs = [xs ! 0, xs ! 1, xs ! 2, xs ! 3] @ drop 4 xs"
  by (cases xs; cases "tl xs"; cases "tl (tl xs)"; cases "tl (tl (tl xs))"; simp)+

text \<open>The arguments that make an array decode to a command: the encoder's own, then any number of
  further elements, and a close without its reason.\<close>

definition array_encodes :: "string list \<Rightarrow> shine_frame \<Rightarrow> bool" where
  "array_encodes arr f \<longleftrightarrow>
     (\<exists>args extra. frame_value f = Resp2ArrayFrame args \<and> arr = args @ extra)
     \<or> (\<exists>sid. f = CloseFrame sid [] \<and> arr = [''CLOSE'', putU64BE [] sid])"

lemma array_encodesI:
  "frame_value f = Resp2ArrayFrame args \<Longrightarrow> arr = args @ extra \<Longrightarrow> array_encodes arr f"
  unfolding array_encodes_def by blast

lemma array_encodes_n:
  "arr \<noteq> [] \<Longrightarrow> frame_value f = Resp2ArrayFrame [arr ! 0] \<Longrightarrow> array_encodes arr f"
  "2 \<le> length arr \<Longrightarrow> frame_value f = Resp2ArrayFrame [arr ! 0, arr ! 1] \<Longrightarrow> array_encodes arr f"
  "3 \<le> length arr \<Longrightarrow> frame_value f = Resp2ArrayFrame [arr ! 0, arr ! 1, arr ! 2]
   \<Longrightarrow> array_encodes arr f"
  "4 \<le> length arr \<Longrightarrow> frame_value f = Resp2ArrayFrame [arr ! 0, arr ! 1, arr ! 2, arr ! 3]
   \<Longrightarrow> array_encodes arr f"
  by (rule array_encodesI [where extra = "tl arr"], assumption, simp add: neq_Nil_conv, fastforce)
     (rule array_encodesI, assumption, erule args_split)+

lemma array_encodes_close:
  assumes "arr ! 0 = ''CLOSE''" "2 \<le> length arr" "arr ! 1 = putU64BE [] sid"
  shows "array_encodes arr (CloseFrame sid (if length arr \<ge> 3 then arr ! 2 else []))"
proof (cases "length arr \<ge> 3")
  case True
  with assms show ?thesis by (intro array_encodes_n(3)) simp_all
next
  case False
  with assms args_split(1) [of arr] show ?thesis unfolding array_encodes_def by simp
qed

lemma if_branch:
  "(if c then a else b) = r \<Longrightarrow> (c \<Longrightarrow> a = r \<Longrightarrow> P) \<Longrightarrow> (\<not> c \<Longrightarrow> b = r \<Longrightarrow> P) \<Longrightarrow> P"
  by (cases c) auto

lemma decodeCommand_sound:
  assumes "decodeCommand L arr = Inr f" and ne: "arr \<noteq> []"
  shows "array_encodes arr f"
  using assms(1) unfolding decodeCommand_def Let_def
  by (elim if_branch; clarsimp simp: rbind_Inr need_Inr decodeSid_Inr decodeU32_Inr split del: if_split)
     (simp_all add: array_encodes_n(1) [OF ne] array_encodes_n(2-) array_encodes_close
        split del: if_split)

lemma parse_encoded:
  assumes "absl_laws L" and "frame_fits m f"
  shows "\<exists>rf. tryParse L m (as_bytes (encodeFrame L f) @ rest) = Inr (length (encodeFrame L f), rf)
    \<and> decodeShineFrame L rf = Inr f"
proof -
  have len: "length (encodeFrame L f) = length (resp2_wire L (frame_value f))"
    by (metis encodeFrame_wire length_as_bytes)
  show ?thesis
    using absl_laws.resp2_laws(1) [OF assms(1), of m "frame_value f" rest] assms(2)
      decode_frame_value [of L f] len
    by (simp add: encodeFrame_wire frame_fits_def)
qed

section \<open>Properties of the frame codec\<close>

text \<open>C5. Round trip of the shine protocol: for each of the fourteen frames, what its encoder appends to
  the output is read back by the RESP2 parser (limit \<open>m\<close>, anything following) as one frame of
  exactly that length, and the decoder turns it into the frame that was encoded.\<close>

theorem shine_frame_roundtrip:
  assumes "absl_laws L" and "frame_fits m f"
  shows "\<exists>rf. tryParse L m (as_bytes (encodeFrame L f) @ rest) = Inr (length (encodeFrame L f), rf)
    \<and> decodeShineFrame L rf = Inr f"
  using assms by (rule parse_encoded)

theorem shine_frame_roundtrip_witness:
  "\<exists>rf. tryParse absl_ref 12 (as_bytes (encodeFrame absl_ref (DataFrame 258 [7, 8, 9])) @ [42])
      = Inr (length (encodeFrame absl_ref (DataFrame 258 [7, 8, 9])), rf)
    \<and> decodeShineFrame absl_ref rf = Inr (DataFrame 258 [7, 8, 9])"
  by (rule shine_frame_roundtrip [OF absl_ref_laws])
     (simp add: frame_fits_def resp2_valid_def)

text \<open>C20. The decoder accepts nothing but encodings: a bulk string decodes only to the DATA frame whose
  encoding it is, and an array decodes to a frame only if it starts with exactly the elements the
  encoder writes for that frame (further elements are ignored), the one exception being a CLOSE
  whose reason is left out, which is read as the empty reason.\<close>

theorem decode_sound:
  assumes "decodeShineFrame L rf = Inr f"
  shows "(case rf of
      Resp2Empty \<Rightarrow> False
    | Resp2BulkFrame b \<Rightarrow> frame_value f = rf
    | Resp2ArrayFrame arr \<Rightarrow>
        (\<exists>args extra. frame_value f = Resp2ArrayFrame args \<and> arr = args @ extra)
        \<or> (\<exists>sid. f = CloseFrame sid [] \<and> arr = [''CLOSE'', putU64BE [] sid]))"
proof (cases rf)
  case (Resp2BulkFrame b)
  with assms have b: "9 \<le> length b" "b ! 0 = kDataMagic"
      and f: "f = DataFrame (be_value (take 8 (drop 1 b))) (drop 9 b)"
    by (auto simp: decodeShineFrame_def split: if_splits)
  then have "b = kDataMagic # take 8 (drop 1 b) @ drop 8 (drop 1 b)" by (cases b) auto
  with b f Resp2BulkFrame show ?thesis by (simp add: putU64BE_be_value)
next
  case (Resp2ArrayFrame arr)
  with assms show ?thesis using decodeCommand_sound [of L arr f]
    by (auto simp: decodeShineFrame_def array_encodes_def split: if_splits)
qed (use assms in \<open>simp add: decodeShineFrame_def\<close>)

theorem decode_sound_witness:
  "\<exists>args extra. frame_value OkFrame = Resp2ArrayFrame args \<and> [''OK'', ''x''] = args @ extra"
  using decode_sound [of absl_ref "Resp2ArrayFrame [''OK'', ''x'']" OkFrame]
  by (auto simp: decodeShineFrame_def decodeCommand_def)

end
