(* ===== verification/Asio_Ip.thy ===== *)
theory Asio_Ip
  imports Shine_Prelude Absl_Reference
begin

text \<open>
  The interface of \<^verbatim>\<open>boost::asio::ip\<close> the program uses: parsing and printing addresses. Boost is
  not part of the repository, so its functions are the fields of the record \<open>asio_ip\<close> that the
  definitions take as an argument, and the locale \<open>asio_laws\<close> states what the documentation says
  of them. \<open>asio_ref\<close> is an executable instance (dotted quads, and IPv6 addresses written as
  eight groups of four hexadecimal digits) that satisfies the laws.
\<close>

datatype ip_address = IpV4 bytes | IpV6 bytes

fun ip_bytes :: "ip_address \<Rightarrow> bytes" where
  "ip_bytes (IpV4 b) = b"
| "ip_bytes (IpV6 b) = b"

fun ip_wf :: "ip_address \<Rightarrow> bool" where
  "ip_wf (IpV4 b) \<longleftrightarrow> length b = 4"
| "ip_wf (IpV6 b) \<longleftrightarrow> length b = 16"

record asio_ip =
  make_address :: "string \<Rightarrow> ip_address option"
  make_address_v6 :: "string \<Rightarrow> bytes option"
  v6_to_string :: "bytes \<Rightarrow> string"

locale asio_laws =
  fixes I :: asio_ip
  assumes make_address_wf: "make_address I s = Some a \<Longrightarrow> ip_wf a"
    and v6_length: "make_address_v6 I s = Some b \<Longrightarrow> length b = 16"
    and v6_print_parse: "length b = 16 \<Longrightarrow> make_address_v6 I (v6_to_string I b) = Some b"
    and v6_print_chars: "CHR '']'' \<notin> set (v6_to_string I b)"
    and v6_print_spaces: "c \<in> set (v6_to_string I b) \<Longrightarrow> \<not> is_space c"

section \<open>Splitting what was joined\<close>

lemma append_sep_inject:
  "d \<notin> set p \<Longrightarrow> d \<notin> set q \<Longrightarrow> p @ d # x = q @ d # y \<longleftrightarrow> p = q \<and> x = y"
proof (induction p arbitrary: q)
  case (Cons c p)
  then show ?case by (cases q) auto
qed (case_tac q, auto)

lemma join_inject:
  assumes "join d ps = join d qs" "ps \<noteq> []" "qs \<noteq> []"
    "\<And>p. p \<in> set ps \<Longrightarrow> d \<notin> set p" "\<And>q. q \<in> set qs \<Longrightarrow> d \<notin> set q"
  shows "ps = qs"
  using assms
proof (induction ps arbitrary: qs)
  case (Cons p ps)
  obtain q qs' where qs: "qs = q # qs'" using Cons.prems(3) by (cases qs) auto
  have p: "d \<notin> set p" and q: "d \<notin> set q" using Cons.prems qs by auto
  have mem: "d \<in> set (join d (r # rs))" if "rs \<noteq> []" for r rs using that by (simp add: join_Cons)
  consider "ps = []" "qs' = []" | "ps \<noteq> []" "qs' \<noteq> []"
    using Cons.prems(1) qs p q mem [of ps p] mem [of qs' q] by (cases "ps = []"; cases "qs' = []") auto
  then show ?case
  proof cases
    case 2
    have "p @ d # join d ps = q @ d # join d qs'" using Cons.prems(1) 2 qs by (simp add: join_Cons)
    then have "p = q \<and> join d ps = join d qs'"
      using p q by (simp add: append_sep_inject)
    with Cons.IH [of qs'] 2 Cons.prems qs show ?thesis by auto
  qed (use Cons.prems qs in auto)
qed simp

context absl_laws
begin

lemma split_of_join:
  "ps \<noteq> [] \<Longrightarrow> (\<And>p. p \<in> set ps \<Longrightarrow> d \<notin> set p) \<Longrightarrow> StrSplit L (join d ps) d = ps"
  by (rule join_inject [where d = d]) (auto simp: split_join split_nonempty split_pieces)

end

lemma split_ref_of_join:
  "ps \<noteq> [] \<Longrightarrow> (\<And>p. p \<in> set ps \<Longrightarrow> d \<notin> set p) \<Longrightarrow> split_ref (join d ps) d = ps"
  using absl_ref.split_of_join [of ps d] by (simp add: absl_ref_def)

section \<open>An executable instance\<close>

definition hex_char :: "nat \<Rightarrow> char" where
  "hex_char d = (if d < 10 then char_of (48 + d) else char_of (87 + d))"

definition hex_val :: "char \<Rightarrow> nat option" where
  "hex_val c =
     (let k = of_char c in
      if 48 \<le> k \<and> k \<le> 57 then Some (k - 48)
      else if 97 \<le> k \<and> k \<le> 102 then Some (k - 87) else None)"

fun hex_pair :: "char \<Rightarrow> char \<Rightarrow> u8 option" where
  "hex_pair a b =
     (case (hex_val a, hex_val b) of (Some x, Some y) \<Rightarrow> Some (of_nat (16 * x + y)) | _ \<Rightarrow> None)"

fun hex_groups :: "string list \<Rightarrow> bytes option" where
  "hex_groups [] = Some []"
| "hex_groups ([a, b, c, d] # gs) =
     (case (hex_pair a b, hex_pair c d, hex_groups gs) of
        (Some x, Some y, Some r) \<Rightarrow> Some (x # y # r) | _ \<Rightarrow> None)"
| "hex_groups (g # gs) = None"

definition hex2 :: "u8 \<Rightarrow> string" where
  "hex2 b = [hex_char (unat b div 16), hex_char (unat b mod 16)]"

fun groups_of :: "bytes \<Rightarrow> string list" where
  "groups_of (x # y # r) = (hex2 x @ hex2 y) # groups_of r"
| "groups_of _ = []"

definition octet_ref :: "string \<Rightarrow> u8 option" where
  "octet_ref s =
     (case digits_val s of Some n \<Rightarrow> if n \<le> 255 then Some (of_nat n) else None | None \<Rightarrow> None)"

definition v4_ref :: "string \<Rightarrow> bytes option" where
  "v4_ref s =
     (case map octet_ref (split_ref s CHR ''.'') of
        [Some a, Some b, Some c, Some d] \<Rightarrow> Some [a, b, c, d] | _ \<Rightarrow> None)"

definition v6_ref :: "string \<Rightarrow> bytes option" where
  "v6_ref s =
     (case hex_groups (split_ref s CHR '':'') of
        Some b \<Rightarrow> if length b = 16 then Some b else None | None \<Rightarrow> None)"

definition asio_ref :: asio_ip where
  "asio_ref =
     \<lparr>make_address = (\<lambda>s. case v4_ref s of Some b \<Rightarrow> Some (IpV4 b) | None \<Rightarrow> map_option IpV6 (v6_ref s)),
      make_address_v6 = v6_ref,
      v6_to_string = (\<lambda>b. join CHR '':'' (groups_of b))\<rparr>"

lemma hex_val_char: "d < 16 \<Longrightarrow> hex_val (hex_char d) = Some d"
  by (auto simp: hex_val_def hex_char_def Let_def)

lemma hex_char_range: "d < 16 \<Longrightarrow> hex_char d \<noteq> CHR '':'' \<and> hex_char d \<noteq> CHR '']'' \<and> \<not> is_space (hex_char d)"
proof -
  assume d: "d < 16"
  have code: "(of_char (hex_char d) :: nat) = (if d < 10 then 48 + d else 87 + d)"
    using d by (simp add: hex_char_def)
  then have *: "hex_char d \<noteq> c" if "(of_char c :: nat) = 58 \<or> (of_char c :: nat) = 93" for c
    using that d by (auto split: if_splits)
  show ?thesis using * [of "CHR '':''"] * [of "CHR '']''"] d by (simp add: is_space_def code)
qed

lemma unat_u8: "unat (b :: u8) < 256"
  using unsigned_less [of b, where 'a = nat] by simp

lemma hex_pair_hex2:
  "hex_pair (hex_char (unat b div 16)) (hex_char (unat b mod 16)) = Some b"
proof -
  have "unat b div 16 < 16" "unat b mod 16 < 16" using unat_u8 [of b] by auto
  then show ?thesis by (simp add: hex_val_char)
qed

lemma hex_groups_of: "even (length b) \<Longrightarrow> hex_groups (groups_of b) = Some b"
  by (induction b rule: groups_of.induct) (auto simp: hex2_def hex_pair_hex2 simp del: hex_pair.simps)

lemma groups_of_chars:
  "g \<in> set (groups_of b) \<Longrightarrow> CHR '':'' \<notin> set g \<and> CHR '']'' \<notin> set g \<and> (\<forall>c \<in> set g. \<not> is_space c)"
proof (induction b rule: groups_of.induct)
  case (1 x y r)
  have "unat x div 16 < 16" "unat x mod 16 < 16" "unat y div 16 < 16" "unat y mod 16 < 16"
    using unat_u8 [of x] unat_u8 [of y] by auto
  from this [THEN hex_char_range] 1 show ?case by (auto simp: hex2_def)
qed auto

lemma set_join: "c \<in> set (join d ps) \<Longrightarrow> c = d \<or> (\<exists>p \<in> set ps. c \<in> set p)"
  by (induction d ps rule: join.induct) auto

interpretation asio_ref: asio_laws asio_ref
proof (unfold_locales, goal_cases)
  case (1 s a)
  then show ?case
    by (auto simp: asio_ref_def v4_ref_def v6_ref_def split: option.splits list.splits if_splits)
next
  case (2 s b)
  then show ?case by (auto simp: asio_ref_def v6_ref_def split: option.splits if_splits)
next
  case (3 b)
  then have "groups_of b \<noteq> []" by (cases b rule: groups_of.cases) auto
  with 3 show ?case
    by (simp add: asio_ref_def v6_ref_def split_ref_of_join groups_of_chars hex_groups_of)
next
  case (4 b)
  then show ?case by (auto simp: asio_ref_def dest!: set_join dest: groups_of_chars)
next
  case (5 c b)
  then show ?case using set_join [of c "CHR '':''" "groups_of b"] groups_of_chars
    by (auto simp: asio_ref_def is_space_def)
qed

lemmas asio_ref_laws = asio_ref.asio_laws_axioms

end
