(* ===== verification/Address.thy ===== *)
theory Address
  imports Asio_Ip Big_Endian
begin

text \<open>
  Model of \<^verbatim>\<open>transport/address.cpp\<close>: the class \<^verbatim>\<open>Address\<close> as a record, its factories, the textual and
  binary parsers and printers, and name resolution with the resolver as a parameter. The binary
  form is what NEW and UDP_DATA frames carry; the lemmas show that it and the textual form are
  read back, and that everything the binary parser accepts is a well-formed address.
\<close>

datatype addr_type = IPv4 | IPv6 | Domain

fun type_code :: "addr_type \<Rightarrow> u8" where
  "type_code IPv4 = 1"
| "type_code IPv6 = 2"
| "type_code Domain = 3"

record address =
  addr_type :: addr_type
  addr_bytes :: bytes
  addr_domain :: string
  addr_port :: u16

definition no_address :: address where
  "no_address = \<lparr>addr_type = Domain, addr_bytes = replicate 16 0, addr_domain = [], addr_port = 0\<rparr>"

section \<open>Operations\<close>

fun parse_octets :: "absl \<Rightarrow> string list \<Rightarrow> bytes option" where
  "parse_octets L [] = Some []"
| "parse_octets L (p # ps) =
     (case SimpleAtoi32 L p of
        None \<Rightarrow> None
      | Some v \<Rightarrow>
          if v < 0 \<or> v > 255 then None
          else map_option ((#) (word_of_int v)) (parse_octets L ps))"

definition parseIPv4 :: "absl \<Rightarrow> string \<Rightarrow> bytes option" where
  "parseIPv4 L s =
     (let parts = StrSplit L s CHR ''.'' in
      if length parts \<noteq> 4 then None else parse_octets L parts)"

definition parseIPv6 :: "asio_ip \<Rightarrow> string \<Rightarrow> bytes option" where
  "parseIPv6 I s = make_address_v6 I s"

definition fromIPv4 :: "bytes \<Rightarrow> u16 \<Rightarrow> address" where
  "fromIPv4 b port =
     no_address\<lparr>addr_type := IPv4,
                addr_bytes := b @ drop (length b) (addr_bytes no_address),
                addr_port := port\<rparr>"

definition fromIPv6 :: "bytes \<Rightarrow> u16 \<Rightarrow> address" where
  "fromIPv6 b port = no_address\<lparr>addr_type := IPv6, addr_bytes := b, addr_port := port\<rparr>"

definition fromDomain :: "string \<Rightarrow> u16 \<Rightarrow> address" where
  "fromDomain d port = no_address\<lparr>addr_type := Domain, addr_domain := d, addr_port := port\<rparr>"

definition parsePort :: "absl \<Rightarrow> string \<Rightarrow> u16 result" where
  "parsePort L port_s =
     (case SimpleAtoi32 L port_s of
        None \<Rightarrow> Inl (InvalidArgumentError ''bad port'')
      | Some port \<Rightarrow>
          if port \<le> 0 \<or> port > 65535 then Inl (InvalidArgumentError ''bad port'')
          else Inr (word_of_int port))"

definition parseHostPort :: "absl \<Rightarrow> asio_ip \<Rightarrow> string \<Rightarrow> address result" where
  "parseHostPort L I s =
     (if s = [] then Inl (InvalidArgumentError ''empty address'')
      else if s ! 0 = CHR ''['' then
        (case find_char CHR '']'' s of
           None \<Rightarrow> Inl (InvalidArgumentError ''missing ]'')
         | Some rb \<Rightarrow>
             let host = take (rb - 1) (drop 1 s) in
             if rb + 1 \<ge> length s \<or> s ! (rb + 1) \<noteq> CHR '':'' then
               Inl (InvalidArgumentError ''missing :port'')
             else rbind (parsePort L (drop (rb + 2) s)) (\<lambda>port.
               case parseIPv6 I host of
                 None \<Rightarrow> Inl (InvalidArgumentError ''bad ipv6'')
               | Some b \<Rightarrow> Inr (fromIPv6 b port)))
      else
        (case rfind_char CHR '':'' s of
           None \<Rightarrow> Inl (InvalidArgumentError ''missing :port'')
         | Some colon \<Rightarrow>
             let host = take colon s in
             rbind (parsePort L (drop (colon + 1) s)) (\<lambda>port.
               case parseIPv4 L host of
                 Some v4 \<Rightarrow> Inr (fromIPv4 v4 port)
               | None \<Rightarrow> Inr (fromDomain host port))))"

definition parseBinary :: "string \<Rightarrow> address result" where
  "parseBinary blob =
     (if length blob < 4 then Inl (InvalidArgumentError ''addr blob too short'')
      else
        let t = u8_of (blob ! 0); len = unat (u8_of (blob ! 1)) in
        if length blob < 2 + len + 2 then Inl (InvalidArgumentError ''addr blob truncated'')
        else
          let port = push_bit 8 (ucast (u8_of (blob ! (2 + len)))) OR
                     ucast (u8_of (blob ! (2 + len + 1)))
          in
          if t = type_code IPv4 then
            if len \<noteq> 4 then Inl (InvalidArgumentError ''bad ipv4 len'')
            else Inr (fromIPv4 (as_bytes (take 4 (drop 2 blob))) port)
          else if t = type_code IPv6 then
            if len \<noteq> 16 then Inl (InvalidArgumentError ''bad ipv6 len'')
            else Inr (fromIPv6 (as_bytes (take 16 (drop 2 blob))) port)
          else if t = type_code Domain then
            if len = 0 then Inl (InvalidArgumentError ''empty domain'')
            else Inr (fromDomain (take len (drop 2 blob)) port)
          else Inl (InvalidArgumentError ''unknown addr type''))"

definition toBinary :: "address \<Rightarrow> string" where
  "toBinary a =
     (let len = (case addr_type a of
                   IPv4 \<Rightarrow> 4 | IPv6 \<Rightarrow> 16 | Domain \<Rightarrow> min (length (addr_domain a)) 255);
          p = (case addr_type a of
                 IPv4 \<Rightarrow> as_string (addr_bytes a)
               | IPv6 \<Rightarrow> as_string (addr_bytes a)
               | Domain \<Rightarrow> addr_domain a)
      in [chr_of (type_code (addr_type a)), chr_of (of_nat len)] @ take len p @
         [chr_of (ucast (drop_bit 8 (addr_port a) AND 0xff)), chr_of (ucast (addr_port a AND 0xff))])"

definition toString :: "absl \<Rightarrow> asio_ip \<Rightarrow> address \<Rightarrow> string" where
  "toString L I a =
     (case addr_type a of
        IPv4 \<Rightarrow>
          StrNum L (unat (addr_bytes a ! 0)) @ ''.'' @ StrNum L (unat (addr_bytes a ! 1)) @ ''.'' @
          StrNum L (unat (addr_bytes a ! 2)) @ ''.'' @ StrNum L (unat (addr_bytes a ! 3)) @
          '':'' @ StrNum L (unat (addr_port a))
      | IPv6 \<Rightarrow>
          ''['' @ v6_to_string I (addr_bytes a) @ '']:'' @ StrNum L (unat (addr_port a))
      | Domain \<Rightarrow> addr_domain a @ '':'' @ StrNum L (unat (addr_port a)))"

definition isIP :: "address \<Rightarrow> bool" where
  "isIP a \<longleftrightarrow> addr_type a \<noteq> Domain"

definition isDomain :: "address \<Rightarrow> bool" where
  "isDomain a \<longleftrightarrow> addr_type a = Domain"

text \<open>\<^verbatim>\<open>resolveOne\<close>: the asynchronous resolver is the parameter \<open>resolve\<close>, from host and service to an
  error message or the endpoints found.\<close>

record endpoint =
  ep_addr :: ip_address
  ep_port :: u16

definition resolveOne ::
  "(string \<Rightarrow> string \<Rightarrow> string + endpoint list) \<Rightarrow> address \<Rightarrow> endpoint result"
where
  "resolveOne resolve a =
     (if addr_type a = IPv4 then
        Inr \<lparr>ep_addr = IpV4 (take 4 (addr_bytes a)), ep_port = addr_port a\<rparr>
      else if addr_type a = IPv6 then
        Inr \<lparr>ep_addr = IpV6 (take 16 (addr_bytes a)), ep_port = addr_port a\<rparr>
      else
        (case resolve (addr_domain a) (dec (unat (addr_port a))) of
           Inl msg \<Rightarrow> Inl (UnavailableError (''resolve failed: '' @ msg))
         | Inr [] \<Rightarrow> Inl (NotFoundError ''no endpoints'')
         | Inr (e # es) \<Rightarrow> Inr e))"

section \<open>Well-formed addresses\<close>

text \<open>The values the factories build from arrays of the right size, with a name that fits the one
  byte length of the binary form.\<close>

definition wf_address :: "address \<Rightarrow> bool" where
  "wf_address a \<longleftrightarrow> length (addr_bytes a) = 16 \<and>
     (case addr_type a of
        IPv4 \<Rightarrow> a = fromIPv4 (take 4 (addr_bytes a)) (addr_port a)
      | IPv6 \<Rightarrow> a = fromIPv6 (addr_bytes a) (addr_port a)
      | Domain \<Rightarrow> a = fromDomain (addr_domain a) (addr_port a)
                 \<and> 0 < length (addr_domain a) \<and> length (addr_domain a) \<le> 255)"

lemmas factory_defs = fromIPv4_def fromIPv6_def fromDomain_def no_address_def

lemma factory_simps [simp]:
  "addr_type (fromIPv4 b p) = IPv4" "addr_type (fromIPv6 b p) = IPv6" "addr_type (fromDomain d p) = Domain"
  "addr_port (fromIPv4 b p) = p" "addr_port (fromIPv6 b p) = p" "addr_port (fromDomain d p) = p"
  "addr_bytes (fromIPv6 b p) = b" "addr_domain (fromDomain d p) = d"
  "length b = 4 \<Longrightarrow> take 4 (addr_bytes (fromIPv4 b p)) = b"
  "length b = 4 \<Longrightarrow> length (addr_bytes (fromIPv4 b p)) = 16"
  "length (addr_bytes (fromDomain d p)) = 16"
  by (simp_all add: factory_defs)

lemma wf_from [simp]:
  "length b = 4 \<Longrightarrow> wf_address (fromIPv4 b p)"
  "length b = 16 \<Longrightarrow> wf_address (fromIPv6 b p)"
  "0 < length d \<Longrightarrow> length d \<le> 255 \<Longrightarrow> wf_address (fromDomain d p)"
  by (simp_all add: wf_address_def)

lemma wf_cases:
  assumes "wf_address a"
  obtains (v4) b p where "length b = 4" "a = fromIPv4 b p"
    | (v6) b p where "length b = 16" "a = fromIPv6 b p"
    | (name) d p where "0 < length d" "length d \<le> 255" "a = fromDomain d p"
proof (cases "addr_type a")
  case IPv4
  with assms have "length (take 4 (addr_bytes a)) = 4"
    "a = fromIPv4 (take 4 (addr_bytes a)) (addr_port a)" by (simp_all add: wf_address_def)
  then show thesis by (rule v4)
next
  case IPv6
  with assms have "length (addr_bytes a) = 16" "a = fromIPv6 (addr_bytes a) (addr_port a)"
    by (simp_all add: wf_address_def)
  then show thesis by (rule v6)
next
  case Domain
  with assms have "0 < length (addr_domain a)" "length (addr_domain a) \<le> 255"
    "a = fromDomain (addr_domain a) (addr_port a)" by (simp_all add: wf_address_def)
  then show thesis by (rule name)
qed

section \<open>The binary form\<close>

definition port_hi :: "u16 \<Rightarrow> char" where
  "port_hi p = chr_of (ucast (drop_bit 8 p AND 0xff))"

definition port_lo :: "u16 \<Rightarrow> char" where
  "port_lo p = chr_of (ucast (p AND 0xff))"

definition port_of :: "char \<Rightarrow> char \<Rightarrow> u16" where
  "port_of h l = push_bit 8 (ucast (u8_of h)) OR ucast (u8_of l)"

lemma port_of_bytes: "port_of (port_hi p) (port_lo p) = p"
  using be16_bytes [of p] by (simp add: port_of_def port_hi_def port_lo_def be_push_def)

lemma port_bytes_of: "port_hi (port_of h l) = h" "port_lo (port_of h l) = l"
  using be16_high [of "u8_of h" "u8_of l"] be16_low [of "u8_of h" "u8_of l"]
  by (simp_all add: port_hi_def port_lo_def port_of_def be_push_def)

text \<open>The parser's view of a blob: type, counted bytes and port.\<close>

lemma parseBinary_parts:
  assumes "length body = len" "len < 256" "2 \<le> len + n" "n = length rest + 2"
  shows "parseBinary (chr_of t # chr_of (of_nat len) # body @ port_hi p # port_lo p # rest) =
    (if t = 1 then
       if len \<noteq> 4 then Inl (InvalidArgumentError ''bad ipv4 len'')
       else Inr (fromIPv4 (as_bytes body) p)
     else if t = 2 then
       if len \<noteq> 16 then Inl (InvalidArgumentError ''bad ipv6 len'')
       else Inr (fromIPv6 (as_bytes body) p)
     else if t = 3 then
       if len = 0 then Inl (InvalidArgumentError ''empty domain'')
       else Inr (fromDomain body p)
     else Inl (InvalidArgumentError ''unknown addr type''))"
proof -
  have len: "unat (of_nat len :: u8) = len"
    using assms(2) by (simp add: unat_of_nat)
  have nths: "(body @ port_hi p # port_lo p # rest) ! len = port_hi p"
    "(body @ port_hi p # port_lo p # rest) ! Suc len = port_lo p"
    using assms(1) by (simp_all add: nth_append)
  show ?thesis
    using assms len nths port_of_bytes [of p]
    by (simp add: parseBinary_def Let_def port_of_def numeral_2_eq_2)
qed

lemma toBinary_parts:
  assumes "wf_address a"
  shows "\<exists>body. toBinary a =
     chr_of (type_code (addr_type a)) # chr_of (of_nat (length body)) # body @
       [port_hi (addr_port a), port_lo (addr_port a)]
   \<and> length body < 256
   \<and> (case addr_type a of
        IPv4 \<Rightarrow> length body = 4 \<and> a = fromIPv4 (as_bytes body) (addr_port a)
      | IPv6 \<Rightarrow> length body = 16 \<and> a = fromIPv6 (as_bytes body) (addr_port a)
      | Domain \<Rightarrow> 0 < length body \<and> a = fromDomain body (addr_port a))"
  using assms
proof (cases a rule: wf_cases)
  case (v4 b p)
  then show ?thesis
    by (intro exI [of _ "as_string b"])
       (simp add: toBinary_def port_hi_def port_lo_def fromIPv4_def no_address_def)
next
  case (v6 b p)
  then show ?thesis
    by (intro exI [of _ "as_string b"]) (simp add: toBinary_def port_hi_def port_lo_def)
next
  case (name d p)
  then show ?thesis
    by (intro exI [of _ d]) (simp add: toBinary_def port_hi_def port_lo_def)
qed

lemma parseBinary_toBinary: 
  assumes "wf_address a"
  shows "parseBinary (toBinary a @ rest) = Inr a"
proof -
  from toBinary_parts [OF assms] obtain body where bin: "toBinary a =
     chr_of (type_code (addr_type a)) # chr_of (of_nat (length body)) # body @
       [port_hi (addr_port a), port_lo (addr_port a)]" and len: "length body < 256"
    and sem: "(case addr_type a of
        IPv4 \<Rightarrow> length body = 4 \<and> a = fromIPv4 (as_bytes body) (addr_port a)
      | IPv6 \<Rightarrow> length body = 16 \<and> a = fromIPv6 (as_bytes body) (addr_port a)
      | Domain \<Rightarrow> 0 < length body \<and> a = fromDomain body (addr_port a))" by blast
  have "parseBinary (toBinary a @ rest) = parseBinary (chr_of (type_code (addr_type a)) #
     chr_of (of_nat (length body)) # body @ port_hi (addr_port a) # port_lo (addr_port a) # rest)"
    by (simp add: bin)
  also have "\<dots> = Inr a"
    using sem by (subst parseBinary_parts [OF refl len _ refl]) (auto split: addr_type.splits)
  finally show ?thesis .
qed

lemma blob_parts:
  assumes "4 \<le> length blob" "2 + unat (u8_of (blob ! 1)) + 2 \<le> length blob"
  shows "\<exists>t body p rest. blob =
    chr_of t # chr_of (of_nat (length body)) # body @ port_hi p # port_lo p # rest
    \<and> length body < 256"
proof -
  obtain b0 b1 r where blob: "blob = b0 # b1 # r"
    using assms(1) by (cases blob; cases "tl blob") auto
  define n where "n = unat (u8_of b1)"
  have n: "n < 256" "n + 2 \<le> length r" using assms(2) blob unat_u8 by (auto simp: n_def)
  then obtain h l rest where r: "drop n r = h # l # rest"
    by (cases "drop n r"; cases "tl (drop n r)") (auto simp: drop_eq_Nil dest: arg_cong [of _ _ length])
  have body: "length (take n r) = n" using n by simp
  have "blob = chr_of (u8_of b0) # chr_of (of_nat (length (take n r))) # take n r @
      port_hi (port_of h l) # port_lo (port_of h l) # rest"
    using append_take_drop_id [of n r] r body
    by (simp add: blob port_bytes_of n_def [symmetric]) (simp add: n_def)
  with body n show ?thesis by metis
qed

lemma parseBinary_sound:
  assumes "parseBinary blob = Inr a"
  shows "wf_address a \<and> prefix (toBinary a) blob"
proof -
  have "4 \<le> length blob" "2 + unat (u8_of (blob ! 1)) + 2 \<le> length blob"
    using assms by (auto simp: parseBinary_def Let_def split: if_splits)
  from blob_parts [OF this] obtain t body p rest where
    blob: "blob = chr_of t # chr_of (of_nat (length body)) # body @ port_hi p # port_lo p # rest"
    and len: "length body < 256" by blast
  from assms [unfolded blob parseBinary_parts [OF refl len _ refl, simplified]] len show ?thesis
    by (auto simp: blob toBinary_def port_hi_def port_lo_def factory_defs wf_address_def
          split: if_splits)
qed

text \<open>C35. The binary form of addresses: a blob is accepted exactly when it starts with the serialised
  form of a well-formed address (four or sixteen bytes, or a name of 1 to 255 bytes), and the
  result is that address. So serialising and parsing are inverse to each other, whatever follows
  the address is ignored, and no other blob is accepted.\<close>

theorem address_binary_form:
  "parseBinary blob = Inr a \<longleftrightarrow> wf_address a \<and> (\<exists>rest. blob = toBinary a @ rest)"
proof
  assume "parseBinary blob = Inr a"
  from parseBinary_sound [OF this] show "wf_address a \<and> (\<exists>rest. blob = toBinary a @ rest)"
    by (auto simp: prefix_def)
qed (use parseBinary_toBinary in blast)

section \<open>The textual form\<close>

lemma find_char_append: "c \<notin> set p \<Longrightarrow> find_char c (p @ c # r) = Some (length p)"
proof -
  assume "c \<notin> set p"
  then have "takeWhile (\<lambda>x. x \<noteq> c) (p @ c # r) = p" by (induction p) auto
  then show ?thesis by (simp add: find_char_def)
qed

lemma rfind_char_append: "c \<notin> set r \<Longrightarrow> rfind_char c (p @ c # r) = Some (length p)"
  using find_char_append [of c "rev r" "rev p"] by (simp add: rfind_char_def)

context absl_laws
begin

lemma parsePort_print: "p \<noteq> 0 \<Longrightarrow> parsePort L (StrNum L (unat p)) = Inr p"
proof -
  assume p: "p \<noteq> 0"
  have "unat p < 2 ^ 16" "uint p < 2 ^ 16"
    using unsigned_less [of p, where 'a = nat] unsigned_less [of p, where 'a = int] by simp_all
  with p atoi32_dec [of "unat p"] show ?thesis
    by (simp add: parsePort_def strnum unsigned_eq_0_iff)
qed

lemma parse_octets_print: "parse_octets L (map (\<lambda>b. StrNum L (unat b)) bs) = Some bs"
proof (induction bs)
  case (Cons b bs)
  have "unat b < 256" "uint b < 256"
    using unat_u8 [of b] unsigned_less [of b, where 'a = int] by simp_all
  with Cons atoi32_dec [of "unat b"] show ?case by (simp add: strnum)
qed simp

lemma parseIPv4_print:
  "length bs = 4 \<Longrightarrow> parseIPv4 L (join CHR ''.'' (map (\<lambda>b. StrNum L (unat b)) bs)) = Some bs"
proof -
  assume len: "length bs = 4"
  have "CHR ''.'' \<notin> set (StrNum L n)" for n
    by (simp add: strnum not_digit_notin_dec is_digit_def)
  then have "StrSplit L (join CHR ''.'' (map (\<lambda>b. StrNum L (unat b)) bs)) CHR ''.''
      = map (\<lambda>b. StrNum L (unat b)) bs"
    using len by (intro split_of_join) auto
  with len parse_octets_print show ?thesis by (simp add: parseIPv4_def)
qed

lemma parse_octets_length: "parse_octets L ps = Some bs \<Longrightarrow> length bs = length ps"
  by (induction ps arbitrary: bs) (auto split: option.splits if_splits)

lemma parseIPv4_length: "parseIPv4 L s = Some bs \<Longrightarrow> length bs = 4"
  by (auto simp: parseIPv4_def Let_def dest: parse_octets_length split: if_splits)

lemma no_colon_in_port: "CHR '':'' \<notin> set (StrNum L n)"
  by (simp add: strnum not_digit_notin_dec is_digit_def)

lemma parseHostPort_colon:
  assumes "h = [] \<or> h ! 0 \<noteq> CHR ''[''" and "p \<noteq> 0"
  shows "parseHostPort L I (h @ '':'' @ StrNum L (unat p)) =
    (case parseIPv4 L h of Some v4 \<Rightarrow> Inr (fromIPv4 v4 p) | None \<Rightarrow> Inr (fromDomain h p))"
proof -
  let ?s = "h @ CHR '':'' # StrNum L (unat p)"
  have "?s ! 0 \<noteq> CHR ''[''" using assms(1) by (cases h) auto
  moreover have "rfind_char CHR '':'' ?s = Some (length h)"
    using no_colon_in_port by (rule rfind_char_append)
  ultimately show ?thesis
    by (simp add: parseHostPort_def parsePort_print [OF assms(2)] split: option.split)
qed

end

lemma is_digit_bracket: "\<not> is_digit CHR ''[''"
  by (simp add: is_digit_def)

lemma toString_v4:
  "length b = 4 \<Longrightarrow> toString L I (fromIPv4 b p) =
     join CHR ''.'' (map (\<lambda>x. StrNum L (unat x)) b) @ '':'' @ StrNum L (unat p)"
proof -
  assume "length b = 4"
  then obtain x0 x1 x2 x3 where "b = [x0, x1, x2, x3]"
    by (auto simp: numeral_eq_Suc length_Suc_conv)
  then show ?thesis by (simp add: toString_def fromIPv4_def no_address_def)
qed

lemma text_roundtrip:
  assumes "absl_laws L" and "asio_laws I" and "wf_address a" and "addr_port a \<noteq> 0"
    and "isDomain a \<Longrightarrow> parseIPv4 L (addr_domain a) = None \<and> hd (addr_domain a) \<noteq> CHR ''[''"
  shows "parseHostPort L I (toString L I a) = Inr a"
  using assms(3)
proof (cases a rule: wf_cases)
  case (v4 b p)
  let ?h = "join CHR ''.'' (map (\<lambda>x. StrNum L (unat x)) b)"
  have "is_digit (hd (dec n))" for n by (intro dec_digits [of _ n] list.set_sel) simp
  then have "hd (dec n) \<noteq> CHR ''[''" for n by (metis is_digit_bracket)
  moreover obtain x0 x1 x2 x3 where "b = [x0, x1, x2, x3]"
    using v4(1) by (auto simp: numeral_eq_Suc length_Suc_conv)
  ultimately have "?h ! 0 \<noteq> CHR ''[''"
    by (simp add: absl_laws.strnum [OF assms(1)] nth_append hd_conv_nth [symmetric])
  then show ?thesis
    using v4 assms(4) absl_laws.parseHostPort_colon [OF assms(1), of ?h p I]
      absl_laws.parseIPv4_print [OF assms(1) v4(1)]
    by (simp add: toString_v4)
next
  case (v6 b p)
  let ?v = "CHR ''['' # v6_to_string I b"
  have "find_char CHR '']'' (?v @ CHR '']'' # '':'' @ StrNum L (unat p)) = Some (length ?v)"
    using asio_laws.v6_print_chars [OF assms(2)] by (intro find_char_append) simp
  then show ?thesis
    using v6 assms(4) absl_laws.parsePort_print [OF assms(1), of p]
      asio_laws.v6_print_parse [OF assms(2) v6(1)]
    by (simp add: toString_def parseHostPort_def parseIPv6_def nth_append)
next
  case (name d p)
  then have "d ! 0 \<noteq> CHR ''[''" "parseIPv4 L d = None"
    using assms(5) by (simp_all add: isDomain_def hd_conv_nth)
  with name assms(4) absl_laws.parseHostPort_colon [OF assms(1), of d p I] show ?thesis
    by (simp add: toString_def)
qed

lemma dec_no_space: "c \<in> set (dec n) \<Longrightarrow> \<not> is_space c"
  using dec_digits [of c n] by (auto simp: is_space_def is_digit_def)

lemma toString_no_space:
  assumes "absl_laws L" and "asio_laws I" and "isDomain a \<Longrightarrow> \<forall>c \<in> set (addr_domain a). \<not> is_space c"
    and "c \<in> set (toString L I a)"
  shows "\<not> is_space c"
  using assms(3,4) dec_no_space asio_laws.v6_print_spaces [OF assms(2)]
  by (cases "addr_type a")
     (auto simp: toString_def absl_laws.strnum [OF assms(1)] isDomain_def is_space_def)



end
