(* ===== verification/Channel.thy ===== *)
theory Channel
  imports Address
begin

text \<open>
  The interface of \<^verbatim>\<open>asio::experimental::concurrent_channel\<close>, the bounded queue that connects the
  coroutines of a link and its sessions. Boost is not part of the repository: the operations are
  the fields of the record \<open>chan_api\<close>, over an abstract channel type, and the locale \<open>chan_laws\<close>
  states their documented behaviour as a bounded first-in first-out queue. An operation that
  suspends its coroutine returns \<open>None\<close>: it has not happened yet and is tried again. The one
  message type carries what the four kinds of channel of the program carry.
\<close>

datatype msg =
    PayloadMsg string
  | UdpMsg string address
  | SignalMsg
  | WireMsg string

text \<open>Results of an operation that may suspend (\<open>Waiting\<close>) or dereference a null pointer (\<open>Crash\<close>).\<close>

datatype 'a outcome = Done 'a | Waiting | Crash

record 'q chan_api =
  ch_new :: "nat \<Rightarrow> 'q"
  ch_try_send :: "msg \<Rightarrow> 'q \<Rightarrow> 'q"
  ch_send :: "msg \<Rightarrow> 'q \<Rightarrow> 'q option"
  ch_receive :: "'q \<Rightarrow> (msg option \<times> 'q) option"
  ch_close :: "'q \<Rightarrow> 'q"

locale chan_laws =
  fixes C :: "'q chan_api"
    and contents :: "'q \<Rightarrow> msg list"
    and capacity :: "'q \<Rightarrow> nat"
    and closed :: "'q \<Rightarrow> bool"
  assumes new_chan [simp]:
      "contents (ch_new C n) = []" "capacity (ch_new C n) = n" "\<not> closed (ch_new C n)"
    and receive_ready: "\<not> closed q \<Longrightarrow> contents q = m # ms \<Longrightarrow>
      \<exists>q'. ch_receive C q = Some (Some m, q') \<and> contents q' = ms
        \<and> capacity q' = capacity q \<and> \<not> closed q'"
    and receive_wait [simp]: "\<not> closed q \<Longrightarrow> contents q = [] \<Longrightarrow> ch_receive C q = None"
    and receive_closed [simp]: "closed q \<Longrightarrow> contents q = [] \<Longrightarrow> ch_receive C q = Some (None, q)"
    and send_room: "\<not> closed q \<Longrightarrow> length (contents q) < capacity q \<Longrightarrow>
      \<exists>q'. ch_send C m q = Some q' \<and> contents q' = contents q @ [m]
        \<and> capacity q' = capacity q \<and> \<not> closed q'"
    and send_full [simp]: "\<not> closed q \<Longrightarrow> capacity q \<le> length (contents q) \<Longrightarrow> ch_send C m q = None"
    and send_closed [simp]: "closed q \<Longrightarrow> ch_send C m q = Some q"
    and try_send_room: "\<not> closed q \<Longrightarrow> length (contents q) < capacity q \<Longrightarrow>
      contents (ch_try_send C m q) = contents q @ [m]
      \<and> capacity (ch_try_send C m q) = capacity q \<and> \<not> closed (ch_try_send C m q)"
    and try_send_full [simp]:
      "closed q \<or> capacity q \<le> length (contents q) \<Longrightarrow> ch_try_send C m q = q"
    and close_closed [simp]: "closed (ch_close C q)"
begin

lemma receive_SomeD:
  assumes "ch_receive C q = Some (r, q')" "\<not> closed q"
  shows "\<exists>m. r = Some m \<and> contents q = m # contents q' \<and> capacity q' = capacity q \<and> \<not> closed q'"
proof (cases "contents q")
  case Nil
  with assms show ?thesis by simp
next
  case (Cons m ms)
  with receive_ready [OF assms(2) Cons] assms(1) show ?thesis by auto
qed

lemma send_SomeD:
  assumes "ch_send C m q = Some q'" "\<not> closed q"
  shows "contents q' = contents q @ [m] \<and> capacity q' = capacity q \<and> \<not> closed q'
    \<and> length (contents q) < capacity q"
proof (cases "length (contents q) < capacity q")
  case True
  with send_room [OF assms(2) this, of m] assms(1) show ?thesis by auto
next
  case False
  with assms show ?thesis by simp
qed

lemma try_send_cases:
  assumes "\<not> closed q"
  shows "\<not> closed (ch_try_send C m q) \<and> capacity (ch_try_send C m q) = capacity q
    \<and> (contents (ch_try_send C m q) =
         (if length (contents q) < capacity q then contents q @ [m] else contents q))"
  using try_send_room [OF assms, of m] try_send_full [of q m] assms
  by (cases "length (contents q) < capacity q") auto

end

section \<open>An executable instance\<close>

record list_chan =
  lc_items :: "msg list"
  lc_capacity :: nat
  lc_closed :: bool

definition list_chan_api :: "list_chan chan_api" where
  "list_chan_api =
     \<lparr>ch_new = (\<lambda>n. \<lparr>lc_items = [], lc_capacity = n, lc_closed = False\<rparr>),
      ch_try_send = (\<lambda>m q.
        if lc_closed q \<or> lc_capacity q \<le> length (lc_items q) then q
        else q\<lparr>lc_items := lc_items q @ [m]\<rparr>),
      ch_send = (\<lambda>m q.
        if lc_closed q then Some q
        else if lc_capacity q \<le> length (lc_items q) then None
        else Some (q\<lparr>lc_items := lc_items q @ [m]\<rparr>)),
      ch_receive = (\<lambda>q.
        case lc_items q of
          m # ms \<Rightarrow> Some (Some m, q\<lparr>lc_items := ms\<rparr>)
        | [] \<Rightarrow> if lc_closed q then Some (None, q) else None),
      ch_close = (\<lambda>q. q\<lparr>lc_closed := True\<rparr>)\<rparr>"

interpretation list_chan: chan_laws list_chan_api lc_items lc_capacity lc_closed
  by unfold_locales (auto simp: list_chan_api_def)

lemmas list_chan_laws = list_chan.chan_laws_axioms

end
