(* ===== verification/Session.thy ===== *)
theory Session
  imports Shine_Frame Channel
begin

text \<open>
  Model of \<^verbatim>\<open>transport/session.cpp\<close>: a logical stream (or datagram stream) on a link. The class is
  the record \<open>session\<close>; each method is a definition on it. A method sees its link only through
  \<open>link_view\<close> (gone, closed, up) and calls it only through \<open>link_call\<close>, the calls a method makes in
  order; the link's model performs them. Methods that suspend are cut at the suspension points:
  \<open>read\<close>, \<open>receiveFrom\<close> and \<open>onData\<close> suspend before they change anything, and \<open>write\<close> is the step
  function \<open>write_step\<close> over its program counter. 64-bit signed and unsigned counters keep their
  width.
\<close>

datatype session_state = Init | Open | HalfClosedLocal | HalfClosedRemote | Closed

datatype protocol = TCP | UDP

record 'q session =
  sess_sid :: u64
  sess_target :: address
  sess_protocol :: protocol
  our_initial_window :: u32
  send_credit :: int
  recv_unacked :: u32
  sess_state :: session_state
  inbox :: "'q option"
  udp_inbox :: "'q option"
  credit_signal :: "'q option"
  leftover :: "string option"
  leftover_off :: nat
  bytes_in :: u64
  bytes_out :: u64

datatype link_view = LinkGone | LinkClosed | LinkUp

datatype link_call = EnqueueFrame string | EraseSession u64

definition kDefaultInitWindow :: u32 where
  "kDefaultInitWindow = 256 * 1024"

text \<open>\<^verbatim>\<open>i64\<close> arithmetic of the atomic credit counter.\<close>

definition i64 :: "int \<Rightarrow> int" where
  "i64 x = signed_take_bit 63 x"

definition new_session ::
  "'q chan_api \<Rightarrow> u64 \<Rightarrow> address \<Rightarrow> u32 \<Rightarrow> u32 \<Rightarrow> protocol \<Rightarrow> 'q session"
where
  "new_session C sid target peer_initial_window our_window proto =
     \<lparr>sess_sid = sid, sess_target = target, sess_protocol = proto,
      our_initial_window = our_window,
      send_credit = uint peer_initial_window,
      recv_unacked = 0,
      sess_state = Open,
      inbox = (if proto = TCP then Some (ch_new C 1024) else None),
      udp_inbox = (if proto = TCP then None else Some (ch_new C 1024)),
      credit_signal = (if proto = TCP then Some (ch_new C 1) else None),
      leftover = None, leftover_off = 0, bytes_in = 0, bytes_out = 0\<rparr>"

section \<open>Reading\<close>

definition maybeSendWindow ::
  "absl \<Rightarrow> link_view \<Rightarrow> 'q session \<Rightarrow> 'q session \<times> link_call list"
where
  "maybeSendWindow L lk s =
     (if lk = LinkUp then
        let threshold = our_initial_window s div 2; cur = recv_unacked s in
        if threshold \<le> cur then
          (s\<lparr>recv_unacked := 0\<rparr>, [EnqueueFrame (encodeWindow L [] (sess_sid s) cur)])
        else (s, [])
      else (s, []))"

text \<open>The tail shared by both branches of \<^verbatim>\<open>read\<close>: account for the bytes handed out.\<close>

definition read_account ::
  "absl \<Rightarrow> link_view \<Rightarrow> bytes \<Rightarrow> 'q session \<Rightarrow> (bytes \<times> 'q session \<times> link_call list) outcome"
where
  "read_account L lk data s =
     (let n = length data;
          s = s\<lparr>bytes_in := bytes_in s + of_nat n, recv_unacked := recv_unacked s + of_nat n\<rparr>;
          (s, calls) = maybeSendWindow L lk s
      in Done (data, s, calls))"

text \<open>The rest of \<^verbatim>\<open>read\<close>, when no leftover is pending. A null payload is never sent to the channel.\<close>

definition read_inbox ::
  "'q chan_api \<Rightarrow> absl \<Rightarrow> link_view \<Rightarrow> nat \<Rightarrow> 'q session
   \<Rightarrow> (bytes \<times> 'q session \<times> link_call list) outcome"
where
  "read_inbox C L lk buf_size s =
     (if sess_state s = Closed \<or> sess_state s = HalfClosedRemote then Done ([], s, [])
      else
        case inbox s of
          None \<Rightarrow> Crash
        | Some q \<Rightarrow>
            (case ch_receive C q of
               None \<Rightarrow> Waiting
             | Some (Some (PayloadMsg pay), q') \<Rightarrow>
                 let n = min buf_size (length pay);
                     data = as_bytes (take n pay);
                     s = s\<lparr>inbox := Some q'\<rparr>;
                     s = (if n < length pay then s\<lparr>leftover := Some pay, leftover_off := n\<rparr> else s)
                 in read_account L lk data s
             | Some (_, q') \<Rightarrow> Done ([], s\<lparr>inbox := Some q'\<rparr>, [])))"

definition session_read ::
  "'q chan_api \<Rightarrow> absl \<Rightarrow> link_view \<Rightarrow> nat \<Rightarrow> 'q session
   \<Rightarrow> (bytes \<times> 'q session \<times> link_call list) outcome"
where
  "session_read C L lk buf_size s =
     (case leftover s of
        Some left \<Rightarrow>
          if leftover_off s < length left then
            let n = min buf_size (length left - leftover_off s);
                data = as_bytes (take n (drop (leftover_off s) left));
                off = leftover_off s + n;
                s = (if off \<ge> length left then s\<lparr>leftover := None, leftover_off := 0\<rparr>
                     else s\<lparr>leftover_off := off\<rparr>)
            in read_account L lk data s
          else read_inbox C L lk buf_size s
      | None \<Rightarrow> read_inbox C L lk buf_size s)"

section \<open>Writing\<close>

text \<open>Where a suspended \<^verbatim>\<open>write\<close> is: at the credit test, or waiting for the credit signal.\<close>

datatype write_pc = AtCheck | AwaitCredit

datatype 'q write_result =
    WriteWaiting
  | WriteReturn "unit result"
  | WriteStep write_pc bytes "'q session" "link_call list"
  | WriteCrash

definition write_begin :: "link_view \<Rightarrow> 'q session \<Rightarrow> unit result" where
  "write_begin lk s =
     (if lk \<noteq> LinkUp then Inl (UnavailableError ''link closed'')
      else if sess_state s = Closed \<or> sess_state s = HalfClosedLocal then
        Inl (FailedPreconditionError ''session write side closed'')
      else Inr ())"

text \<open>One step of the loops of \<^verbatim>\<open>write\<close>, with the bytes still to send. \<open>max_data_frame\<close> is the link's
  option.\<close>

definition write_step ::
  "'q chan_api \<Rightarrow> absl \<Rightarrow> nat \<Rightarrow> link_view \<Rightarrow> write_pc \<Rightarrow> bytes \<Rightarrow> 'q session \<Rightarrow> 'q write_result"
where
  "write_step C L max_data_frame lk pc data s =
     (case pc of
        AwaitCredit \<Rightarrow>
          (case credit_signal s of
             None \<Rightarrow> WriteCrash
           | Some q \<Rightarrow>
               (case ch_receive C q of
                  None \<Rightarrow> WriteWaiting
                | Some (_, q') \<Rightarrow>
                    if lk \<noteq> LinkUp then WriteReturn (Inl (UnavailableError ''link closed''))
                    else WriteStep AtCheck data (s\<lparr>credit_signal := Some q'\<rparr>) []))
      | AtCheck \<Rightarrow>
          if length data = 0 then WriteReturn (Inr ())
          else if send_credit s \<le> 0 then WriteStep AwaitCredit data s []
          else
            let chunk = min (min (length data) max_data_frame) (nat (send_credit s)) in
            if chunk = 0 then WriteStep AtCheck data s []
            else
              let wire = encodeData L [] (sess_sid s) (take chunk data);
                  s = s\<lparr>send_credit := i64 (send_credit s - int chunk),
                         bytes_out := bytes_out s + of_nat chunk\<rparr>
              in WriteStep AtCheck (drop chunk data) s [EnqueueFrame wire])"

section \<open>Closing\<close>

definition close_chan :: "'q chan_api \<Rightarrow> 'q option \<Rightarrow> 'q option" where
  "close_chan C q = map_option (ch_close C) q"

definition shutdownWrite :: "absl \<Rightarrow> link_view \<Rightarrow> 'q session \<Rightarrow> 'q session \<times> link_call list" where
  "shutdownWrite L lk s =
     (if lk \<noteq> LinkUp then (s, [])
      else
        let wire = encodeClose L [] (sess_sid s) [] in
        if sess_state s = Open then (s\<lparr>sess_state := HalfClosedLocal\<rparr>, [EnqueueFrame wire])
        else if sess_state s = HalfClosedRemote then
          (s\<lparr>sess_state := Closed\<rparr>, [EraseSession (sess_sid s), EnqueueFrame wire])
        else (s, []))"

definition session_close ::
  "'q chan_api \<Rightarrow> absl \<Rightarrow> link_view \<Rightarrow> 'q session \<Rightarrow> 'q session \<times> link_call list"
where
  "session_close C L lk s =
     (let (s, calls) =
        (if sess_state s \<noteq> Closed then
           (s\<lparr>sess_state := Closed\<rparr>,
            (case lk of
               LinkGone \<Rightarrow> []
             | LinkClosed \<Rightarrow> [EraseSession (sess_sid s)]
             | LinkUp \<Rightarrow>
                 [EnqueueFrame (encodeClose L [] (sess_sid s) []), EraseSession (sess_sid s)]))
         else (s, []))
      in (s\<lparr>inbox := close_chan C (inbox s), udp_inbox := close_chan C (udp_inbox s),
             credit_signal := close_chan C (credit_signal s)\<rparr>, calls))"

section \<open>Datagrams\<close>

definition sendTo ::
  "absl \<Rightarrow> link_view \<Rightarrow> bytes \<Rightarrow> address \<Rightarrow> 'q session \<Rightarrow> unit result \<times> 'q session \<times> link_call list"
where
  "sendTo L lk data target s =
     (if lk \<noteq> LinkUp then (Inl (UnavailableError ''link closed''), s, [])
      else if sess_state s = Closed \<or> sess_state s = HalfClosedLocal then
        (Inl (FailedPreconditionError ''session write side closed''), s, [])
      else
        (Inr (), s\<lparr>bytes_out := bytes_out s + of_nat (length data)\<rparr>,
         [EnqueueFrame (encodeUdpData L [] (sess_sid s) (toBinary target) (as_string data))]))"

definition receiveFrom ::
  "'q chan_api \<Rightarrow> 'q session \<Rightarrow> ((string \<times> address) result \<times> 'q session) outcome"
where
  "receiveFrom C s =
     (if sess_state s = Closed \<or> sess_state s = HalfClosedRemote then
        Done (Inl (UnavailableError ''session closed''), s)
      else
        case udp_inbox s of
          None \<Rightarrow> Crash
        | Some q \<Rightarrow>
            (case ch_receive C q of
               None \<Rightarrow> Waiting
             | Some (Some (UdpMsg pay addr), q') \<Rightarrow>
                 Done (Inr (pay, addr),
                       s\<lparr>udp_inbox := Some q', bytes_in := bytes_in s + of_nat (length pay)\<rparr>)
             | Some (_, q') \<Rightarrow>
                 Done (Inl (UnavailableError ''session closed''), s\<lparr>udp_inbox := Some q'\<rparr>)))"

section \<open>Calls from the link's reader\<close>

definition onData :: "'q chan_api \<Rightarrow> string \<Rightarrow> 'q session \<Rightarrow> 'q session outcome" where
  "onData C payload s =
     (if payload = [] then Done s
      else
        case inbox s of
          None \<Rightarrow> Done s
        | Some q \<Rightarrow>
            (case ch_send C (PayloadMsg payload) q of
               None \<Rightarrow> Waiting
             | Some q' \<Rightarrow> Done (s\<lparr>inbox := Some q'\<rparr>)))"

definition onUdpData :: "'q chan_api \<Rightarrow> string \<Rightarrow> address \<Rightarrow> 'q session \<Rightarrow> 'q session" where
  "onUdpData C payload addr s =
     (case udp_inbox s of
        None \<Rightarrow> s
      | Some q \<Rightarrow> s\<lparr>udp_inbox := Some (ch_try_send C (UdpMsg payload addr) q)\<rparr>)"

definition onWindow :: "'q chan_api \<Rightarrow> u32 \<Rightarrow> 'q session \<Rightarrow> 'q session" where
  "onWindow C delta s =
     s\<lparr>send_credit := i64 (send_credit s + uint delta),
       credit_signal := map_option (ch_try_send C SignalMsg) (credit_signal s)\<rparr>"

definition onPeerClose :: "'q chan_api \<Rightarrow> 'q session \<Rightarrow> 'q session" where
  "onPeerClose C s =
     s\<lparr>sess_state :=
         (if sess_state s = HalfClosedLocal then Closed
          else if sess_state s = Open then HalfClosedRemote else sess_state s),
       inbox := close_chan C (inbox s), udp_inbox := close_chan C (udp_inbox s)\<rparr>"

definition onReset :: "'q chan_api \<Rightarrow> 'q session \<Rightarrow> 'q session" where
  "onReset C s =
     s\<lparr>sess_state := Closed,
       inbox := close_chan C (inbox s), udp_inbox := close_chan C (udp_inbox s),
       credit_signal := close_chan C (credit_signal s)\<rparr>"

text \<open>Whether \<^verbatim>\<open>read\<close> and \<^verbatim>\<open>receiveFrom\<close> still look into their inbox.\<close>

definition readable :: "'q session \<Rightarrow> bool" where
  "readable s \<longleftrightarrow> sess_state s = Open \<or> sess_state s = HalfClosedLocal"

lemma new_session_fields [simp]:
  "sess_sid (new_session C sid target peer our proto) = sid"
  "sess_state (new_session C sid target peer our proto) = Open"
  by (simp_all add: new_session_def)

section \<open>Steps of write\<close>

lemma i64_id: "- (2 ^ 63) \<le> x \<Longrightarrow> x < 2 ^ 63 \<Longrightarrow> i64 x = x"
  by (simp add: i64_def signed_take_bit_int_eq_self_iff)

lemma write_step_cases [consumes 1, case_names woken block spin send]:
  assumes "write_step C L k lk pc todo a = WriteStep pc' todo' a' calls"
  obtains q r q' where "pc = AwaitCredit" "credit_signal a = Some q" "ch_receive C q = Some (r, q')"
      "lk = LinkUp" "pc' = AtCheck" "todo' = todo" "a' = a\<lparr>credit_signal := Some q'\<rparr>" "calls = []"
    | "pc = AtCheck" "todo \<noteq> []" "send_credit a \<le> 0" "pc' = AwaitCredit" "todo' = todo" "a' = a"
      "calls = []"
    | "pc = AtCheck" "todo \<noteq> []" "0 < send_credit a" "k = 0" "pc' = AtCheck" "todo' = todo" "a' = a"
      "calls = []"
    | n where "pc = AtCheck" "0 < n" "n \<le> length todo" "n \<le> k" "int n \<le> send_credit a"
      "pc' = AtCheck" "todo' = drop n todo"
      "a' = a\<lparr>send_credit := i64 (send_credit a - int n), bytes_out := bytes_out a + of_nat n\<rparr>"
      "calls = [EnqueueFrame (encodeData L [] (sess_sid a) (take n todo))]"
proof (cases pc)
  case AwaitCredit
  with assms obtain q r q' where
    "credit_signal a = Some q" "ch_receive C q = Some (r, q')" "lk = LinkUp"
    "WriteStep AtCheck todo (a\<lparr>credit_signal := Some q'\<rparr>) [] = WriteStep pc' todo' a' calls"
    by (auto simp: write_step_def split: option.splits if_splits prod.splits)
  with AwaitCredit show thesis by (intro that(1)) auto
next
  case AtCheck
  with assms have ne: "todo \<noteq> []" by (auto simp: write_step_def)
  show thesis
  proof (cases "send_credit a \<le> 0")
    case True
    with assms AtCheck ne have "WriteStep AwaitCredit todo a [] = WriteStep pc' todo' a' calls"
      by (simp add: write_step_def)
    with True AtCheck ne show thesis by (intro that(2)) simp_all
  next
    case False
    define n where "n = min (min (length todo) k) (nat (send_credit a))"
    show thesis
    proof (cases "n = 0")
      case True
      with ne False have k: "k = 0" by (auto simp: n_def min_def split: if_splits)
      with assms AtCheck ne False have "WriteStep AtCheck todo a [] = WriteStep pc' todo' a' calls"
        by (simp add: write_step_def)
      with k AtCheck ne False show thesis by (intro that(3)) simp_all
    next
      case nz: False
      have "n \<le> length todo" "n \<le> k" "int n \<le> send_credit a" using False by (auto simp: n_def)
      moreover have "WriteStep AtCheck (drop n todo)
          (a\<lparr>send_credit := i64 (send_credit a - int n), bytes_out := bytes_out a + of_nat n\<rparr>)
          [EnqueueFrame (encodeData L [] (sess_sid a) (take n todo))] = WriteStep pc' todo' a' calls"
        using nz assms AtCheck ne False by (simp add: write_step_def Let_def n_def [symmetric])
      ultimately show thesis using nz AtCheck by (intro that(4) [of n]) simp_all
    qed
  qed
qed

lemma write_check_progress:
  assumes "todo \<noteq> []" "0 < k"
  shows "\<exists>pc todo' a' calls. write_step C L k LinkUp AtCheck todo a = WriteStep pc todo' a' calls"
  using assms by (simp add: write_step_def Let_def)

lemma write_await_progress:
  assumes "credit_signal a = Some q" "ch_receive C q = Some (r, q')"
  shows "write_step C L k LinkUp AwaitCredit todo a
    = WriteStep AtCheck todo (a\<lparr>credit_signal := Some q'\<rparr>) []"
  using assms by (simp add: write_step_def)

section \<open>The life of a session\<close>

text \<open>The specification of closing: each direction is closed once and stays closed.\<close>

record half_closed =
  local_closed :: bool
  remote_closed :: bool

datatype session_event = EvShutdownWrite | EvClose | EvPeerClose | EvReset

fun spec_event :: "session_event \<Rightarrow> half_closed \<Rightarrow> half_closed" where
  "spec_event EvShutdownWrite h = h\<lparr>local_closed := True\<rparr>"
| "spec_event EvClose h = \<lparr>local_closed = True, remote_closed = True\<rparr>"
| "spec_event EvPeerClose h = h\<lparr>remote_closed := True\<rparr>"
| "spec_event EvReset h = \<lparr>local_closed = True, remote_closed = True\<rparr>"

fun abs_state :: "session_state \<Rightarrow> half_closed" where
  "abs_state Init = \<lparr>local_closed = False, remote_closed = False\<rparr>"
| "abs_state Open = \<lparr>local_closed = False, remote_closed = False\<rparr>"
| "abs_state HalfClosedLocal = \<lparr>local_closed = True, remote_closed = False\<rparr>"
| "abs_state HalfClosedRemote = \<lparr>local_closed = False, remote_closed = True\<rparr>"
| "abs_state Closed = \<lparr>local_closed = True, remote_closed = True\<rparr>"

fun apply_event ::
  "'q chan_api \<Rightarrow> absl \<Rightarrow> session_event \<Rightarrow> 'q session \<Rightarrow> 'q session \<times> link_call list"
where
  "apply_event C L EvShutdownWrite s = shutdownWrite L LinkUp s"
| "apply_event C L EvClose s = session_close C L LinkUp s"
| "apply_event C L EvPeerClose s = (onPeerClose C s, [])"
| "apply_event C L EvReset s = (onReset C s, [])"

fun run_events ::
  "'q chan_api \<Rightarrow> absl \<Rightarrow> session_event list \<Rightarrow> 'q session \<Rightarrow> 'q session \<times> link_call list"
where
  "run_events C L [] s = (s, [])"
| "run_events C L (e # es) s =
     (let (s, calls) = apply_event C L e s; (s, calls') = run_events C L es s in (s, calls @ calls'))"

lemma event_refines:
  "sess_state s \<noteq> Init \<Longrightarrow> abs_state (sess_state (fst (apply_event C L e s))) = spec_event e (abs_state (sess_state s))
   \<and> sess_state (fst (apply_event C L e s)) \<noteq> Init"
  by (cases e; cases "sess_state s")
     (simp_all add: shutdownWrite_def session_close_def onPeerClose_def onReset_def Let_def)

lemma run_refines:
  "sess_state s \<noteq> Init \<Longrightarrow>
   abs_state (sess_state (fst (run_events C L es s))) = foldl (\<lambda>h e. spec_event e h) (abs_state (sess_state s)) es"
proof (induction es arbitrary: s)
  case (Cons e es)
  with event_refines [of s C L e] show ?case by (simp add: Let_def split_beta)
qed simp

fun closes :: "link_call list \<Rightarrow> absl \<Rightarrow> u64 \<Rightarrow> nat" where
  "closes [] L sid = 0"
| "closes (c # cs) L sid = (if c = EnqueueFrame (encodeClose L [] sid []) then 1 else 0) + closes cs L sid"

lemma closes_append [simp]: "closes (xs @ ys) L sid = closes xs L sid + closes ys L sid"
  by (induction xs) auto

text \<open>How many CLOSE frames a session may still send.\<close>

definition close_budget :: "session_state \<Rightarrow> nat" where
  "close_budget st =
     (case st of Init \<Rightarrow> 2 | Open \<Rightarrow> 2 | HalfClosedLocal \<Rightarrow> 1 | HalfClosedRemote \<Rightarrow> 1 | Closed \<Rightarrow> 0)"

lemma event_budget:
  "sess_state s \<noteq> Init \<Longrightarrow>
   closes (snd (apply_event C L e s)) L (sess_sid s) + close_budget (sess_state (fst (apply_event C L e s)))
   \<le> close_budget (sess_state s) \<and> sess_sid (fst (apply_event C L e s)) = sess_sid s"
  by (cases e; cases "sess_state s")
     (simp_all add: shutdownWrite_def session_close_def onPeerClose_def onReset_def Let_def
        close_budget_def)

lemma run_budget:
  "sess_state s \<noteq> Init \<Longrightarrow>
   closes (snd (run_events C L es s)) L (sess_sid s) \<le> close_budget (sess_state s)"
proof (induction es arbitrary: s)
  case (Cons e es)
  from event_refines [OF Cons.prems, of C L e] event_budget [OF Cons.prems, of C L e]
    Cons.IH [of "fst (apply_event C L e s)"]
  show ?case by (simp add: Let_def split_beta)
qed simp

text \<open>C32. Closing refines its specification: for a fresh session on a live link and any sequence of
  local half-closes, local closes, CLOSE frames and RESET frames, in any order, the session's
  state says exactly which directions have been closed (Closed when both have), and the session
  sends at most two CLOSE frames in its life.\<close>

theorem session_half_close:
  "abs_state (sess_state (fst (run_events C L es (new_session C sid target peer our proto)))) =
      \<lparr>local_closed = (EvShutdownWrite \<in> set es \<or> EvClose \<in> set es \<or> EvReset \<in> set es),
       remote_closed = (EvPeerClose \<in> set es \<or> EvClose \<in> set es \<or> EvReset \<in> set es)\<rparr>
    \<and> closes (snd (run_events C L es (new_session C sid target peer our proto))) L sid \<le> 2"
proof -
  let ?s = "new_session C sid target peer our proto"
  have fold: "foldl (\<lambda>h e. spec_event e h) h es =
      \<lparr>local_closed = (local_closed h \<or> EvShutdownWrite \<in> set es \<or> EvClose \<in> set es \<or> EvReset \<in> set es),
       remote_closed = (remote_closed h \<or> EvPeerClose \<in> set es \<or> EvClose \<in> set es \<or> EvReset \<in> set es)\<rparr>"
    for h
  proof (induction es arbitrary: h)
    case (Cons e es)
    then show ?case by (cases e) auto
  qed simp
  have open_s: "sess_state ?s = Open" "sess_sid ?s = sid" by (simp_all add: new_session_def)
  then show ?thesis
    using run_refines [of ?s C L es] run_budget [of ?s C L es] fold
    by (simp add: close_budget_def)
qed

section \<open>Two weaknesses\<close>

text \<open>A CLOSE from the peer ends reading at once: payloads that arrived before it and are still in
  the inbox are never handed out, since \<^verbatim>\<open>read\<close> tests the state before it looks at the inbox.\<close>

lemma peer_close_discards:
  assumes "sess_state s = Open" "leftover s = None"
  shows "session_read C L lk n (onPeerClose C s) = Done ([], onPeerClose C s, [])"
  using assms by (simp add: session_read_def read_inbox_def onPeerClose_def)

text \<open>A write that waits for credit when the session is reset spins while the link is up: the closed
  credit channel returns at once, the credit is still missing, and the loop starts again.\<close>

lemma write_spins_after_reset:
  assumes "chan_laws C contents capacity closed"
    and "credit_signal s = Some q" "closed q" "contents q = []" "send_credit s \<le> 0" "data \<noteq> []"
  shows "write_step C L k LinkUp AwaitCredit data s = WriteStep AtCheck data s []
    \<and> write_step C L k LinkUp AtCheck data s = WriteStep AwaitCredit data s []"
proof -
  have "ch_receive C q = Some (None, q)"
    using chan_laws.receive_closed [OF assms(1,3,4)] .
  moreover have "s\<lparr>credit_signal := Some q\<rparr> = s" using assms(2) by simp
  ultimately show ?thesis using assms by (simp add: write_step_def)
qed

end
