(* ===== verification/Link.thy ===== *)
theory Link
  imports Buffer Session
begin

text \<open>
  Model of \<^verbatim>\<open>transport/link.cpp\<close>: one TCP connection that carries many sessions. The class is the
  record \<open>link\<close>. Sessions are shared objects in the code (the table, the handlers and the pipes hold
  pointers to them), so they live in a store and the table maps identifiers to positions in it.
  Every method is a definition; what a method does after its state changes by awaiting (sending a
  frame through the writer channel, starting the handler of a new session) is returned as a list
  of \<open>link_action\<close>s that \<open>perform\<close> carries out in order. The socket, the clock and the random numbers
  are arguments: the bytes a read returns, the time, the number drawn.
\<close>

record link_options =
  opt_peer_label :: string
  opt_password :: string
  opt_init_window :: u32
  opt_ping_interval :: int
  opt_pong_timeout :: int
  opt_handshake_timeout :: int
  opt_max_payload :: nat
  opt_max_data_frame :: nat
  opt_is_server :: bool

definition default_link_options :: link_options where
  "default_link_options =
     \<lparr>opt_peer_label = [], opt_password = [], opt_init_window = kDefaultInitWindow,
      opt_ping_interval = 15, opt_pong_timeout = 10, opt_handshake_timeout = 5,
      opt_max_payload = 512 * 1024 * 1024, opt_max_data_frame = 256 * 1024, opt_is_server = True\<rparr>"

record 'q link =
  lk_opts :: link_options
  lk_read_buf :: read_buffer
  lk_write_chan :: 'q
  lk_sessions :: "(u64 \<times> nat) list"
  lk_store :: "'q session list"
  lk_closed :: bool
  lk_handshake_done :: bool
  lk_handshake_signal :: 'q
  lk_has_handler :: bool
  lk_last_pong_ns :: u64
  lk_pending_ping_nonce :: u64
  lk_last_ping_sent_ns :: u64
  lk_sock_open :: bool

datatype link_action = SendFrame string | SpawnHandler nat address

definition new_link :: "'q chan_api \<Rightarrow> link_options \<Rightarrow> 'q link" where
  "new_link C opts =
     \<lparr>lk_opts = opts, lk_read_buf = new_read_buffer (16 * 1024),
      lk_write_chan = ch_new C 1024, lk_sessions = [], lk_store = [],
      lk_closed = False, lk_handshake_done = False, lk_handshake_signal = ch_new C 1,
      lk_has_handler = False, lk_last_pong_ns = 0, lk_pending_ping_nonce = 0,
      lk_last_ping_sent_ns = 0, lk_sock_open = True\<rparr>"

section \<open>The session table and the writer channel\<close>

definition findSession :: "u64 \<Rightarrow> 'q link \<Rightarrow> nat option" where
  "findSession sid l = map_of (lk_sessions l) sid"

definition eraseSession :: "u64 \<Rightarrow> 'q link \<Rightarrow> 'q link" where
  "eraseSession sid l = l\<lparr>lk_sessions := filter (\<lambda>(k, _). k \<noteq> sid) (lk_sessions l)\<rparr>"

text \<open>\<^verbatim>\<open>sessions_.emplace(sid, s)\<close>: the new object is stored, and entered unless the key is taken.\<close>

definition emplaceSession :: "u64 \<Rightarrow> 'q session \<Rightarrow> 'q link \<Rightarrow> nat \<times> 'q link" where
  "emplaceSession sid s l =
     (let ref = length (lk_store l);
          l = l\<lparr>lk_store := lk_store l @ [s]\<rparr>
      in (ref, if map_of (lk_sessions l) sid = None
               then l\<lparr>lk_sessions := (sid, ref) # lk_sessions l\<rparr> else l))"

definition enqueueFrame :: "'q chan_api \<Rightarrow> string \<Rightarrow> 'q link \<Rightarrow> 'q link option" where
  "enqueueFrame C frame_bytes l =
     (if lk_closed l then Some l
      else map_option (\<lambda>q. l\<lparr>lk_write_chan := q\<rparr>) (ch_send C (WireMsg frame_bytes) (lk_write_chan l)))"

section \<open>Closing\<close>

definition failLink :: "'q chan_api \<Rightarrow> string \<Rightarrow> 'q link \<Rightarrow> 'q link" where
  "failLink C reason l =
     (if lk_closed l then l
      else
        let all = map snd (lk_sessions l);
            l = l\<lparr>lk_closed := True, lk_sock_open := False,
                   lk_write_chan := ch_close C (lk_write_chan l),
                   lk_handshake_signal := ch_close C (lk_handshake_signal l),
                   lk_sessions := []\<rparr>
        in l\<lparr>lk_store := foldl (\<lambda>st ref. st[ref := onReset C (st ! ref)]) (lk_store l) all\<rparr>)"

definition markClosed :: "'q chan_api \<Rightarrow> 'q link \<Rightarrow> 'q link" where
  "markClosed C l =
     l\<lparr>lk_closed := True, lk_sock_open := False, lk_write_chan := ch_close C (lk_write_chan l)\<rparr>"

text \<open>\<^verbatim>\<open>closeNow\<close> sets the flag; the rest is posted to the strand (\<open>closeNow_posted\<close>).\<close>

definition closeNow :: "'q link \<Rightarrow> 'q link \<times> bool" where
  "closeNow l = (if lk_closed l then (l, False) else (l\<lparr>lk_closed := True\<rparr>, True))"

definition closeNow_posted :: "'q chan_api \<Rightarrow> 'q link \<Rightarrow> 'q link" where
  "closeNow_posted C l =
     l\<lparr>lk_sock_open := False, lk_write_chan := ch_close C (lk_write_chan l),
       lk_handshake_signal := ch_close C (lk_handshake_signal l)\<rparr>"

text \<open>\<^verbatim>\<open>gracefulShutdown\<close> before its timer, and after.\<close>

definition shutdown_frames :: "absl \<Rightarrow> 'q link \<Rightarrow> link_action list" where
  "shutdown_frames L l =
     map (\<lambda>ref. SendFrame (encodeClose L [] (sess_sid (lk_store l ! ref)) ''shutdown''))
       (map snd (lk_sessions l))"

definition shutdown_drained :: "'q chan_api \<Rightarrow> 'q link \<Rightarrow> 'q link" where
  "shutdown_drained C l = failLink C ''graceful drain done'' l"

section \<open>Opening a session\<close>

text \<open>The numbers drawn from the generator until one is not zero.\<close>

fun draw_sid :: "u64 list \<Rightarrow> u64 option" where
  "draw_sid [] = None"
| "draw_sid (r # rs) = (if r = 0 then draw_sid rs else Some r)"

definition openSession ::
  "'q chan_api \<Rightarrow> absl \<Rightarrow> u64 \<Rightarrow> address \<Rightarrow> bool \<Rightarrow> 'q link \<Rightarrow> (nat \<times> 'q link \<times> link_action list) result"
where
  "openSession C L sid target is_udp l =
     (if lk_closed l then Inl (UnavailableError ''link closed'')
      else
        let win = opt_init_window (lk_opts l);
            s = new_session C sid target win win (if is_udp then UDP else TCP);
            (ref, l) = emplaceSession sid s l;
            wire = (if is_udp then encodeNewUdp L [] sid
                    else encodeNew L [] sid (toBinary target) win)
        in Inr (ref, l, [SendFrame wire]))"

section \<open>Dispatching a frame\<close>

definition newSession ::
  "'q chan_api \<Rightarrow> absl \<Rightarrow> u64 \<Rightarrow> address \<Rightarrow> u32 \<Rightarrow> protocol \<Rightarrow> 'q link \<Rightarrow> 'q link \<times> link_action list"
where
  "newSession C L sid target win proto l =
     (let s = new_session C sid target win (opt_init_window (lk_opts l)) proto;
          (ref, l) = emplaceSession sid s l
      in (l, [SendFrame (encodeAck L [] sid), SpawnHandler ref target]))"

definition dispatchFrame ::
  "'q chan_api \<Rightarrow> absl \<Rightarrow> u64 \<Rightarrow> shine_frame \<Rightarrow> 'q link \<Rightarrow> ('q link \<times> link_action list) outcome"
where
  "dispatchFrame C L now frame l =
     (case frame of
        DataFrame sid payload \<Rightarrow>
          (case findSession sid l of
             None \<Rightarrow> Done (l, [])
           | Some ref \<Rightarrow>
               (case onData C (as_string payload) (lk_store l ! ref) of
                  Done s \<Rightarrow> Done (l\<lparr>lk_store := (lk_store l)[ref := s]\<rparr>, [])
                | Waiting \<Rightarrow> Waiting
                | Crash \<Rightarrow> Crash))
      | UdpDataFrame sid addr_blob payload \<Rightarrow>
          (case findSession sid l of
             None \<Rightarrow> Done (l, [])
           | Some ref \<Rightarrow>
               (case parseBinary addr_blob of
                  Inl _ \<Rightarrow> Done (l, [])
                | Inr addr \<Rightarrow>
                    Done (l\<lparr>lk_store := (lk_store l)[ref := onUdpData C payload addr (lk_store l ! ref)]\<rparr>, [])))
      | NewFrame sid addr_blob init_window \<Rightarrow>
          if \<not> lk_has_handler l then Done (l, [])
          else
            (case parseBinary addr_blob of
               Inl _ \<Rightarrow> Done (l, [SendFrame (encodeReset L [] sid)])
             | Inr target \<Rightarrow> Done (newSession C L sid target init_window TCP l))
      | NewUdpFrame sid \<Rightarrow>
          if \<not> lk_has_handler l then Done (l, [])
          else Done (newSession C L sid no_address 0 UDP l)
      | AckFrame sid \<Rightarrow> Done (l, [])
      | CloseFrame sid reason \<Rightarrow>
          (case findSession sid l of
             None \<Rightarrow> Done (l, [])
           | Some ref \<Rightarrow>
               let s = onPeerClose C (lk_store l ! ref);
                   l = l\<lparr>lk_store := (lk_store l)[ref := s]\<rparr>
               in Done (if sess_state s = Closed then eraseSession sid l else l, []))
      | ResetFrame sid \<Rightarrow>
          (case findSession sid l of
             None \<Rightarrow> Done (l, [])
           | Some ref \<Rightarrow>
               Done (eraseSession sid
                 (l\<lparr>lk_store := (lk_store l)[ref := onReset C (lk_store l ! ref)]\<rparr>), []))
      | WindowFrame sid dlt \<Rightarrow>
          (case findSession sid l of
             None \<Rightarrow> Done (l, [])
           | Some ref \<Rightarrow>
               Done (l\<lparr>lk_store := (lk_store l)[ref := onWindow C dlt (lk_store l ! ref)]\<rparr>, []))
      | PingFrame nonce \<Rightarrow> Done (l, [SendFrame (encodePong L [] nonce)])
      | PongFrame nonce \<Rightarrow>
          Done (if lk_pending_ping_nonce l = nonce
                then l\<lparr>lk_pending_ping_nonce := 0, lk_last_pong_ns := now\<rparr> else l, [])
      | HelloFrame _ _ \<Rightarrow> Done (l, [])
      | AuthFrame _ \<Rightarrow> Done (l, [])
      | OkFrame \<Rightarrow> Done (l, [])
      | ErrFrame _ _ \<Rightarrow> Done (l, []))"

section \<open>Reading frames\<close>

text \<open>What an asynchronous read from the socket returned: an error, or bytes (none at end of file).\<close>

datatype rx = RxError string | RxBytes bytes

datatype 'q reader_result =
    ReaderContinue "'q link" "link_action list"
  | ReaderStopped "'q link"
  | ReaderNeedsData
  | ReaderWaiting
  | ReaderCrash

text \<open>One iteration of \<^verbatim>\<open>readerLoop\<close>; \<open>rx\<close> is the result of the read, should it come to that.\<close>

definition reader_step ::
  "'q chan_api \<Rightarrow> absl \<Rightarrow> u64 \<Rightarrow> rx option \<Rightarrow> 'q link \<Rightarrow> 'q reader_result"
where
  "reader_step C L now rx l =
     (if lk_closed l then ReaderStopped l
      else
        case tryParse L (opt_max_payload (lk_opts l)) (rb_data (lk_read_buf l)) of
          Inl e \<Rightarrow> ReaderStopped (failLink C (status_message e) l)
        | Inr (n, rf) \<Rightarrow>
            if n = 0 then
              (case rx of
                 None \<Rightarrow> ReaderNeedsData
               | Some (RxError msg) \<Rightarrow> ReaderStopped (failLink C msg l)
               | Some (RxBytes bs) \<Rightarrow>
                   if bs = [] then ReaderStopped (failLink C ''eof'' l)
                   else ReaderContinue
                     (l\<lparr>lk_read_buf := read_some (16 * 1024) bs (lk_read_buf l)\<rparr>) [])
            else
              (case decodeShineFrame L rf of
                 Inl e \<Rightarrow>
                   ReaderStopped (failLink C (status_message e)
                     (l\<lparr>lk_read_buf := consume n (lk_read_buf l)\<rparr>))
               | Inr frame \<Rightarrow>
                   (case dispatchFrame C L now frame l of
                      Done (l, acts) \<Rightarrow>
                        ReaderContinue (l\<lparr>lk_read_buf := consume n (lk_read_buf l)\<rparr>) acts
                    | Waiting \<Rightarrow> ReaderWaiting
                    | Crash \<Rightarrow> ReaderCrash)))"

section \<open>The handshake\<close>

text \<open>The lambda \<^verbatim>\<open>one\<close>: the next frame, over the results of the reads it makes. The frame is decoded
  after its bytes were consumed, and a bulk frame is a view into the buffer: it shows what the
  buffer holds at its place after a possible move of the unread bytes to the front.\<close>

definition view_after :: "nat \<Rightarrow> read_buffer \<Rightarrow> resp2_frame \<Rightarrow> resp2_frame" where
  "view_after n rb rf =
     (case rf of
        Resp2BulkFrame b \<Rightarrow>
          Resp2BulkFrame (take (length b) (drop (rb_head rb + n - 2 - length b) (rb_buf (consume n rb))))
      | _ \<Rightarrow> rf)"

fun recv_one ::
  "absl \<Rightarrow> nat \<Rightarrow> rx list \<Rightarrow> read_buffer \<Rightarrow> (shine_frame result \<times> read_buffer \<times> rx list) option"
where
  "recv_one L m rxs rb =
     (case tryParse L m (rb_data rb) of
        Inl e \<Rightarrow> Some (Inl e, rb, rxs)
      | Inr (n, rf) \<Rightarrow>
          if n > 0 then Some (decodeShineFrame L (view_after n rb rf), consume n rb, rxs)
          else
            (case rxs of
               [] \<Rightarrow> None
             | RxError msg # rxs \<Rightarrow> Some (Inl (UnavailableError msg), ensure_writable 8192 rb, rxs)
             | RxBytes bs # rxs \<Rightarrow>
                 if bs = [] then Some (Inl (UnavailableError ''eof''), ensure_writable 8192 rb, rxs)
                 else recv_one L m rxs (read_some 8192 bs rb)))"

declare recv_one.simps [simp del]

text \<open>How a handshake ends: waiting for input, failed with a reason, or done; with the frames sent,
  the read buffer and the reads left.\<close>

datatype handshake =
    HsWaiting "string list"
  | HsFailed string "string list" read_buffer
  | HsDone "string list" read_buffer "rx list"

definition hello_frame :: "absl \<Rightarrow> string" where
  "hello_frame L = encodeHello L [] ''1'' ''mux,flow''"

definition handshakeServer :: "absl \<Rightarrow> link_options \<Rightarrow> rx list \<Rightarrow> read_buffer \<Rightarrow> handshake" where
  "handshakeServer L opts rxs rb =
     (case recv_one L (opt_max_payload opts) rxs rb of
        None \<Rightarrow> HsWaiting []
      | Some (Inl e, rb, rxs) \<Rightarrow> HsFailed (status_message e) [] rb
      | Some (Inr (HelloFrame _ _), rb, rxs) \<Rightarrow>
          let sent = [hello_frame L] in
          if opt_password opts \<noteq> [] then
            (case recv_one L (opt_max_payload opts) rxs rb of
               None \<Rightarrow> HsWaiting sent
             | Some (Inl e, rb, rxs) \<Rightarrow> HsFailed (status_message e) sent rb
             | Some (Inr (AuthFrame p), rb, rxs) \<Rightarrow>
                 if p \<noteq> opt_password opts then
                   HsFailed ''bad password'' (sent @ [encodeErr L [] ''AUTH'' ''bad password'']) rb
                 else HsDone (sent @ [encodeOk L []]) rb rxs
             | Some (Inr _, rb, rxs) \<Rightarrow> HsFailed ''expected AUTH'' sent rb)
          else HsDone sent rb rxs
      | Some (Inr _, rb, rxs) \<Rightarrow> HsFailed ''expected HELLO'' [] rb)"

definition handshakeClient :: "absl \<Rightarrow> link_options \<Rightarrow> rx list \<Rightarrow> read_buffer \<Rightarrow> handshake" where
  "handshakeClient L opts rxs rb =
     (let sent = [hello_frame L] in
      case recv_one L (opt_max_payload opts) rxs rb of
        None \<Rightarrow> HsWaiting sent
      | Some (Inl e, rb, rxs) \<Rightarrow> HsFailed (status_message e) sent rb
      | Some (Inr (HelloFrame _ _), rb, rxs) \<Rightarrow>
          if opt_password opts \<noteq> [] then
            let sent = sent @ [encodeAuth L [] (opt_password opts)] in
            (case recv_one L (opt_max_payload opts) rxs rb of
               None \<Rightarrow> HsWaiting sent
             | Some (Inl e, rb, rxs) \<Rightarrow> HsFailed (status_message e) sent rb
             | Some (Inr (ErrFrame _ _), rb, rxs) \<Rightarrow> HsFailed ''auth error'' sent rb
             | Some (Inr OkFrame, rb, rxs) \<Rightarrow> HsDone sent rb rxs
             | Some (Inr _, rb, rxs) \<Rightarrow> HsFailed ''expected OK after AUTH'' sent rb)
          else HsDone sent rb rxs
      | Some (Inr _, rb, rxs) \<Rightarrow> HsFailed ''expected HELLO reply'' sent rb)"

text \<open>\<^verbatim>\<open>start\<close>, and its first coroutine up to the reader loop once the reads of the handshake are
  known (\<open>None\<close> while it waits). The timer of the handshake fails the link when it fires first.\<close>

definition link_start :: "u64 \<Rightarrow> bool \<Rightarrow> 'q link \<Rightarrow> 'q link" where
  "link_start now has_handler l = l\<lparr>lk_has_handler := has_handler, lk_last_pong_ns := now\<rparr>"

definition handshake_timeout :: "'q chan_api \<Rightarrow> 'q link \<Rightarrow> 'q link" where
  "handshake_timeout C l = failLink C ''handshake timeout'' l"

fun enqueue_all :: "'q chan_api \<Rightarrow> string list \<Rightarrow> 'q link \<Rightarrow> 'q link option" where
  "enqueue_all C [] l = Some l"
| "enqueue_all C (w # ws) l =
     (case enqueueFrame C w l of None \<Rightarrow> None | Some l \<Rightarrow> enqueue_all C ws l)"

definition run_handshake :: "absl \<Rightarrow> rx list \<Rightarrow> 'q link \<Rightarrow> handshake" where
  "run_handshake L rxs l =
     (if opt_is_server (lk_opts l) then handshakeServer L (lk_opts l) rxs (lk_read_buf l)
      else handshakeClient L (lk_opts l) rxs (lk_read_buf l))"

definition link_handshake ::
  "'q chan_api \<Rightarrow> absl \<Rightarrow> rx list \<Rightarrow> 'q link \<Rightarrow> ('q link \<times> rx list) option"
where
  "link_handshake C L rxs l =
     (case run_handshake L rxs l of
        HsWaiting sent \<Rightarrow> None
      | HsFailed reason sent rb \<Rightarrow>
          map_option (\<lambda>l. (failLink C reason l, [])) (enqueue_all C sent (l\<lparr>lk_read_buf := rb\<rparr>))
      | HsDone sent rb rxs \<Rightarrow>
          map_option
            (\<lambda>l. (if lk_closed l then l
                   else l\<lparr>lk_handshake_done := True,
                          lk_handshake_signal :=
                            ch_close C (ch_try_send C SignalMsg (lk_handshake_signal l))\<rparr>,
                  rxs))
            (enqueue_all C sent (l\<lparr>lk_read_buf := rb\<rparr>)))"

definition waitHandshake :: "'q chan_api \<Rightarrow> 'q link \<Rightarrow> (bool \<times> 'q link) option" where
  "waitHandshake C l =
     (if lk_handshake_done l then Some (True, l)
      else if lk_closed l then Some (False, l)
      else map_option (\<lambda>(_, q). (lk_handshake_done l, l\<lparr>lk_handshake_signal := q\<rparr>))
             (ch_receive C (lk_handshake_signal l)))"

section \<open>Writer and heartbeat\<close>

text \<open>One iteration of \<^verbatim>\<open>writerLoop\<close>: \<open>None\<close> while the channel is empty; otherwise the bytes written and
  whether the loop goes on. \<open>io\<close> is the error of the write, if any.\<close>

definition writer_step ::
  "'q chan_api \<Rightarrow> string option \<Rightarrow> 'q link \<Rightarrow> (string \<times> bool \<times> 'q link) option"
where
  "writer_step C io l =
     (if lk_closed l then Some ([], False, l)
      else
        case ch_receive C (lk_write_chan l) of
          None \<Rightarrow> None
        | Some (Some (WireMsg m), q) \<Rightarrow>
            let l = l\<lparr>lk_write_chan := q\<rparr> in
            if m = [] then Some ([], True, l)
            else
              (case io of
                 None \<Rightarrow> Some (m, True, l)
               | Some msg \<Rightarrow> Some (m, False, failLink C msg l))
        | Some (_, q) \<Rightarrow> Some ([], False, l\<lparr>lk_write_chan := q\<rparr>))"

text \<open>One tick of \<^verbatim>\<open>heartbeatLoop\<close> (the timer fired without error): the link, the frames to send, and
  whether the loop goes on. The counters are unsigned 64-bit nanoseconds.\<close>

definition heartbeat_tick ::
  "'q chan_api \<Rightarrow> absl \<Rightarrow> u64 \<Rightarrow> u64 \<Rightarrow> 'q link \<Rightarrow> 'q link \<times> link_action list \<times> bool"
where
  "heartbeat_tick C L now drawn l =
     (if \<not> lk_handshake_done l then (l, [], True)
      else
        let last_pong = lk_last_pong_ns l;
            last_sent = lk_last_ping_sent_ns l;
            ping_ns = word_of_int (opt_ping_interval (lk_opts l)) * 1000000000;
            pong_to_ns = word_of_int (opt_pong_timeout (lk_opts l)) * 1000000000;
            pending = lk_pending_ping_nonce l
        in
        if pending \<noteq> 0 \<and> now - last_sent > pong_to_ns then (failLink C ''ping timeout'' l, [], False)
        else if pending = 0 \<and> now - last_pong > ping_ns then
          let nonce = (if drawn = 0 then 1 else drawn) in
          (l\<lparr>lk_pending_ping_nonce := nonce, lk_last_ping_sent_ns := now\<rparr>,
           [SendFrame (encodePing L [] nonce)], True)
        else (l, [], True))"

section \<open>Session methods on their link\<close>

definition view_of :: "'q link \<Rightarrow> link_view" where
  "view_of l = (if lk_closed l then LinkClosed else LinkUp)"

text \<open>The calls a session method makes: erasing is immediate, frames become actions.\<close>

fun session_calls :: "link_call list \<Rightarrow> 'q link \<Rightarrow> 'q link \<times> link_action list" where
  "session_calls [] l = (l, [])"
| "session_calls (EnqueueFrame w # cs) l = (let (l, acts) = session_calls cs l in (l, SendFrame w # acts))"
| "session_calls (EraseSession sid # cs) l = session_calls cs (eraseSession sid l)"

definition with_session ::
  "nat \<Rightarrow> 'q session \<times> link_call list \<Rightarrow> 'q link \<Rightarrow> 'q link \<times> link_action list"
where
  "with_session ref r l = session_calls (snd r) (l\<lparr>lk_store := (lk_store l)[ref := fst r]\<rparr>)"

definition perform :: "'q chan_api \<Rightarrow> link_action \<Rightarrow> 'q link \<Rightarrow> 'q link option" where
  "perform C act l =
     (case act of SendFrame w \<Rightarrow> enqueueFrame C w l | SpawnHandler ref target \<Rightarrow> Some l)"

section \<open>The reader loop\<close>

text \<open>The reader loop over the results of its reads, until it needs another one.\<close>

fun reader_run ::
  "'q chan_api \<Rightarrow> absl \<Rightarrow> u64 \<Rightarrow> nat \<Rightarrow> rx list \<Rightarrow> 'q link \<Rightarrow> ('q link \<times> link_action list) option"
where
  "reader_run C L now 0 rxs l = None"
| "reader_run C L now (Suc k) rxs l =
     (case reader_step C L now None l of
        ReaderContinue l acts \<Rightarrow> map_option (apsnd ((@) acts)) (reader_run C L now k rxs l)
      | ReaderStopped l \<Rightarrow> Some (l, [])
      | ReaderWaiting \<Rightarrow> None
      | ReaderCrash \<Rightarrow> None
      | ReaderNeedsData \<Rightarrow>
          (case rxs of
             [] \<Rightarrow> Some (l, [])
           | rx # rxs \<Rightarrow>
               (case reader_step C L now (Some rx) l of
                  ReaderContinue l acts \<Rightarrow> map_option (apsnd ((@) acts)) (reader_run C L now k rxs l)
                | ReaderStopped l \<Rightarrow> Some (l, [])
                | _ \<Rightarrow> None)))"

text \<open>Its specification: the decoded frames, dispatched in order.\<close>

fun dispatch_all ::
  "'q chan_api \<Rightarrow> absl \<Rightarrow> u64 \<Rightarrow> shine_frame list \<Rightarrow> 'q link \<Rightarrow> ('q link \<times> link_action list) outcome"
where
  "dispatch_all C L now [] l = Done (l, [])"
| "dispatch_all C L now (f # fs) l =
     (case dispatchFrame C L now f l of
        Done (l, acts) \<Rightarrow>
          (case dispatch_all C L now fs l of
             Done (l, acts') \<Rightarrow> Done (l, acts @ acts') | Waiting \<Rightarrow> Waiting | Crash \<Rightarrow> Crash)
      | Waiting \<Rightarrow> Waiting
      | Crash \<Rightarrow> Crash)"

lemma dispatch_fields:
  "dispatchFrame C L now f l = Done (l', acts) \<Longrightarrow>
   lk_read_buf l' = lk_read_buf l \<and> lk_opts l' = lk_opts l \<and> lk_closed l' = lk_closed l"
  by (cases f)
     (auto simp: dispatchFrame_def newSession_def emplaceSession_def eraseSession_def Let_def
        split: option.splits outcome.splits sum.splits if_splits)

definition set_buf :: "read_buffer \<Rightarrow> 'q link \<Rightarrow> 'q link" where
  "set_buf b l = l\<lparr>lk_read_buf := b\<rparr>"

lemma set_buf_fields [simp]:
  "lk_read_buf (set_buf b l) = b" "lk_opts (set_buf b l) = lk_opts l"
  "lk_closed (set_buf b l) = lk_closed l" "set_buf b (set_buf c l) = set_buf b l"
  "lk_sessions (set_buf b l) = lk_sessions l" "lk_store (set_buf b l) = lk_store l"
  "lk_has_handler (set_buf b l) = lk_has_handler l"
  "lk_pending_ping_nonce (set_buf b l) = lk_pending_ping_nonce l"
  by (simp_all add: set_buf_def)

lemma dispatch_set_buf:
  "dispatchFrame C L now f (set_buf b l) = map_outcome (apfst (set_buf b)) (dispatchFrame C L now f l)"
  by (cases f)
     (simp_all add: dispatchFrame_def newSession_def emplaceSession_def eraseSession_def findSession_def
        Let_def set_buf_def split: option.split outcome.split sum.split)

lemma dispatch_all_set_buf:
  "dispatch_all C L now fs (set_buf b l) = map_outcome (apfst (set_buf b)) (dispatch_all C L now fs l)"
proof (induction fs arbitrary: l)
  case (Cons f fs)
  then show ?case by (simp add: dispatch_set_buf split: outcome.split)
qed simp

abbreviation link_parse :: "absl \<Rightarrow> 'q link \<Rightarrow> bytes \<Rightarrow> (nat \<times> resp2_frame) result" where
  "link_parse L l \<equiv> tryParse L (opt_max_payload (lk_opts l))"

lemma reader_step_frame:
  assumes "\<not> lk_closed l" "link_parse L l (rb_data (lk_read_buf l)) = Inr (n, rf)" "0 < n"
    "decodeShineFrame L rf = Inr f" "dispatchFrame C L now f l = Done (l', acts)"
  shows "reader_step C L now rx l = ReaderContinue (set_buf (consume n (lk_read_buf l)) l') acts"
  using assms dispatch_fields [OF assms(5)] by (simp add: reader_step_def set_buf_def)

lemma reader_step_read:
  assumes "\<not> lk_closed l" "link_parse L l (rb_data (lk_read_buf l)) = Inr (0, rf)" "bs \<noteq> []"
  shows "reader_step C L now None l = ReaderNeedsData"
    and "reader_step C L now (Some (RxBytes bs)) l
      = ReaderContinue (set_buf (read_some (16 * 1024) bs (lk_read_buf l)) l) []"
  using assms by (simp_all add: reader_step_def set_buf_def)

lemma read_chunk:
  assumes "link_buffer 16384 rb" "length bs \<le> 16384"
  shows "rb_data (read_some (16 * 1024) bs rb) = rb_data rb @ bs"
    and "link_buffer 16384 (read_some (16 * 1024) bs rb)"
proof -
  have "length bs \<le> writable_size (ensure_writable 16384 rb)"
    using rb.room_min [OF assms(1)] assms(2) by simp
  then show "rb_data (read_some (16 * 1024) bs rb) = rb_data rb @ bs"
    "link_buffer 16384 (read_some (16 * 1024) bs rb)"
    using rb.contents_push [OF assms(1)] rb.invar_push [OF assms(1)] by simp_all
qed

lemma reader_refines:
  assumes "k = length rfs + length chunks"
    and "\<not> lk_closed l" "link_buffer 16384 (lk_read_buf l)"
    and "\<forall>c \<in> set chunks. c \<noteq> [] \<and> length c \<le> 16384"
    and "frames_of (link_parse L l) (rb_data (lk_read_buf l) @ concat chunks) = (rfs, None, rest)"
    and "map (decodeShineFrame L) rfs = map Inr fs"
    and "dispatch_all C L now fs l = Done (l', acts)"
  shows "\<exists>rb. reader_run C L now (Suc k) (map RxBytes chunks) l
      = Some (set_buf rb l', acts) \<and> rb_data rb = rest \<and> link_buffer 16384 rb"
  using assms
proof (induction k arbitrary: l l' chunks rfs fs acts)
  case 0
  let ?d = "rb_data (lk_read_buf l)"
  have empty: "chunks = []" "rfs = []" "fs = []" "l' = l" "acts = []" using 0 by auto
  have ex: "\<exists>rf. link_parse L l ?d = Inr (0, rf)"
  proof (cases "link_parse L l ?d")
    case (Inl e)
    with 0 empty show ?thesis by (simp add: frames_of_error)
  next
    case (Inr y)
    obtain n rf where y: "link_parse L l ?d = Inr (n, rf)" using Inr by (cases y) auto
    have "n = 0"
    proof (rule ccontr)
      assume "n \<noteq> 0"
      with frames_of_step [of "link_parse L l", OF y] tryParse_bounds [OF y] 0(5) empty show False
        by (auto simp: after_frames_def split: prod.splits)
    qed
    with y show ?thesis by blast
  qed
  from ex obtain rf where rf: "link_parse L l ?d = Inr (0, rf)" by blast
  from frames_of_stop [of "link_parse L l", OF rf] 0(5) empty have "rest = ?d" by simp
  with rf 0 empty show ?case
    by (intro exI [of _ "lk_read_buf l"]) (simp add: reader_step_def set_buf_def)
next
  case (Suc k)
  let ?d = "rb_data (lk_read_buf l)"
  note buf = Suc.prems(3)
  show ?case
  proof (cases "link_parse L l ?d")
    case (Inl e)
    with Suc.prems(5) show ?thesis
      by (simp add: frames_of_error tryParse_stable_error)
  next
    case (Inr y)
    then obtain n rf where y: "link_parse L l ?d = Inr (n, rf)" by (cases y) auto
    show ?thesis
    proof (cases "n = 0")
      case False
      then have n: "0 < n" "n \<le> length ?d" using tryParse_bounds [OF y] by auto
      have "frames_of (link_parse L l) (?d @ concat chunks)
          = after_frames [rf] (frames_of (link_parse L l) (drop n ?d @ concat chunks))"
        using frames_of_step [of "link_parse L l" "?d @ concat chunks" n rf]
          tryParse_stable_frame [OF y n(1)] n by simp
      with Suc.prems(5) obtain rfs' where rfs: "rfs = rf # rfs'"
        "frames_of (link_parse L l) (drop n ?d @ concat chunks) = (rfs', None, rest)"
        by (auto simp: after_frames_def split: prod.splits)
      from Suc.prems(6) rfs obtain f fs' where fs: "fs = f # fs'" "decodeShineFrame L rf = Inr f"
        "map (decodeShineFrame L) rfs' = map Inr fs'" by (cases fs) auto
      from Suc.prems(7) fs obtain l1 a1 a2 where d: "dispatchFrame C L now f l = Done (l1, a1)"
        "dispatch_all C L now fs' l1 = Done (l', a2)" "acts = a1 @ a2"
        by (auto split: outcome.splits)
      let ?l = "set_buf (consume n (lk_read_buf l)) l1"
      note fields = dispatch_fields [OF d(1)]
      have "\<exists>rb. reader_run C L now (Suc k) (map RxBytes chunks) ?l
          = Some (set_buf rb (set_buf (consume n (lk_read_buf l)) l'), a2)
        \<and> rb_data rb = rest \<and> link_buffer 16384 rb"
        by (rule Suc.IH [where fs = fs' and rfs = rfs'])
           (use Suc.prems(1) Suc.prems(2-4) rfs fs d(2) fields buf in
             \<open>simp_all add: rb.contents_pop [OF buf] rb.invar_pop [OF buf] dispatch_all_set_buf\<close>)
      then show ?thesis
        using reader_step_frame [OF Suc.prems(2) y n(1) fs(2) d(1), of None] rfs d(3) by auto
    next
      case True
      show ?thesis
      proof (cases chunks)
        case Nil
        with True y Suc.prems(5) Suc.prems(1) show ?thesis by (simp add: frames_of_stop)
      next
        case (Cons c cs)
        then have c: "c \<noteq> []" "length c \<le> 16384" using Suc.prems(4) by auto
        let ?l = "set_buf (read_some (16 * 1024) c (lk_read_buf l)) l"
        have "\<exists>rb. reader_run C L now (Suc k) (map RxBytes cs) ?l
            = Some (set_buf rb (set_buf (read_some (16 * 1024) c (lk_read_buf l)) l'), acts)
          \<and> rb_data rb = rest \<and> link_buffer 16384 rb"
          by (rule Suc.IH [where fs = fs and rfs = rfs])
             (use Suc.prems(1) Suc.prems Cons read_chunk [OF buf c(2)] in
               \<open>simp_all add: dispatch_all_set_buf\<close>)
        then show ?thesis
          using reader_step_read [OF Suc.prems(2) _ c(1), of L rf C now] y True Cons
          by (auto simp: apsnd_def map_prod_def)
      qed
    qed
  qed
qed


definition example_link :: "list_chan link" where
  "example_link = new_link list_chan_api default_link_options"

definition ping_chunks :: "bytes list" where
  "ping_chunks = (let w = as_bytes (encodeFrame absl_ref (PingFrame 5)) in [take 3 w, drop 3 w])"


section \<open>The session table\<close>

text \<open>Every entry of the table points to a session with the entry's identifier that is not closed.\<close>

definition entry_ok :: "'q session list \<Rightarrow> u64 \<times> nat \<Rightarrow> bool" where
  "entry_ok store e \<longleftrightarrow> snd e < length store \<and> sess_sid (store ! snd e) = fst e
     \<and> sess_state (store ! snd e) \<noteq> Closed"

definition table_ok :: "'q link \<Rightarrow> bool" where
  "table_ok l \<longleftrightarrow> distinct (map fst (lk_sessions l)) \<and> list_all (entry_ok (lk_store l)) (lk_sessions l)"

lemma table_ok_cong:
  "lk_sessions l' = lk_sessions l \<Longrightarrow> lk_store l' = lk_store l \<Longrightarrow> table_ok l' = table_ok l"
  by (simp add: table_ok_def)

lemma findSession_ok:
  "table_ok l \<Longrightarrow> findSession sid l = Some ref \<Longrightarrow> entry_ok (lk_store l) (sid, ref)"
  by (auto simp: table_ok_def findSession_def list_all_iff dest: map_of_SomeD)

lemma entry_ok_update:
  "entry_ok store e \<Longrightarrow> sess_sid s = sess_sid (store ! ref)
   \<Longrightarrow> (snd e = ref \<Longrightarrow> sess_state s \<noteq> Closed) \<Longrightarrow> entry_ok (store[ref := s]) e"
  by (cases "snd e = ref") (auto simp: entry_ok_def)

text \<open>A changed session keeps the table well-formed if it keeps its identifier and, should it be closed
  now and not before, its identifier is erased.\<close>

lemma table_ok_update:
  assumes "table_ok l" "sess_sid s = sess_sid (lk_store l ! ref)"
    and "lk_store l' = (lk_store l)[ref := s]"
    and "lk_sessions l' = filter (\<lambda>(k, _). P k) (lk_sessions l)"
    and "sess_state s = Closed \<Longrightarrow> sess_state (lk_store l ! ref) = Closed \<or> \<not> P (sess_sid s)"
  shows "table_ok l'"
proof -
  have "entry_ok (lk_store l') e" if "e \<in> set (lk_sessions l')" for e
  proof -
    from that assms(4) have e: "e \<in> set (lk_sessions l)" "P (fst e)" by auto
    with assms(1) have ok: "entry_ok (lk_store l) e" by (auto simp: table_ok_def list_all_iff)
    then show ?thesis unfolding assms(3)
      by (rule entry_ok_update [OF _ assms(2)]) (use assms(2,5) e(2) ok in \<open>auto simp: entry_ok_def\<close>)
  qed
  moreover have "distinct (map fst (lk_sessions l'))"
    using assms(1,4) by (simp add: table_ok_def distinct_map_filter)
  ultimately show ?thesis by (simp add: table_ok_def list_all_iff)
qed

lemma table_ok_update_open:
  "table_ok l \<Longrightarrow> sess_sid s = sess_sid (lk_store l ! ref) \<Longrightarrow> sess_state s \<noteq> Closed
   \<Longrightarrow> table_ok (l\<lparr>lk_store := (lk_store l)[ref := s]\<rparr>)"
  by (rule table_ok_update [where P = "\<lambda>_. True" and ref = ref and s = s]) auto

lemma table_ok_erase: "table_ok l \<Longrightarrow> table_ok (eraseSession sid l)"
  by (auto simp: table_ok_def eraseSession_def distinct_map_filter list_all_iff)

lemma table_ok_emplace:
  assumes "table_ok l" "sess_sid s = sid" "sess_state s \<noteq> Closed"
  shows "table_ok (snd (emplaceSession sid s l))"
proof -
  have "entry_ok (lk_store l @ [s]) e" if "entry_ok (lk_store l) e" for e
    using that by (auto simp: entry_ok_def nth_append)
  moreover have "entry_ok (lk_store l @ [s]) (sid, length (lk_store l))"
    using assms by (simp add: entry_ok_def)
  ultimately show ?thesis
    using assms(1)
    by (auto simp: emplaceSession_def Let_def table_ok_def list_all_iff map_of_eq_None_iff)
qed

lemma session_calls_fields:
  "lk_store (fst (session_calls cs l)) = lk_store l
   \<and> lk_sessions (fst (session_calls cs l))
     = filter (\<lambda>(k, _). EraseSession k \<notin> set cs) (lk_sessions l)"
proof (induction cs l rule: session_calls.induct)
  case (3 sid cs l)
  then show ?case by (auto simp: eraseSession_def intro: filter_cong)
qed (auto simp: Let_def split_beta)

lemma table_ok_with_session:
  assumes "table_ok l" "sess_sid (fst r) = sess_sid (lk_store l ! ref)"
    and "sess_state (fst r) = Closed \<Longrightarrow>
      sess_state (lk_store l ! ref) = Closed \<or> EraseSession (sess_sid (fst r)) \<in> set (snd r)"
  shows "table_ok (fst (with_session ref r l))"
  using session_calls_fields [of "snd r" "l\<lparr>lk_store := (lk_store l)[ref := fst r]\<rparr>"] assms
  by (intro table_ok_update [OF assms(1), where s = "fst r" and ref = ref and P = "\<lambda>k. EraseSession k \<notin> set (snd r)"])
     (simp_all add: with_session_def)

lemma reset_fold:
  assumes "\<forall>ref \<in> set refs. ref < length store"
  shows "length (foldl (\<lambda>st ref. st[ref := onReset C (st ! ref)]) store refs) = length store
    \<and> (\<forall>i < length store. sess_sid (foldl (\<lambda>st ref. st[ref := onReset C (st ! ref)]) store refs ! i)
         = sess_sid (store ! i)
       \<and> (i \<in> set refs \<longrightarrow>
            sess_state (foldl (\<lambda>st ref. st[ref := onReset C (st ! ref)]) store refs ! i) = Closed)
       \<and> (sess_state (store ! i) = Closed \<longrightarrow>
            sess_state (foldl (\<lambda>st ref. st[ref := onReset C (st ! ref)]) store refs ! i) = Closed))"
  using assms
proof (induction refs arbitrary: store)
  case (Cons r refs)
  let ?store = "store[r := onReset C (store ! r)]"
  have r: "r < length store" using Cons.prems by simp
  have upd: "sess_sid (?store ! i) = sess_sid (store ! i)"
    "i = r \<or> sess_state (store ! i) = Closed \<Longrightarrow> sess_state (?store ! i) = Closed" for i
    using r by (cases "i = r"; simp add: onReset_def)+
  from Cons.IH [of ?store] Cons.prems upd show ?case by auto
qed simp

lemma table_ok_fail: "table_ok l \<Longrightarrow> table_ok (failLink C reason l)"
  by (auto simp: failLink_def Let_def table_ok_def)

lemma table_ok_dispatch:
  assumes ok: "table_ok l" and d: "dispatchFrame C L now f l = Done (l', acts)"
  shows "table_ok l'"
proof -
  have upd: "table_ok (l\<lparr>lk_store := (lk_store l)[ref := s]\<rparr>)"
    if "findSession sid l = Some ref" "sess_sid s = sess_sid (lk_store l ! ref)"
      "sess_state s = sess_state (lk_store l ! ref)" for sid ref s
    using findSession_ok [OF ok that(1)] that by (intro table_ok_update_open [OF ok]) (auto simp: entry_ok_def)
  have erase: "table_ok (eraseSession sid (l\<lparr>lk_store := (lk_store l)[ref := s]\<rparr>))"
    if "findSession sid l = Some ref" "sess_sid s = sess_sid (lk_store l ! ref)" for sid ref s
    using findSession_ok [OF ok that(1)] that
    by (intro table_ok_update [OF ok, where s = s and ref = ref and P = "\<lambda>k. k \<noteq> sid"])
       (auto simp: entry_ok_def eraseSession_def)
  have new: "table_ok (fst (newSession C L sid target win proto l))" for sid target win proto
    using table_ok_emplace [OF ok, of "new_session C sid target win (opt_init_window (lk_opts l)) proto" sid]
    by (simp add: newSession_def split_beta Let_def)
  have data: "sess_sid s' = sess_sid s \<and> sess_state s' = sess_state s" if "onData C p s = Done s'" for p s s'
    using that by (auto simp: onData_def split: if_splits option.splits)
  have sid: "sess_sid (onPeerClose C s) = sess_sid s" for s by (simp add: onPeerClose_def)
  have peer: "table_ok (let s = onPeerClose C (lk_store l ! ref); l = l\<lparr>lk_store := (lk_store l)[ref := s]\<rparr>
      in if sess_state s = Closed then eraseSession sid l else l)"
    if "findSession sid l = Some ref" for sid ref
    using erase [OF that, of "onPeerClose C (lk_store l ! ref)"]
      table_ok_update_open [OF ok, of "onPeerClose C (lk_store l ! ref)" ref]
    by (simp add: Let_def sid)
  show ?thesis
  proof (cases f)
    case (DataFrame sid p)
    with d ok show ?thesis
      by (auto simp: dispatchFrame_def split: option.splits outcome.splits dest: data intro!: upd)
  next
    case (CloseFrame sid reason)
    with d ok peer show ?thesis by (auto simp: dispatchFrame_def Let_def split: option.splits)
  next
    case (NewFrame sid blob w)
    with d ok new show ?thesis
      by (auto simp: dispatchFrame_def split: if_splits sum.splits) (metis fst_conv)
  next
    case (NewUdpFrame sid)
    with d ok new show ?thesis by (auto simp: dispatchFrame_def split: if_splits) (metis fst_conv)
  next
    case (PongFrame n)
    with d ok show ?thesis
      by (auto simp: dispatchFrame_def table_ok_def split: if_splits)
  qed (use d ok in \<open>auto simp: dispatchFrame_def onUdpData_def onWindow_def onReset_def
        split: option.splits sum.splits intro!: upd erase\<close>)
qed

section \<open>Every interleaving\<close>

text \<open>The coroutines of a link and the users of its sessions, one step at a time, in any order.\<close>

inductive link_step :: "'q chan_api \<Rightarrow> absl \<Rightarrow> 'q link \<Rightarrow> 'q link \<Rightarrow> bool"
  for C :: "'q chan_api" and L :: absl
where
  start: "link_step C L l (link_start now handler l)"
| handshake: "link_handshake C L rxs l = Some (l', rest) \<Longrightarrow> link_step C L l l'"
| reader: "reader_step C L now rx l = ReaderContinue l' acts \<Longrightarrow> link_step C L l l'"
| reader_stop: "reader_step C L now rx l = ReaderStopped l' \<Longrightarrow> link_step C L l l'"
| writer: "writer_step C io l = Some (w, go, l') \<Longrightarrow> link_step C L l l'"
| heartbeat: "heartbeat_tick C L now drawn l = (l', acts, go) \<Longrightarrow> link_step C L l l'"
| wait_handshake: "waitHandshake C l = Some (ready, l') \<Longrightarrow> link_step C L l l'"
| action: "perform C act l = Some l' \<Longrightarrow> link_step C L l l'"
| opened: "openSession C L sid target is_udp l = Inr (ref, l', acts) \<Longrightarrow> link_step C L l l'"
| fail: "link_step C L l (failLink C reason l)"
| mark: "link_step C L l (markClosed C l)"
| close_now: "link_step C L l (fst (closeNow l))"
| posted: "link_step C L l (closeNow_posted C l)"
| sess_shutdown: "ref < length (lk_store l) \<Longrightarrow>
    link_step C L l (fst (with_session ref (shutdownWrite L (view_of l) (lk_store l ! ref)) l))"
| sess_close: "ref < length (lk_store l) \<Longrightarrow>
    link_step C L l (fst (with_session ref (session_close C L (view_of l) (lk_store l ! ref)) l))"
| sess_read: "ref < length (lk_store l) \<Longrightarrow>
    session_read C L (view_of l) n (lk_store l ! ref) = Done (bs, s, calls) \<Longrightarrow>
    link_step C L l (fst (with_session ref (s, calls) l))"
| sess_write: "ref < length (lk_store l) \<Longrightarrow>
    write_step C L (opt_max_data_frame (lk_opts l)) (view_of l) pc d (lk_store l ! ref)
      = WriteStep pc' d' s calls \<Longrightarrow>
    link_step C L l (fst (with_session ref (s, calls) l))"
| sess_send_to: "ref < length (lk_store l) \<Longrightarrow>
    sendTo L (view_of l) d target (lk_store l ! ref) = (r, s, calls) \<Longrightarrow>
    link_step C L l (fst (with_session ref (s, calls) l))"
| sess_receive_from: "ref < length (lk_store l) \<Longrightarrow>
    receiveFrom C (lk_store l ! ref) = Done (r, s) \<Longrightarrow>
    link_step C L l (fst (with_session ref (s, []) l))"

lemma read_account_keeps:
  "read_account L lk d s = Done (bs, s', calls) \<Longrightarrow> sess_sid s' = sess_sid s \<and> sess_state s' = sess_state s"
  by (auto simp: read_account_def maybeSendWindow_def Let_def split: if_splits)

lemma session_read_keeps:
  "session_read C L lk n s = Done (bs, s', calls) \<Longrightarrow> sess_sid s' = sess_sid s \<and> sess_state s' = sess_state s"
  by (auto simp: session_read_def read_inbox_def Let_def
        split: option.splits if_splits prod.splits msg.splits dest!: read_account_keeps)

lemma write_step_keeps:
  "write_step C L k lk pc d s = WriteStep pc' d' s' calls \<Longrightarrow>
   sess_sid s' = sess_sid s \<and> sess_state s' = sess_state s"
  by (cases rule: write_step_cases [of C L k lk pc d s pc' d' s' calls]) auto

lemma receiveFrom_keeps:
  "receiveFrom C s = Done (r, s') \<Longrightarrow> sess_sid s' = sess_sid s \<and> sess_state s' = sess_state s"
  by (auto simp: receiveFrom_def split: if_splits option.splits prod.splits msg.splits)

lemma sendTo_keeps:
  "sendTo L lk d t s = (r, s', calls) \<Longrightarrow> sess_sid s' = sess_sid s \<and> sess_state s' = sess_state s"
  by (auto simp: sendTo_def split: if_splits)

lemma shutdownWrite_erases:
  "sess_sid (fst (shutdownWrite L lk s)) = sess_sid s
   \<and> (sess_state (fst (shutdownWrite L lk s)) = Closed \<longrightarrow>
        sess_state s = Closed \<or> EraseSession (sess_sid s) \<in> set (snd (shutdownWrite L lk s)))"
  by (auto simp: shutdownWrite_def Let_def)

lemma session_close_erases:
  "lk \<noteq> LinkGone \<Longrightarrow> sess_sid (fst (session_close C L lk s)) = sess_sid s
   \<and> (sess_state (fst (session_close C L lk s)) = Closed \<longrightarrow>
        sess_state s = Closed \<or> EraseSession (sess_sid s) \<in> set (snd (session_close C L lk s)))"
  by (cases lk) (auto simp: session_close_def Let_def)

lemma enqueue_table: "enqueueFrame C w l = Some l' \<Longrightarrow> table_ok l' = table_ok l"
  by (auto simp: enqueueFrame_def table_ok_def split: if_splits)

lemma enqueue_all_table: "enqueue_all C ws l = Some l' \<Longrightarrow> table_ok l' = table_ok l"
  by (induction C ws l rule: enqueue_all.induct) (auto dest: enqueue_table split: option.splits)

lemma table_ok_simple [simp]:
  "table_ok (l\<lparr>lk_read_buf := b\<rparr>) = table_ok l" "table_ok (l\<lparr>lk_write_chan := q\<rparr>) = table_ok l"
  "table_ok (l\<lparr>lk_closed := c\<rparr>) = table_ok l" "table_ok (l\<lparr>lk_handshake_signal := q\<rparr>) = table_ok l"
  "table_ok (l\<lparr>lk_handshake_done := c\<rparr>) = table_ok l" "table_ok (l\<lparr>lk_sock_open := c\<rparr>) = table_ok l"
  "table_ok (l\<lparr>lk_has_handler := c\<rparr>) = table_ok l" "table_ok (l\<lparr>lk_last_pong_ns := n\<rparr>) = table_ok l"
  "table_ok (l\<lparr>lk_pending_ping_nonce := n\<rparr>) = table_ok l" "table_ok (l\<lparr>lk_last_ping_sent_ns := n\<rparr>) = table_ok l"
  by (simp_all add: table_ok_def)

lemma table_ok_step:
  assumes "link_step C L l l'" and ok: "table_ok l"
  shows "table_ok l'"
  using assms
proof cases
  case (handshake rxs rest)
  with ok show ?thesis
    by (auto simp: link_handshake_def split: handshake.splits if_splits
          dest!: enqueue_all_table intro!: table_ok_fail)
next
  case (reader now rx acts)
  with ok show ?thesis
    by (auto simp: reader_step_def split: if_splits sum.splits option.splits rx.splits outcome.splits
          dest!: table_ok_dispatch [OF ok])
next
  case (reader_stop now rx)
  with ok show ?thesis
    by (auto simp: reader_step_def split: if_splits sum.splits option.splits rx.splits outcome.splits
          intro!: table_ok_fail)
next
  case (writer io w go)
  with ok show ?thesis
    by (auto simp: writer_step_def Let_def split: if_splits option.splits msg.splits intro!: table_ok_fail)
next
  case (heartbeat now drawn acts go)
  with ok show ?thesis
    by (auto simp: heartbeat_tick_def Let_def split: if_splits intro!: table_ok_fail)
next
  case (action act)
  with ok show ?thesis by (auto simp: perform_def dest: enqueue_table split: link_action.splits)
next
  case (opened sid target is_udp ref acts)
  with ok show ?thesis
    by (auto simp: openSession_def Let_def split_beta split: if_splits intro!: table_ok_emplace)
next
  case (sess_shutdown ref)
  with shutdownWrite_erases [of L "view_of l" "lk_store l ! ref"] show ?thesis
    using table_ok_with_session [OF ok, of "shutdownWrite L (view_of l) (lk_store l ! ref)" ref] by auto
next
  case (sess_close ref)
  have "view_of l \<noteq> LinkGone" by (simp add: view_of_def)
  from session_close_erases [OF this, of C L "lk_store l ! ref"] sess_close show ?thesis
    using table_ok_with_session [OF ok, of "session_close C L (view_of l) (lk_store l ! ref)" ref] by auto
next
  case (sess_read ref n bs s calls)
  with session_read_keeps [OF sess_read(3)] table_ok_with_session [OF ok, of "(s, calls)" ref]
  show ?thesis by auto
next
  case (sess_write ref pc d pc' d' s calls)
  with write_step_keeps [OF sess_write(3)] table_ok_with_session [OF ok, of "(s, calls)" ref]
  show ?thesis by auto
next
  case (sess_send_to ref d target r s calls)
  with sendTo_keeps [OF sess_send_to(3)] table_ok_with_session [OF ok, of "(s, calls)" ref]
  show ?thesis by auto
next
  case (sess_receive_from ref r s)
  with receiveFrom_keeps [OF sess_receive_from(3)] table_ok_with_session [OF ok, of "(s, [])" ref]
  show ?thesis by auto
qed (auto simp: link_start_def waitHandshake_def markClosed_def closeNow_def closeNow_posted_def
       split: if_splits intro!: table_ok_fail)

text \<open>C8. The session table of a link is sound in every interleaving of its coroutines and of the users
  of its sessions: from a new link on, looking up an identifier yields a session object that has
  that identifier and is not closed. So a frame is only ever handed to a live session it was
  addressed to.\<close>

theorem session_table_sound:
  assumes "(link_step C L)\<^sup>*\<^sup>* (new_link C opts) l" and "findSession sid l = Some ref"
  shows "ref < length (lk_store l) \<and> sess_sid (lk_store l ! ref) = sid
    \<and> sess_state (lk_store l ! ref) \<noteq> Closed"
proof -
  have "table_ok l"
    using assms(1)
  proof (induction rule: rtranclp_induct)
    case base
    show ?case by (simp add: table_ok_def new_link_def)
  next
    case (step y z)
    then show ?case using table_ok_step by blast
  qed
  from findSession_ok [OF this assms(2)] show ?thesis by (simp add: entry_ok_def)
qed

definition example_session :: "list_chan session" where
  "example_session = new_session list_chan_api 7 (fromDomain ''a'' 80) kDefaultInitWindow kDefaultInitWindow TCP"

definition example_opened :: "list_chan link" where
  "example_opened = example_link\<lparr>lk_store := [example_session], lk_sessions := [(7, 0)]\<rparr>"

lemma example_opened_step: "link_step list_chan_api absl_ref example_link example_opened"
proof -
  have "openSession list_chan_api absl_ref 7 (fromDomain ''a'' 80) False example_link
      = Inr (0, example_opened, [SendFrame (encodeNew absl_ref [] 7 (toBinary (fromDomain ''a'' 80)) kDefaultInitWindow)])"
    by (simp add: openSession_def example_link_def new_link_def default_link_options_def example_opened_def
          emplaceSession_def example_session_def Let_def)
  then show ?thesis by (rule link_step.opened)
qed

theorem session_table_sound_witness:
  "findSession 7 example_opened = Some 0 \<and> sess_sid (lk_store example_opened ! 0) = 7"
proof -
  have "(link_step list_chan_api absl_ref)\<^sup>*\<^sup>* (new_link list_chan_api default_link_options) example_opened"
    using example_opened_step by (simp add: example_link_def)
  moreover have found: "findSession 7 example_opened = Some 0"
    by (simp add: findSession_def example_opened_def)
  ultimately show ?thesis using session_table_sound by blast
qed

text \<open>C37. Failing a link ends everything on it: after \<^verbatim>\<open>failLink\<close> on a live link with a sound table the
  link is closed, its socket too, the table is empty, every session that was in it is closed and
  reads as end of file once its last payload is used up, and no frame is enqueued any more.\<close>

theorem fail_link_resets:
  assumes "table_ok l" and "\<not> lk_closed l" and "(sid, ref) \<in> set (lk_sessions l)"
  shows "lk_closed (failLink C reason l) \<and> \<not> lk_sock_open (failLink C reason l)
    \<and> findSession sid (failLink C reason l) = None
    \<and> sess_state (lk_store (failLink C reason l) ! ref) = Closed
    \<and> enqueueFrame C w (failLink C reason l) = Some (failLink C reason l)
    \<and> (leftover (lk_store (failLink C reason l) ! ref) = None \<longrightarrow>
         session_read C L LinkClosed n (lk_store (failLink C reason l) ! ref)
           = Done ([], lk_store (failLink C reason l) ! ref, []))"
proof -
  have refs: "\<forall>r \<in> set (map snd (lk_sessions l)). r < length (lk_store l)"
    using assms(1) by (auto simp: table_ok_def list_all_iff entry_ok_def)
  have "ref \<in> set (map snd (lk_sessions l))" "ref < length (lk_store l)"
    using assms(3) refs by force+
  with reset_fold [OF refs, of C] have "sess_state (lk_store (failLink C reason l) ! ref) = Closed"
    using assms(2) by (simp add: failLink_def Let_def)
  then show ?thesis
    using assms(2)
    by (simp add: failLink_def Let_def findSession_def enqueueFrame_def session_read_def read_inbox_def)
qed

theorem fail_link_resets_witness:
  "sess_state (lk_store (failLink list_chan_api ''eof'' example_opened) ! 0) = Closed
   \<and> findSession 7 (failLink list_chan_api ''eof'' example_opened) = None"
proof -
  have "table_ok example_opened"
    by (simp add: table_ok_def example_opened_def entry_ok_def example_session_def)
  moreover have "\<not> lk_closed example_opened"
    by (simp add: example_opened_def example_link_def new_link_def)
  moreover have "(7, 0) \<in> set (lk_sessions example_opened)" by (simp add: example_opened_def)
  ultimately show ?thesis using fail_link_resets [of example_opened 7 0 list_chan_api "''eof''"] by blast
qed

end
