(* ===== verification/Heartbeat.thy ===== *)
theory Heartbeat
  imports Link
begin

text \<open>
  The heartbeat of a link (\<^verbatim>\<open>Link::heartbeatLoop\<close>) over the times of its ticks: a peer that has stopped
  answering is noticed, and a link is only given up for a ping that was not answered in time.
\<close>

fun heartbeat_run :: "'q chan_api \<Rightarrow> absl \<Rightarrow> (u64 \<times> u64) list \<Rightarrow> 'q link \<Rightarrow> 'q link" where
  "heartbeat_run C L [] l = l"
| "heartbeat_run C L ((now, drawn) # ticks) l =
     (if lk_closed l then l
      else case heartbeat_tick C L now drawn l of
             (l', acts, go) \<Rightarrow> if go then heartbeat_run C L ticks l' else l')"

lemma elapsed_iff: "t \<le> now \<Longrightarrow> w < now - t \<longleftrightarrow> unat t + unat w < unat (now :: u64)"
  by (simp add: word_less_nat_alt word_le_nat_alt unat_sub less_diff_conv add.commute)

lemma seconds_ns:
  assumes "p * 1000000000 < 2 ^ 64"
  shows "unat (word_of_int (int p) * 1000000000 :: u64) = p * 1000000000"
proof -
  have "(word_of_int (int p) * 1000000000 :: u64) = of_nat (p * 1000000000)" by simp
  also have "unat \<dots> = p * 1000000000" using assms by (simp only: unat_of_nat) simp
  finally show ?thesis .
qed

lemma fail_closed [simp]: "lk_closed (failLink C reason l)"
  by (simp add: failLink_def Let_def)

text \<open>What one tick does once the handshake is done, in seconds since the ticks it looks back to.\<close>

lemma tick_pending:
  assumes "lk_handshake_done l" "lk_pending_ping_nonce l \<noteq> 0" "lk_last_ping_sent_ns l \<le> now"
    and "opt_pong_timeout (lk_opts l) = int q" "q * 1000000000 < 2 ^ 64"
  shows "heartbeat_tick C L now drawn l =
    (if unat (lk_last_ping_sent_ns l) + q * 1000000000 < unat now
     then (failLink C ''ping timeout'' l, [], False) else (l, [], True))"
  using assms(1-4) seconds_ns [OF assms(5)] by (simp add: heartbeat_tick_def Let_def elapsed_iff)

lemma tick_idle:
  assumes "lk_handshake_done l" "lk_pending_ping_nonce l = 0" "lk_last_pong_ns l \<le> now"
    and "opt_ping_interval (lk_opts l) = int p" "p * 1000000000 < 2 ^ 64"
  shows "heartbeat_tick C L now drawn l =
    (if unat (lk_last_pong_ns l) + p * 1000000000 < unat now
     then (l\<lparr>lk_pending_ping_nonce := (if drawn = 0 then 1 else drawn), lk_last_ping_sent_ns := now\<rparr>,
           [SendFrame (encodePing L [] (if drawn = 0 then 1 else drawn))], True)
     else (l, [], True))"
  using assms(1-4) seconds_ns [OF assms(5)] by (simp add: heartbeat_tick_def Let_def elapsed_iff)

lemma pending_times_out:
  assumes "lk_handshake_done l" "lk_pending_ping_nonce l \<noteq> 0"
    and "opt_pong_timeout (lk_opts l) = int q" "q * 1000000000 < 2 ^ 64"
    and "\<forall>t \<in> set ticks. lk_last_ping_sent_ns l \<le> fst t"
    and "\<exists>t \<in> set ticks. unat (lk_last_ping_sent_ns l) + q * 1000000000 < unat (fst t)"
  shows "lk_closed (heartbeat_run C L ticks l)"
  using assms(5,6)
proof (induction ticks)
  case (Cons t ticks)
  obtain now drawn where t: "t = (now, drawn)" by (cases t)
  from tick_pending [OF assms(1,2) _ assms(3,4), of now C L drawn] Cons t show ?case by auto
qed simp


definition ready_link :: "list_chan link" where
  "ready_link = (new_link list_chan_api default_link_options)\<lparr>lk_handshake_done := True\<rparr>"


text \<open>The heartbeat closes a link only for an unanswered ping: a tick that closes an open link finds
  a ping outstanding that was sent more than the pong timeout ago; and since answering it with a
  PONG clears it, a link whose pings are answered before the timeout stays open.\<close>

theorem heartbeat_gives_up_only_on_timeout:
  assumes "\<not> lk_closed l" and "lk_last_ping_sent_ns l \<le> now"
    and "opt_pong_timeout (lk_opts l) = int q" and "q * 1000000000 < 2 ^ 64"
    and "lk_closed (fst (heartbeat_tick C L now drawn l))"
  shows "lk_pending_ping_nonce l \<noteq> 0 \<and> unat (lk_last_ping_sent_ns l) + q * 1000000000 < unat now
    \<and> (\<exists>l'. dispatchFrame C L now (PongFrame (lk_pending_ping_nonce l)) l = Done (l', [])
         \<and> \<not> lk_closed (fst (heartbeat_tick C L now drawn l')))"
proof -
  have ready: "lk_handshake_done l" using assms(1,5) by (auto simp: heartbeat_tick_def split: if_splits)
  have pending: "lk_pending_ping_nonce l \<noteq> 0"
    using assms(1,5) by (auto simp: heartbeat_tick_def Let_def split: if_splits)
  have "unat (lk_last_ping_sent_ns l) + q * 1000000000 < unat now"
    using tick_pending [OF ready pending assms(2-4), of C L drawn] assms(1,5) by (auto split: if_splits)
  moreover have "\<not> lk_closed (fst (heartbeat_tick C L now drawn
      (l\<lparr>lk_pending_ping_nonce := 0, lk_last_pong_ns := now\<rparr>)))"
    using assms(1) by (simp add: heartbeat_tick_def Let_def)
  ultimately show ?thesis using pending by (simp add: dispatchFrame_def)
qed

theorem heartbeat_gives_up_only_on_timeout_witness:
  "\<exists>l'. dispatchFrame list_chan_api absl_ref 11000000000 (PongFrame 5) (ready_link\<lparr>lk_pending_ping_nonce := 5\<rparr>)
      = Done (l', [])
    \<and> \<not> lk_closed (fst (heartbeat_tick list_chan_api absl_ref 11000000000 3 l'))"
proof -
  let ?l = "ready_link\<lparr>lk_pending_ping_nonce := 5\<rparr>"
  have l: "\<not> lk_closed ?l" "lk_handshake_done ?l" "lk_pending_ping_nonce ?l = 5" "lk_last_ping_sent_ns ?l = 0"
    "opt_pong_timeout (lk_opts ?l) = int 10"
    by (simp_all add: ready_link_def new_link_def default_link_options_def)
  have "heartbeat_tick list_chan_api absl_ref 11000000000 3 ?l = (failLink list_chan_api ''ping timeout'' ?l, [], False)"
    using tick_pending [OF l(2) _ _ l(5), of 11000000000 list_chan_api absl_ref 3] l by simp
  then have "lk_closed (fst (heartbeat_tick list_chan_api absl_ref 11000000000 3 ?l))" by simp
  from heartbeat_gives_up_only_on_timeout [OF l(1) _ l(5) _ this] l(3,4) show ?thesis by simp
qed

end
