(* ===== verification/Handshake.thy ===== *)
theory Handshake
  imports Link
begin

text \<open>
  The handshake of a link (\<^verbatim>\<open>Link::handshakeServer\<close> and \<^verbatim>\<open>Link::handshakeClient\<close>): what a server that
  requires a password has received when it accepts a link, and that the two sides of a link with
  the same password finish the handshake however the bytes between them are cut.
\<close>

fun rx_bytes :: "rx list \<Rightarrow> bytes" where
  "rx_bytes (RxBytes bs # rxs) = bs @ rx_bytes rxs"
| "rx_bytes _ = []"

text \<open>Reads as the socket makes them: no more bytes than asked for.\<close>

definition rx_ok :: "rx list \<Rightarrow> bool" where
  "rx_ok rxs \<longleftrightarrow> (\<forall>bs. RxBytes bs \<in> set rxs \<longrightarrow> length bs \<le> 8192)"

lemma rx_ok_Cons [simp]:
  "rx_ok (RxBytes bs # rxs) \<longleftrightarrow> length bs \<le> 8192 \<and> rx_ok rxs" "rx_ok (RxError m # rxs) = rx_ok rxs"
  by (auto simp: rx_ok_def)

lemma read_chunk_8k:
  assumes "link_buffer 8192 rb" "length bs \<le> 8192"
  shows "rb_data (read_some 8192 bs rb) = rb_data rb @ bs" "link_buffer 8192 (read_some 8192 bs rb)"
proof -
  have "length bs \<le> writable_size (ensure_writable 8192 rb)"
    using rb.room_min [OF assms(1)] assms(2) by simp
  then show "rb_data (read_some 8192 bs rb) = rb_data rb @ bs" "link_buffer 8192 (read_some 8192 bs rb)"
    using rb.contents_push [OF assms(1)] rb.invar_push [OF assms(1)] by simp_all
qed

lemma decode_bulk_data:
  "decodeShineFrame L (Resp2BulkFrame b) = Inr f \<Longrightarrow> \<exists>sid p. f = DataFrame sid p"
  by (auto simp: decodeShineFrame_def split: if_splits)

lemma view_after_control:
  assumes "decodeShineFrame L (view_after n rb rf) = Inr f" "\<nexists>sid p. f = DataFrame sid p"
  shows "decodeShineFrame L rf = Inr f"
  using assms by (cases rf) (auto simp: view_after_def dest: decode_bulk_data)

text \<open>A control frame that was received is the frame the received bytes start with.\<close>

lemma recv_one_sound:
  assumes "recv_one L m rxs rb = Some (Inr f, rb', rest)" "\<nexists>sid p. f = DataFrame sid p"
    and "link_buffer 8192 rb" "rx_ok rxs"
  shows "\<exists>n rf. tryParse L m (rb_data rb @ rx_bytes rxs) = Inr (n, rf) \<and> 0 < n
    \<and> decodeShineFrame L rf = Inr f
    \<and> rb_data rb' @ rx_bytes rest = drop n (rb_data rb @ rx_bytes rxs)
    \<and> link_buffer 8192 rb' \<and> rx_ok rest"
  using assms
proof (induction rxs arbitrary: rb)
  case Nil
  then obtain n rf where p: "tryParse L m (rb_data rb) = Inr (n, rf)" "0 < n"
    "decodeShineFrame L (view_after n rb rf) = Inr f" "rb' = consume n rb" "rest = []"
    by (subst (asm) recv_one.simps) (auto split: sum.splits if_splits)
  with view_after_control [OF p(3) Nil.prems(2)] Nil.prems(4) show ?case
    by (simp add: rb.contents_pop [OF Nil.prems(3)] rb.invar_pop [OF Nil.prems(3)])
next
  case (Cons rx rxs)
  show ?case
  proof (cases "tryParse L m (rb_data rb)")
    case (Inl e)
    with Cons.prems(1) show ?thesis by (subst (asm) recv_one.simps) simp
  next
    case (Inr y)
    then obtain n rf where y: "tryParse L m (rb_data rb) = Inr (n, rf)" by (cases y) auto
    show ?thesis
    proof (cases "n = 0")
      case False
      then have n: "0 < n" "n \<le> length (rb_data rb)" using tryParse_bounds [OF y] by auto
      with Cons.prems(1) y have p: "decodeShineFrame L (view_after n rb rf) = Inr f" "rb' = consume n rb"
        "rest = rx # rxs" by (subst (asm) recv_one.simps; simp)+
      with n Cons.prems(4) view_after_control [OF p(1) Cons.prems(2)] tryParse_stable_frame [OF y n(1)]
      show ?thesis
        by (simp add: rb.contents_pop [OF Cons.prems(3)] rb.invar_pop [OF Cons.prems(3)])
    next
      case True
      with Cons.prems(1) y obtain bs where bs: "rx = RxBytes bs" "bs \<noteq> []"
        "recv_one L m rxs (read_some 8192 bs rb) = Some (Inr f, rb', rest)"
        by (subst (asm) recv_one.simps) (auto split: rx.splits if_splits)
      with Cons.prems have "length bs \<le> 8192" "rx_ok rxs" by auto
      with Cons.IH [OF bs(3) Cons.prems(2)] read_chunk_8k [OF Cons.prems(3)] bs show ?thesis by simp
    qed
  qed
qed

lemma handshakeServer_done:
  assumes "handshakeServer L opts rxs rb = HsDone sent rb' rest" "opt_password opts \<noteq> []"
  shows "\<exists>v fs rb1 rxs1.
    recv_one L (opt_max_payload opts) rxs rb = Some (Inr (HelloFrame v fs), rb1, rxs1)
    \<and> recv_one L (opt_max_payload opts) rxs1 rb1 = Some (Inr (AuthFrame (opt_password opts)), rb', rest)"
proof (cases "recv_one L (opt_max_payload opts) rxs rb")
  case None
  with assms show ?thesis by (simp add: handshakeServer_def)
next
  case (Some x)
  then obtain r rb1 rxs1 where one: "recv_one L (opt_max_payload opts) rxs rb = Some (r, rb1, rxs1)"
    by (cases x) auto
  show ?thesis
  proof (cases "\<exists>v fs. r = Inr (HelloFrame v fs)")
    case False
    with assms one show ?thesis
      by (cases r; cases "projr r") (auto simp: handshakeServer_def)
  next
    case True
    then obtain v fs where r: "r = Inr (HelloFrame v fs)" by blast
    show ?thesis
    proof (cases "recv_one L (opt_max_payload opts) rxs1 rb1")
      case None
      with assms one r show ?thesis by (simp add: handshakeServer_def)
    next
      case (Some y)
      then obtain q rb2 rxs2 where two: "recv_one L (opt_max_payload opts) rxs1 rb1 = Some (q, rb2, rxs2)"
        by (cases y) auto
      with assms one r show ?thesis
        by (cases q; cases "projr q") (auto simp: handshakeServer_def Let_def split: if_splits)
    qed
  qed
qed


section \<open>Completion\<close>

definition chunks_ok :: "bytes list \<Rightarrow> bool" where
  "chunks_ok cs \<longleftrightarrow> (\<forall>c \<in> set cs. c \<noteq> [] \<and> length c \<le> 8192)"

lemma chunks_ok_Cons [simp]: "chunks_ok (c # cs) \<longleftrightarrow> c \<noteq> [] \<and> length c \<le> 8192 \<and> chunks_ok cs"
  by (auto simp: chunks_ok_def)

lemma chunks_empty: "chunks_ok cs \<Longrightarrow> concat cs = [] \<Longrightarrow> cs = []"
  by (cases cs) auto

lemma recv_one_complete:
  assumes "tryParse L m (rb_data rb @ concat cs) = Inr (n, Resp2ArrayFrame es)" "0 < n"
    and "link_buffer 8192 rb" "chunks_ok cs"
  shows "\<exists>rb' rest. recv_one L m (map RxBytes cs) rb
      = Some (decodeShineFrame L (Resp2ArrayFrame es), rb', map RxBytes rest)
    \<and> rb_data rb' @ concat rest = drop n (rb_data rb @ concat cs)
    \<and> link_buffer 8192 rb' \<and> chunks_ok rest"
  using assms
proof (induction cs arbitrary: rb)
  case Nil
  then have "recv_one L m [] rb = Some (decodeShineFrame L (Resp2ArrayFrame es), consume n rb, [])"
    by (subst recv_one.simps) (simp add: view_after_def)
  then show ?case
    using Nil rb.contents_pop [OF Nil.prems(3)] rb.invar_pop [OF Nil.prems(3)]
    by (intro exI [of _ "consume n rb"] exI [of _ "[]"]) (simp add: chunks_ok_def)
next
  case (Cons c cs)
  show ?case
  proof (cases "tryParse L m (rb_data rb)")
    case (Inl e)
    from tryParse_stable_error [OF this, of "concat (c # cs)"] Cons.prems(1) show ?thesis by simp
  next
    case (Inr y)
    then obtain k rf where y: "tryParse L m (rb_data rb) = Inr (k, rf)" by (cases y) auto
    show ?thesis
    proof (cases "k = 0")
      case False
      then have k: "k = n" "rf = Resp2ArrayFrame es" "n \<le> length (rb_data rb)"
        using tryParse_stable_frame [OF y, of "concat (c # cs)"] Cons.prems(1) tryParse_bounds [OF y] by auto
      then have "recv_one L m (map RxBytes (c # cs)) rb
          = Some (decodeShineFrame L (Resp2ArrayFrame es), consume n rb, map RxBytes (c # cs))"
        using y Cons.prems(2) by (subst recv_one.simps) (simp add: view_after_def)
      then show ?thesis
        using Cons.prems k rb.contents_pop [OF Cons.prems(3)] rb.invar_pop [OF Cons.prems(3)]
        by (intro exI [of _ "consume n rb"] exI [of _ "c # cs"]) simp
    next
      case True
      have c: "c \<noteq> []" "length c \<le> 8192" "chunks_ok cs" using Cons.prems(4) by auto
      have "recv_one L m (map RxBytes (c # cs)) rb = recv_one L m (map RxBytes cs) (read_some 8192 c rb)"
        using y True c by (subst recv_one.simps) simp
      with Cons.IH [of "read_some 8192 c rb"] Cons.prems c read_chunk_8k [OF Cons.prems(3) c(2)]
      show ?thesis by simp
    qed
  qed
qed

lemma recv_control_frame:
  assumes "absl_laws L" "frame_fits m f" "frame_value f = Resp2ArrayFrame es"
    and "rb_data rb @ concat cs = as_bytes (encodeFrame L f) @ more_bytes"
    and "link_buffer 8192 rb" "chunks_ok cs"
  shows "\<exists>rb' rest. recv_one L m (map RxBytes cs) rb = Some (Inr f, rb', map RxBytes rest)
    \<and> rb_data rb' @ concat rest = more_bytes \<and> link_buffer 8192 rb' \<and> chunks_ok rest"
proof -
  have w: "as_bytes (encodeFrame L f) = resp2_wire L (Resp2ArrayFrame es)"
    using assms(3) by (simp add: encodeFrame_wire)
  have valid: "resp2_valid m (Resp2ArrayFrame es)" using assms(2,3) by (simp add: frame_fits_def)
  from absl_laws.resp2_laws(1) [OF assms(1) valid, of more_bytes] assms(4) w
  have parse: "tryParse L m (rb_data rb @ concat cs) = Inr (length (as_bytes (encodeFrame L f)), Resp2ArrayFrame es)"
    by simp
  have pos: "0 < length (as_bytes (encodeFrame L f))"
    using tryParse_bounds [OF parse] by (metis neq0_conv resp2_frame.distinct(3))
  from recv_one_complete [OF parse pos assms(5,6)] decode_frame_value [of L f] assms(3,4)
  show ?thesis by simp
qed

definition client_frames :: "absl \<Rightarrow> string \<Rightarrow> string list" where
  "client_frames L pw = hello_frame L # (if pw \<noteq> [] then [encodeAuth L [] pw] else [])"

definition server_frames :: "absl \<Rightarrow> string \<Rightarrow> string list" where
  "server_frames L pw = hello_frame L # (if pw \<noteq> [] then [encodeOk L []] else [])"

definition handshake_limits :: "link_options \<Rightarrow> bool" where
  "handshake_limits opts \<longleftrightarrow> 8 \<le> opt_max_payload opts \<and> length (opt_password opts) \<le> opt_max_payload opts
     \<and> opt_max_payload opts < 2 ^ 63"

lemma handshake_frames_fit:
  assumes "handshake_limits opts"
  shows "frame_fits (opt_max_payload opts) (HelloFrame ''1'' ''mux,flow'')"
    "frame_fits (opt_max_payload opts) (AuthFrame (opt_password opts))"
    "frame_fits (opt_max_payload opts) OkFrame"
  using assms by (simp_all add: handshake_limits_def frame_fits_def resp2_valid_def)

lemma new_buffer_8k: "link_buffer 8192 (new_read_buffer (16 * 1024))" "rb_data (new_read_buffer (16 * 1024)) = []"
  by (simp_all add: link_buffer_def new_read_buffer_def rb_ok_def rb_data_def rb_avail_def)

lemma server_completes:
  assumes "absl_laws L" "handshake_limits opts" "chunks_ok cs"
    and "concat cs = as_bytes (concat (client_frames L (opt_password opts)))"
  shows "\<exists>rb. handshakeServer L opts (map RxBytes cs) (new_read_buffer (16 * 1024))
      = HsDone (server_frames L (opt_password opts)) rb [] \<and> rb_data rb = []"
proof -
  let ?m = "opt_max_payload opts" and ?pw = "opt_password opts"
  let ?auth = "if ?pw \<noteq> [] then as_bytes (encodeAuth L [] ?pw) else []"
  have stream: "rb_data (new_read_buffer (16 * 1024)) @ concat cs
      = as_bytes (encodeFrame L (HelloFrame ''1'' ''mux,flow'')) @ ?auth"
    using assms(4) new_buffer_8k by (simp add: client_frames_def hello_frame_def)
  from recv_control_frame [OF assms(1) handshake_frames_fit(1) [OF assms(2)] _ stream new_buffer_8k(1) assms(3)]
  obtain rb1 rest where one: "recv_one L ?m (map RxBytes cs) (new_read_buffer (16 * 1024))
      = Some (Inr (HelloFrame ''1'' ''mux,flow''), rb1, map RxBytes rest)"
    "rb_data rb1 @ concat rest = ?auth" "link_buffer 8192 rb1" "chunks_ok rest" by auto
  show ?thesis
  proof (cases "?pw = []")
    case True
    with one chunks_empty [OF one(4)] show ?thesis
      by (simp add: handshakeServer_def server_frames_def)
  next
    case False
    then have auth: "rb_data rb1 @ concat rest = as_bytes (encodeFrame L (AuthFrame ?pw)) @ []"
      using one(2) by simp
    from recv_control_frame [OF assms(1) handshake_frames_fit(2) [OF assms(2)] _ auth one(3,4)]
    obtain rb2 rest2 where "recv_one L ?m (map RxBytes rest) rb1 = Some (Inr (AuthFrame ?pw), rb2, map RxBytes rest2)"
      "rb_data rb2 @ concat rest2 = []" "chunks_ok rest2" by auto
    with one False chunks_empty [of rest2] show ?thesis
      by (simp add: handshakeServer_def server_frames_def Let_def)
  qed
qed

lemma client_completes:
  assumes "absl_laws L" "handshake_limits opts" "chunks_ok cs"
    and "concat cs = as_bytes (concat (server_frames L (opt_password opts)))"
  shows "\<exists>rb. handshakeClient L opts (map RxBytes cs) (new_read_buffer (16 * 1024))
      = HsDone (client_frames L (opt_password opts)) rb [] \<and> rb_data rb = []"
proof -
  let ?m = "opt_max_payload opts" and ?pw = "opt_password opts"
  let ?ok = "if ?pw \<noteq> [] then as_bytes (encodeOk L []) else []"
  have stream: "rb_data (new_read_buffer (16 * 1024)) @ concat cs
      = as_bytes (encodeFrame L (HelloFrame ''1'' ''mux,flow'')) @ ?ok"
    using assms(4) new_buffer_8k by (simp add: server_frames_def hello_frame_def)
  from recv_control_frame [OF assms(1) handshake_frames_fit(1) [OF assms(2)] _ stream new_buffer_8k(1) assms(3)]
  obtain rb1 rest where one: "recv_one L ?m (map RxBytes cs) (new_read_buffer (16 * 1024))
      = Some (Inr (HelloFrame ''1'' ''mux,flow''), rb1, map RxBytes rest)"
    "rb_data rb1 @ concat rest = ?ok" "link_buffer 8192 rb1" "chunks_ok rest" by auto
  show ?thesis
  proof (cases "?pw = []")
    case True
    with one chunks_empty [OF one(4)] show ?thesis
      by (simp add: handshakeClient_def client_frames_def)
  next
    case False
    then have ok: "rb_data rb1 @ concat rest = as_bytes (encodeFrame L OkFrame) @ []"
      using one(2) by simp
    from recv_control_frame [OF assms(1) handshake_frames_fit(3) [OF assms(2)] _ ok one(3,4)]
    obtain rb2 rest2 where "recv_one L ?m (map RxBytes rest) rb1 = Some (Inr OkFrame, rb2, map RxBytes rest2)"
      "rb_data rb2 @ concat rest2 = []" "chunks_ok rest2" by auto
    with one False chunks_empty [of rest2] show ?thesis
      by (simp add: handshakeClient_def client_frames_def Let_def)
  qed
qed

text \<open>C22. The two sides of a link agree: when client and server are configured with the same password
  (or both with none), each completes the handshake on the frames the other one sends during its
  handshake, in whatever pieces they arrive, sends exactly its own frames, and is left with an
  empty read buffer for the reader loop.\<close>

theorem handshake_agrees:
  assumes "absl_laws L" and "handshake_limits so" and "handshake_limits co"
    and "opt_password so = opt_password co"
    and "chunks_ok cs" and "concat cs = as_bytes (concat (client_frames L (opt_password co)))"
    and "chunks_ok ss" and "concat ss = as_bytes (concat (server_frames L (opt_password so)))"
  shows "(\<exists>rb. handshakeServer L so (map RxBytes cs) (new_read_buffer (16 * 1024))
        = HsDone (server_frames L (opt_password so)) rb [] \<and> rb_data rb = [])
    \<and> (\<exists>rb. handshakeClient L co (map RxBytes ss) (new_read_buffer (16 * 1024))
        = HsDone (client_frames L (opt_password co)) rb [] \<and> rb_data rb = [])"
  using server_completes [OF assms(1,2,5)] client_completes [OF assms(1,3,7)] assms(4,6,8) by simp

definition secret_options :: link_options where
  "secret_options = default_link_options\<lparr>opt_password := ''pw''\<rparr>"

lemma secret_limits: "handshake_limits secret_options" "opt_password secret_options = ''pw''"
  by (simp_all add: handshake_limits_def secret_options_def default_link_options_def)

lemma one_chunk: "length s = n \<Longrightarrow> 0 < n \<Longrightarrow> n \<le> 8192 \<Longrightarrow> chunks_ok [as_bytes s]"
  by (auto simp: chunks_ok_def)

lemma secret_chunks:
  "chunks_ok [as_bytes (concat (client_frames absl_ref ''pw''))]"
  "chunks_ok [as_bytes (concat (server_frames absl_ref ''pw''))]"
proof -
  have len: "length (concat (client_frames absl_ref ''pw'')) = 58"
    "length (concat (server_frames absl_ref ''pw'')) = 48" by code_simp+
  show "chunks_ok [as_bytes (concat (client_frames absl_ref ''pw''))]"
    by (rule one_chunk [OF len(1)]) simp_all
  show "chunks_ok [as_bytes (concat (server_frames absl_ref ''pw''))]"
    by (rule one_chunk [OF len(2)]) simp_all
qed

theorem handshake_agrees_witness:
  "\<exists>rb. handshakeServer absl_ref secret_options
      [RxBytes (as_bytes (concat (client_frames absl_ref ''pw'')))] (new_read_buffer (16 * 1024))
    = HsDone [hello_frame absl_ref, encodeOk absl_ref []] rb []"
  using handshake_agrees [OF absl_ref_laws secret_limits(1) secret_limits(1) refl,
      of "[as_bytes (concat (client_frames absl_ref ''pw''))]" "[as_bytes (concat (server_frames absl_ref ''pw''))]"]
    secret_chunks secret_limits(2)
  by (auto simp: server_frames_def)

definition secret_link :: "list_chan link" where
  "secret_link = new_link list_chan_api secret_options"


text \<open>A client with a password never completes against a server without one: such a server does not
  read AUTH during the handshake and never answers OK, so the client waits until its timer fires.\<close>

lemma password_client_waits:
  assumes "absl_laws L" "handshake_limits opts" "opt_password opts \<noteq> []" "chunks_ok cs"
    and "concat cs = as_bytes (concat (server_frames L []))"
  shows "handshakeClient L opts (map RxBytes cs) (new_read_buffer (16 * 1024))
    = HsWaiting (client_frames L (opt_password opts))"
proof -
  let ?m = "opt_max_payload opts"
  have stream: "rb_data (new_read_buffer (16 * 1024)) @ concat cs
      = as_bytes (encodeFrame L (HelloFrame ''1'' ''mux,flow'')) @ []"
    using assms(5) new_buffer_8k by (simp add: server_frames_def hello_frame_def)
  from recv_control_frame [OF assms(1) handshake_frames_fit(1) [OF assms(2)] _ stream new_buffer_8k(1) assms(4)]
  obtain rb1 rest where one: "recv_one L ?m (map RxBytes cs) (new_read_buffer (16 * 1024))
      = Some (Inr (HelloFrame ''1'' ''mux,flow''), rb1, map RxBytes rest)"
    "rb_data rb1 @ concat rest = []" "chunks_ok rest" by auto
  then have "rest = []" "rb_data rb1 = []" using chunks_empty by auto
  then have "recv_one L ?m (map RxBytes rest) rb1 = None"
    by (subst recv_one.simps) (simp add: tryParse_def)
  with one assms(3) show ?thesis by (simp add: handshakeClient_def client_frames_def Let_def)
qed

end
