(* ===== verification/Session_Typing.thy ===== *)
theory Session_Typing
  imports Link
begin

text \<open>
  A session owns three channels by pointer, and its constructor creates only those of its protocol
  (\<^verbatim>\<open>Session::Session\<close> in \<^verbatim>\<open>transport/session.cpp\<close>). The methods dereference them without a test. The
  protocol is a type for a session, and this theory is its type soundness: every step of a link
  preserves the typing of every session object, and a well-typed session can be used by the methods
  of its protocol.
\<close>

section \<open>Typing\<close>

fun well_typed :: "'q session \<Rightarrow> bool" where
  "well_typed s \<longleftrightarrow>
     (case sess_protocol s of
        TCP \<Rightarrow> inbox s \<noteq> None \<and> credit_signal s \<noteq> None \<and> udp_inbox s = None
      | UDP \<Rightarrow> inbox s = None \<and> credit_signal s = None \<and> udp_inbox s \<noteq> None)"

text \<open>The protocol with the presence of the channels; no method changes it.\<close>

definition shape :: "'q session \<Rightarrow> protocol \<times> bool \<times> bool \<times> bool" where
  "shape s = (sess_protocol s, inbox s = None, udp_inbox s = None, credit_signal s = None)"

lemma well_typed_shape: "shape s' = shape s \<Longrightarrow> well_typed s' = well_typed s"
  by (auto simp: shape_def split: protocol.splits)

lemma new_session_typed: "well_typed (new_session C sid target peer our proto)"
  by (cases proto) (simp_all add: new_session_def)

section \<open>Preservation\<close>

named_theorems shape_dests

lemma close_chan_None [simp]: "close_chan C q = None \<longleftrightarrow> q = None"
  by (simp add: close_chan_def)

lemma read_account_shape: "read_account L lk d s = Done (bs, s', calls) \<Longrightarrow> shape s' = shape s"
  by (auto simp: read_account_def maybeSendWindow_def Let_def shape_def split: if_splits)

lemma read_inbox_shape: "read_inbox C L lk n s = Done (bs, s', calls) \<Longrightarrow> shape s' = shape s"
  by (auto simp: read_inbox_def Let_def shape_def
        split: option.splits if_splits prod.splits msg.splits dest!: read_account_shape)

lemma session_read_shape [shape_dests]:
  "session_read C L lk n s = Done (bs, s', calls) \<Longrightarrow> shape s' = shape s"
  by (auto simp: session_read_def Let_def split: option.splits if_splits
        dest!: read_account_shape read_inbox_shape) (auto simp: shape_def)

lemma write_step_shape [shape_dests]:
  "write_step C L k lk pc d s = WriteStep pc' d' s' calls \<Longrightarrow> shape s' = shape s"
  by (cases rule: write_step_cases [of C L k lk pc d s pc' d' s' calls]) (auto simp: shape_def)

lemma receiveFrom_shape [shape_dests]: "receiveFrom C s = Done (r, s') \<Longrightarrow> shape s' = shape s"
  by (auto simp: receiveFrom_def shape_def split: if_splits option.splits prod.splits msg.splits)

lemma sendTo_shape [shape_dests]: "sendTo L lk d t s = (r, s', calls) \<Longrightarrow> shape s' = shape s"
  by (auto simp: sendTo_def shape_def split: if_splits)

lemma onData_shape [shape_dests]: "onData C p s = Done s' \<Longrightarrow> shape s' = shape s"
  by (auto simp: onData_def shape_def split: if_splits option.splits)

lemma close_shapes [simp]:
  "shape (fst (shutdownWrite L lk s)) = shape s" "shape (fst (session_close C L lk s)) = shape s"
  "shape (onPeerClose C s) = shape s" "shape (onReset C s) = shape s"
  by (auto simp: shutdownWrite_def session_close_def onPeerClose_def onReset_def Let_def shape_def)

lemma frame_shapes [simp]:
  "shape (onWindow C d s) = shape s" "shape (onUdpData C p addr s) = shape s"
  by (auto simp: onWindow_def onUdpData_def shape_def split: option.splits)

text \<open>A link is well typed when all its session objects are, also those no longer in the table.\<close>

definition store_typed :: "'q session list \<Rightarrow> bool" where
  "store_typed st \<longleftrightarrow> (\<forall>s \<in> set st. well_typed s)"

lemma store_typed_update [intro]:
  assumes "store_typed st" and "shape s = shape (st ! ref)" shows "store_typed (st[ref := s])"
proof (cases "ref < length st")
  case True
  with assms have "well_typed s"
    using well_typed_shape [of s "st ! ref"] by (auto simp: store_typed_def simp del: well_typed.simps)
  with assms(1) show ?thesis unfolding store_typed_def using set_update_subset_insert [of st ref s] by blast
qed (use assms in \<open>simp add: list_update_beyond\<close>)

lemma store_typed_append [simp]: "store_typed (st @ [s]) \<longleftrightarrow> store_typed st \<and> well_typed s"
  by (auto simp: store_typed_def simp del: well_typed.simps)

lemma store_typed_emplace:
  "store_typed (lk_store l) \<Longrightarrow> well_typed s \<Longrightarrow> store_typed (lk_store (snd (emplaceSession sid s l)))"
  by (simp add: emplaceSession_def Let_def del: well_typed.simps)

lemma store_typed_with_session:
  "store_typed (lk_store l) \<Longrightarrow> shape (fst r) = shape (lk_store l ! ref) \<Longrightarrow>
   store_typed (lk_store (fst (with_session ref r l)))"
  using session_calls_fields [of "snd r" "l\<lparr>lk_store := (lk_store l)[ref := fst r]\<rparr>"]
  by (auto simp: with_session_def)

lemma store_typed_reset:
  "store_typed st \<Longrightarrow> store_typed (foldl (\<lambda>st ref. st[ref := onReset C (st ! ref)]) st refs)"
  by (induction refs arbitrary: st) (simp_all add: store_typed_update)

lemma store_typed_fail: "store_typed (lk_store l) \<Longrightarrow> store_typed (lk_store (failLink C reason l))"
  by (auto simp: failLink_def Let_def intro: store_typed_reset)

lemma enqueue_store: "enqueueFrame C w l = Some l' \<Longrightarrow> lk_store l' = lk_store l"
  by (auto simp: enqueueFrame_def split: if_splits)

lemma enqueue_all_store: "enqueue_all C ws l = Some l' \<Longrightarrow> lk_store l' = lk_store l"
  by (induction C ws l rule: enqueue_all.induct) (auto dest: enqueue_store split: option.splits)

lemma store_typed_dispatch:
  assumes ok: "store_typed (lk_store l)" and d: "dispatchFrame C L now f l = Done (l', acts)"
  shows "store_typed (lk_store l')"
proof -
  have new: "store_typed (lk_store (fst (newSession C L sid target win proto l)))" for sid target win proto
    using store_typed_emplace [OF ok new_session_typed]
    by (simp add: newSession_def split_beta Let_def)
  show ?thesis
    using d ok new
    by (cases f)
       (auto simp: dispatchFrame_def Let_def eraseSession_def store_typed_update
          split: option.splits sum.splits outcome.splits if_splits dest: onData_shape; metis fst_conv)+
qed

lemma store_typed_step:
  assumes "link_step C L l l'" and ok: "store_typed (lk_store l)"
  shows "store_typed (lk_store l')"
  using assms
proof cases
  case (handshake rxs rest)
  with ok show ?thesis
    by (auto simp: link_handshake_def split: handshake.splits if_splits
          dest!: enqueue_all_store intro!: store_typed_fail)
next
  case (reader now rx acts)
  with ok show ?thesis
    by (auto simp: reader_step_def split: if_splits sum.splits option.splits rx.splits outcome.splits
          dest!: store_typed_dispatch [OF ok])
next
  case (reader_stop now rx)
  with ok show ?thesis
    by (auto simp: reader_step_def split: if_splits sum.splits option.splits rx.splits outcome.splits
          intro!: store_typed_fail)
next
  case (writer io w go)
  with ok show ?thesis
    by (auto simp: writer_step_def Let_def split: if_splits option.splits msg.splits intro!: store_typed_fail)
next
  case (heartbeat now drawn acts go)
  with ok show ?thesis
    by (auto simp: heartbeat_tick_def Let_def split: if_splits intro!: store_typed_fail)
next
  case (action act)
  with ok show ?thesis by (auto simp: perform_def dest: enqueue_store split: link_action.splits)
next
  case (opened sid target is_udp ref acts)
  with ok show ?thesis
    by (auto simp: openSession_def Let_def split_beta simp del: well_typed.simps
          split: if_splits intro!: store_typed_emplace new_session_typed)
qed (auto simp: link_start_def waitHandshake_def markClosed_def closeNow_def closeNow_posted_def
       split: if_splits intro!: store_typed_fail store_typed_with_session [OF ok]
       dest: shape_dests)

lemma store_typed_reachable:
  assumes "(link_step C L)\<^sup>*\<^sup>* (new_link C opts) l" shows "store_typed (lk_store l)"
  using assms
proof (induction rule: rtranclp_induct)
  case base
  show ?case by (simp add: store_typed_def new_link_def)
next
  case (step y z)
  then show ?case using store_typed_step by blast
qed

section \<open>Safety\<close>

lemma typed_tcp:
  assumes "well_typed s" "sess_protocol s = TCP"
  shows "session_read C L lk n s \<noteq> Crash" and "write_step C L k lk pc d s \<noteq> WriteCrash"
  using assms
  by (auto simp: session_read_def read_inbox_def read_account_def write_step_def Let_def split_beta
        split: option.splits msg.splits write_pc.splits)

lemma typed_udp:
  assumes "well_typed s" "sess_protocol s = UDP" shows "receiveFrom C s \<noteq> Crash"
  using assms by (auto simp: receiveFrom_def split: option.splits msg.splits)

text \<open>C9. The protocol of a session is a sound type: in every interleaving of the coroutines of a link
  and the users of its sessions, every session object has exactly the channels of its protocol, so
  \<^verbatim>\<open>read\<close> and \<^verbatim>\<open>write\<close> on a TCP session and \<^verbatim>\<open>receiveFrom\<close> on a UDP session never follow a null
  pointer, at whatever point of their execution and whatever the state of the link.\<close>

theorem sessions_well_typed:
  assumes "(link_step C L)\<^sup>*\<^sup>* (new_link C opts) l" and "ref < length (lk_store l)"
  shows "well_typed (lk_store l ! ref)
    \<and> (case sess_protocol (lk_store l ! ref) of
         TCP \<Rightarrow> session_read C L lk n (lk_store l ! ref) \<noteq> Crash
           \<and> write_step C L k lk pc d (lk_store l ! ref) \<noteq> WriteCrash
       | UDP \<Rightarrow> receiveFrom C (lk_store l ! ref) \<noteq> Crash)"
proof -
  have "well_typed (lk_store l ! ref)"
    using store_typed_reachable [OF assms(1)] assms(2) by (auto simp: store_typed_def simp del: well_typed.simps)
  with typed_tcp [OF this] typed_udp [OF this] show ?thesis by (auto split: protocol.splits)
qed

theorem sessions_well_typed_witness:
  "session_read list_chan_api absl_ref LinkUp 10 (lk_store example_opened ! 0) \<noteq> Crash"
proof -
  have "(link_step list_chan_api absl_ref)\<^sup>*\<^sup>* (new_link list_chan_api default_link_options) example_opened"
    using example_opened_step by (simp add: example_link_def)
  from sessions_well_typed [OF this, of 0 LinkUp 10] show ?thesis
    by (simp add: example_opened_def example_session_def new_session_def)
qed

end
