(* ===== verification/Flow.thy ===== *)
theory Flow
  imports Session
begin

text \<open>
  One direction of a session between two ends of a link, as a transition system over the session
  methods: the sending end runs \<open>write\<close>, its DATA frames travel in order to the receiving end,
  whose application calls \<open>read\<close>, and WINDOW frames travel back. The two lists of frame bytes stand
  for everything between the ends of the link (the writer channel, the TCP connection, the read
  buffer), which keeps the order of frames. The system shows what credit-based flow control is
  for: no byte is lost, reordered or duplicated, the receiver never holds more than the window,
  the credit counters never wrap, no wake-up is lost, and the transfer completes.
\<close>

record 'q flow =
  fl_sender :: "'q session"
  fl_receiver :: "'q session"
  fl_pc :: write_pc
  fl_todo :: bytes
  fl_data_frames :: "string list"
  fl_window_frames :: "string list"
  fl_got :: bytes

definition read_frame :: "absl \<Rightarrow> nat \<Rightarrow> string \<Rightarrow> shine_frame option" where
  "read_frame L m w =
     (case tryParse L m (as_bytes w) of
        Inr (n, rf) \<Rightarrow>
          if n = length w then (case decodeShineFrame L rf of Inr f \<Rightarrow> Some f | Inl _ \<Rightarrow> None) else None
      | Inl _ \<Rightarrow> None)"

fun enqueued :: "link_call list \<Rightarrow> string list" where
  "enqueued [] = []"
| "enqueued (EnqueueFrame w # cs) = w # enqueued cs"
| "enqueued (EraseSession sid # cs) = enqueued cs"

definition flow_init ::
  "'q chan_api \<Rightarrow> u64 \<Rightarrow> u32 \<Rightarrow> u32 \<Rightarrow> bytes \<Rightarrow> 'q flow"
where
  "flow_init C sid credit window data =
     \<lparr>fl_sender = new_session C sid no_address credit credit TCP,
      fl_receiver = new_session C sid no_address credit window TCP,
      fl_pc = AtCheck, fl_todo = data, fl_data_frames = [], fl_window_frames = [], fl_got = []\<rparr>"

inductive flow_step ::
  "'q chan_api \<Rightarrow> absl \<Rightarrow> nat \<Rightarrow> nat \<Rightarrow> 'q flow \<Rightarrow> 'q flow \<Rightarrow> bool"
  for C :: "'q chan_api" and L :: absl and max_payload max_data_frame :: nat
where
  flow_write:
    "write_step C L max_data_frame LinkUp (fl_pc st) (fl_todo st) (fl_sender st)
       = WriteStep pc todo a calls
     \<Longrightarrow> flow_step C L max_payload max_data_frame st
       (st\<lparr>fl_sender := a, fl_pc := pc, fl_todo := todo,
           fl_data_frames := fl_data_frames st @ enqueued calls\<rparr>)"
| flow_data:
    "fl_data_frames st = w # ws
     \<Longrightarrow> read_frame L max_payload w = Some (DataFrame (sess_sid (fl_receiver st)) p)
     \<Longrightarrow> onData C (as_string p) (fl_receiver st) = Done b
     \<Longrightarrow> flow_step C L max_payload max_data_frame st (st\<lparr>fl_receiver := b, fl_data_frames := ws\<rparr>)"
| flow_read:
    "session_read C L LinkUp n (fl_receiver st) = Done (bs, b, calls) \<Longrightarrow> 0 < n
     \<Longrightarrow> flow_step C L max_payload max_data_frame st
       (st\<lparr>fl_receiver := b, fl_got := fl_got st @ bs,
           fl_window_frames := fl_window_frames st @ enqueued calls\<rparr>)"
| flow_window:
    "fl_window_frames st = w # ws
     \<Longrightarrow> read_frame L max_payload w = Some (WindowFrame (sess_sid (fl_sender st)) d)
     \<Longrightarrow> flow_step C L max_payload max_data_frame st
       (st\<lparr>fl_sender := onWindow C d (fl_sender st), fl_window_frames := ws\<rparr>)"

inductive_cases flow_stepE: "flow_step C L m k st st'"

section \<open>The invariant\<close>

text \<open>The bytes of a payload that \<^verbatim>\<open>read\<close> has not handed out yet.\<close>

definition pending_left :: "'q session \<Rightarrow> bytes" where
  "pending_left s = (case leftover s of None \<Rightarrow> [] | Some l \<Rightarrow> as_bytes (drop (leftover_off s) l))"

lemma enqueued_append [simp]: "enqueued (xs @ ys) = enqueued xs @ enqueued ys"
  by (induction xs rule: enqueued.induct) auto

text \<open>What handing out bytes does to the receive counter: it grows, or it is sent back in a WINDOW.\<close>

definition accounted ::
  "absl \<Rightarrow> nat \<Rightarrow> 'q session \<Rightarrow> 'q session \<Rightarrow> link_call list \<Rightarrow> bool"
where
  "accounted L n b b' calls \<longleftrightarrow>
     (calls = [] \<and> unat (recv_unacked b') = unat (recv_unacked b) + n
        \<and> recv_unacked b' < our_initial_window b div 2)
     \<or> (\<exists>w. calls = [EnqueueFrame (encodeWindow L [] (sess_sid b) w)]
          \<and> recv_unacked b' = 0 \<and> unat w = unat (recv_unacked b) + n)"

lemma read_account_spec:
  assumes "read_account L LinkUp data s = Done (bs, s', calls)"
    and "unat (recv_unacked s) + length data < 2 ^ 32"
  shows "bs = data \<and> accounted L (length data) s s' calls
    \<and> sess_sid s' = sess_sid s \<and> our_initial_window s' = our_initial_window s
    \<and> sess_state s' = sess_state s \<and> inbox s' = inbox s
    \<and> leftover s' = leftover s \<and> leftover_off s' = leftover_off s"
proof -
  have "unat (of_nat (length data) :: u32) = length data"
    using assms(2) by (simp add: unat_of_nat)
  then have "unat (recv_unacked s + of_nat (length data)) = unat (recv_unacked s) + length data"
    using assms(2) by (subst unat_add_lem [THEN iffD1]) simp_all
  then show ?thesis
    using assms(1)
    by (auto simp: read_account_def maybeSendWindow_def accounted_def Let_def not_le
          split: if_splits)
qed

locale flow_link = absl_laws L + chan_laws C contents capacity closed
  for L :: absl
    and C :: "'q chan_api"
    and contents :: "'q \<Rightarrow> msg list"
    and capacity :: "'q \<Rightarrow> nat"
    and closed :: "'q \<Rightarrow> bool" +
  fixes max_payload max_data_frame :: nat
  assumes frame_room: "0 < max_data_frame" "max_data_frame + 9 \<le> max_payload" "max_payload < 2 ^ 63"
begin

definition sender_ok :: "'q session \<Rightarrow> bool" where
  "sender_ok a \<longleftrightarrow>
     (\<exists>q. credit_signal a = Some q \<and> \<not> closed q \<and> capacity q = 1) \<and> 0 \<le> send_credit a"

definition signals :: "'q session \<Rightarrow> msg list" where
  "signals a = (case credit_signal a of None \<Rightarrow> [] | Some q \<Rightarrow> contents q)"

definition receiver_ok :: "'q session \<Rightarrow> bytes list \<Rightarrow> bool" where
  "receiver_ok b ps \<longleftrightarrow> sess_state b = Open
     \<and> (\<exists>q. inbox b = Some q \<and> \<not> closed q \<and> capacity q = 1024
          \<and> contents q = map (\<lambda>p. PayloadMsg (as_string p)) ps)
     \<and> [] \<notin> set ps
     \<and> (case leftover b of None \<Rightarrow> True | Some l \<Rightarrow> leftover_off b < length l)
     \<and> (recv_unacked b = 0 \<or> recv_unacked b < our_initial_window b div 2)"

definition total :: "bytes list \<Rightarrow> nat" where
  "total ps = length (concat ps)"

definition flow_inv :: "u64 \<Rightarrow> u32 \<Rightarrow> u32 \<Rightarrow> bytes \<Rightarrow> 'q flow \<Rightarrow> bytes list \<Rightarrow> bytes list \<Rightarrow> u32 list \<Rightarrow> bool"
where
  "flow_inv sid credit window data st ps ds wins \<longleftrightarrow>
     sess_sid (fl_sender st) = sid \<and> sess_sid (fl_receiver st) = sid
     \<and> our_initial_window (fl_receiver st) = window
     \<and> sender_ok (fl_sender st) \<and> receiver_ok (fl_receiver st) ps
     \<and> fl_data_frames st = map (encodeData L [] sid) ds
     \<and> fl_window_frames st = map (encodeWindow L [] sid) wins
     \<and> [] \<notin> set ds \<and> (\<forall>d \<in> set ds. length d \<le> max_data_frame)
     \<and> send_credit (fl_sender st) + int (total ds) + int (total ps)
         + int (length (pending_left (fl_receiver st)))
         + int (unat (recv_unacked (fl_receiver st))) + (\<Sum>w\<leftarrow>wins. uint w) = uint credit
     \<and> data = fl_got st @ pending_left (fl_receiver st) @ concat ps @ concat ds @ fl_todo st
     \<and> (fl_pc st = AwaitCredit \<longrightarrow> fl_todo st \<noteq> []
          \<and> (send_credit (fl_sender st) \<le> 0 \<or> signals (fl_sender st) \<noteq> []))"

text \<open>How much is left to do: every step takes a byte, a frame or a signal one stage further.\<close>

definition weight :: "'q flow \<Rightarrow> bytes list \<Rightarrow> bytes list \<Rightarrow> u32 list \<Rightarrow> nat" where
  "weight st ps ds wins =
     6 * length (fl_todo st) + 5 * total ds
     + 4 * (length (pending_left (fl_receiver st)) + total ps)
     + 3 * length wins + 2 * length (signals (fl_sender st))
     + (if fl_pc st = AtCheck then 1 else 0)"

lemma receiver_okD:
  assumes "receiver_ok b ps"
  obtains q where "sess_state b = Open" "inbox b = Some q" "\<not> closed q" "capacity q = 1024"
    "contents q = map (\<lambda>p. PayloadMsg (as_string p)) ps" "[] \<notin> set ps"
  using assms by (auto simp: receiver_ok_def)

lemma session_read_spec:
  assumes ok: "receiver_ok b ps" and read: "session_read C L LinkUp n b = Done (bs, b', calls)"
    and n: "0 < n" and small: "unat (recv_unacked b) + length (pending_left b @ concat ps) < 2 ^ 32"
  shows "\<exists>ps'. receiver_ok b' ps' \<and> bs \<noteq> []
    \<and> pending_left b @ concat ps = bs @ pending_left b' @ concat ps'
    \<and> accounted L (length bs) b b' calls \<and> sess_sid b' = sess_sid b
    \<and> our_initial_window b' = our_initial_window b"
proof -
  obtain q where q: "sess_state b = Open" "inbox b = Some q" "\<not> closed q" "capacity q = 1024"
    "contents q = map (\<lambda>p. PayloadMsg (as_string p)) ps" "[] \<notin> set ps"
    using ok by (rule receiver_okD)
  have unacked: "recv_unacked b' = 0 \<or> recv_unacked b' < our_initial_window b div 2"
    if "accounted L k b b' calls" for k using that by (auto simp: accounted_def)
  show ?thesis
  proof (cases "leftover b")
    case None
    then have inb: "read_inbox C L LinkUp n b = Done (bs, b', calls)"
      using read by (simp add: session_read_def)
    then have "ch_receive C q \<noteq> None"
      using q(1,2) by (cases "ch_receive C q") (simp_all add: read_inbox_def)
    then obtain p ps' where ps: "ps = p # ps'" using q by (cases ps) auto
    obtain q' where q': "ch_receive C q = Some (Some (PayloadMsg (as_string p)), q')"
      "contents q' = map (\<lambda>p. PayloadMsg (as_string p)) ps'" "capacity q' = 1024" "\<not> closed q'"
      using receive_ready [OF q(3), of "PayloadMsg (as_string p)"] q(4,5) ps by auto
    define k where "k = min n (length p)"
    define s where "s = (if k < length p then b\<lparr>inbox := Some q', leftover := Some (as_string p),
       leftover_off := k\<rparr> else b\<lparr>inbox := Some q'\<rparr>)"
    have acc: "read_account L LinkUp (take k p) s = Done (bs, b', calls)"
      using inb q(1,2) q'(1)
      by (cases "n < length p")
         (simp_all add: read_inbox_def Let_def k_def s_def as_bytes_take min.absorb1 min.absorb2 not_less)
    have "unat (recv_unacked s) + length (take k p) < 2 ^ 32"
      using small ps by (simp add: s_def)
    moreover have "sess_sid s = sess_sid b" "our_initial_window s = our_initial_window b"
      "sess_state s = Open" "inbox s = Some q'" "recv_unacked s = recv_unacked b"
      using q(1) by (simp_all add: s_def)
    ultimately have spec:
      "bs = take k p" "accounted L (length bs) b b' calls" "sess_sid b' = sess_sid b"
      "our_initial_window b' = our_initial_window b" "sess_state b' = Open" "inbox b' = Some q'"
      "leftover b' = leftover s" "leftover_off b' = leftover_off s"
      using read_account_spec [OF acc] by (simp_all add: accounted_def)
    have p: "p \<noteq> []" "0 < k" using q(6) ps n by (auto simp: k_def)
    have "receiver_ok b' ps'"
      using spec q q' ps unacked [OF spec(2)] None
      by (auto simp: receiver_ok_def s_def split: if_splits)
    moreover have "pending_left b @ concat ps = bs @ pending_left b' @ concat ps'"
      using spec None ps by (auto simp: pending_left_def s_def as_bytes_drop k_def min_def)
    ultimately show ?thesis using spec p by (intro exI [of _ ps']) auto
  next
    case (Some l)
    then have off: "leftover_off b < length l" using ok by (simp add: receiver_ok_def)
    define k where "k = min n (length l - leftover_off b)"
    define s where "s = (if length l \<le> leftover_off b + k then b\<lparr>leftover := None, leftover_off := 0\<rparr>
       else b\<lparr>leftover_off := leftover_off b + k\<rparr>)"
    define r where "r = as_bytes (drop (leftover_off b) l)"
    have acc: "read_account L LinkUp (take k r) s = Done (bs, b', calls)"
      using read
      by (simp only: session_read_def Some option.case off if_True Let_def k_def s_def r_def
            as_bytes_take)
    have "unat (recv_unacked s) + length (take k r) < 2 ^ 32"
      using small Some by (auto simp: s_def pending_left_def r_def)
    moreover have "sess_sid s = sess_sid b" "our_initial_window s = our_initial_window b"
      "sess_state s = Open" "inbox s = Some q" "recv_unacked s = recv_unacked b"
      using q(1,2) by (simp_all add: s_def)
    ultimately have spec:
      "bs = take k r" "accounted L (length bs) b b' calls" "sess_sid b' = sess_sid b"
      "our_initial_window b' = our_initial_window b" "sess_state b' = Open" "inbox b' = Some q"
      "leftover b' = leftover s" "leftover_off b' = leftover_off s"
      using read_account_spec [OF acc] by (simp_all add: accounted_def)
    have r: "length r = length l - leftover_off b" "0 < k" using off n by (auto simp: r_def k_def)
    have "receiver_ok b' ps"
      using spec q unacked [OF spec(2)] Some by (auto simp: receiver_ok_def s_def)
    moreover have "pending_left b = bs @ pending_left b'"
      using spec Some r by (auto simp: pending_left_def s_def r_def as_bytes_drop)
         (metis append_take_drop_id drop_drop add.commute)
    ultimately show ?thesis using spec r off by (intro exI [of _ ps]) auto
  qed
qed

lemma read_frame_fits: "frame_fits max_payload f \<Longrightarrow> read_frame L max_payload (encodeFrame L f) = Some f"
  using parse_encoded [OF absl_laws_axioms, of max_payload f "[]"]
  by (auto simp: read_frame_def)

lemma read_data_frame:
  "length p \<le> max_data_frame \<Longrightarrow>
   read_frame L max_payload (encodeData L [] sid p) = Some (DataFrame sid p)"
  using read_frame_fits [of "DataFrame sid p"] frame_room
  by (simp add: frame_fits_def resp2_valid_def)

lemma read_window_frame:
  "read_frame L max_payload (encodeWindow L [] sid w) = Some (WindowFrame sid w)"
  using read_frame_fits [of "WindowFrame sid w"] frame_room
  by (simp add: frame_fits_def resp2_valid_def)

lemma total_simps [simp]:
  "total [] = 0" "total (p # ps) = length p + total ps" "total (ps @ qs) = total ps + total qs"
  by (simp_all add: total_def)

lemma wins_nonneg: "0 \<le> (\<Sum>w\<leftarrow>wins. uint (w :: u32))"
  by (induction wins) auto

lemma flow_inv_credit:
  assumes "flow_inv sid credit window data st ps ds wins"
  shows "0 \<le> send_credit (fl_sender st)"
    "send_credit (fl_sender st) + (\<Sum>w\<leftarrow>wins. uint w) < 2 ^ 32"
    "unat (recv_unacked (fl_receiver st)) + length (pending_left (fl_receiver st) @ concat ps) < 2 ^ 32"
proof -
  have W: "uint credit < 2 ^ 32" using unsigned_less [of credit, where 'a = int] by simp
  show c: "0 \<le> send_credit (fl_sender st)" using assms by (simp add: flow_inv_def sender_ok_def)
  from assms have sum: "send_credit (fl_sender st) + int (total ds) + int (total ps)
         + int (length (pending_left (fl_receiver st)))
         + int (unat (recv_unacked (fl_receiver st))) + (\<Sum>w\<leftarrow>wins. uint w) = uint credit"
    by (simp only: flow_inv_def)
  from sum W show "send_credit (fl_sender st) + (\<Sum>w\<leftarrow>wins. uint w) < 2 ^ 32" by linarith
  have "int (unat (recv_unacked (fl_receiver st)) + length (pending_left (fl_receiver st) @ concat ps))
      < 2 ^ 32"
    using sum W c wins_nonneg [of wins] unfolding total_def
    by (simp only: length_append of_nat_add)
  then show "unat (recv_unacked (fl_receiver st)) + length (pending_left (fl_receiver st) @ concat ps)
      < 2 ^ 32"
    by (simp only: of_nat_less_iff [where 'a = int, symmetric]) simp
qed

lemma write_preserves:
  assumes inv: "flow_inv sid credit window data st ps ds wins"
    and step: "write_step C L max_data_frame LinkUp (fl_pc st) (fl_todo st) (fl_sender st)
       = WriteStep pc todo a calls"
  shows "\<exists>ds'. flow_inv sid credit window data
    (st\<lparr>fl_sender := a, fl_pc := pc, fl_todo := todo,
        fl_data_frames := fl_data_frames st @ enqueued calls\<rparr>) ps ds' wins
    \<and> weight (st\<lparr>fl_sender := a, fl_pc := pc, fl_todo := todo,
        fl_data_frames := fl_data_frames st @ enqueued calls\<rparr>) ps ds' wins < weight st ps ds wins"
  (is "\<exists>ds'. flow_inv _ _ _ _ ?st' _ ds' _ \<and> _")
  using step
proof (cases rule: write_step_cases)
  case (woken q r q')
  from inv have "\<not> closed q" "capacity q = 1"
    using woken(2) by (auto simp: flow_inv_def sender_ok_def)
  with receive_SomeD [OF woken(3)] have q': "\<not> closed q'" "capacity q' = 1"
    "length (contents q) = Suc (length (contents q'))" by auto
  then have "flow_inv sid credit window data ?st' ps ds wins"
    using inv woken by (simp add: flow_inv_def sender_ok_def)
  moreover have "weight ?st' ps ds wins < weight st ps ds wins"
    using woken q' by (simp add: weight_def signals_def)
  ultimately show ?thesis by blast
next
  case block
  then have "flow_inv sid credit window data ?st' ps ds wins" using inv by (simp add: flow_inv_def)
  moreover have "weight ?st' ps ds wins < weight st ps ds wins" using block by (simp add: weight_def)
  ultimately show ?thesis by blast
next
  case spin
  with frame_room show ?thesis by simp
next
  case (send n)
  have credit: "i64 (send_credit (fl_sender st) - int n) = send_credit (fl_sender st) - int n"
    using flow_inv_credit(1,2) [OF inv] send(5) wins_nonneg [of wins] by (intro i64_id) simp_all
  have "take n (fl_todo st) \<noteq> []" "length (take n (fl_todo st)) = n" using send(2,3) by auto
  then have "flow_inv sid credit window data ?st' ps (ds @ [take n (fl_todo st)]) wins"
    using inv send credit by (simp add: flow_inv_def sender_ok_def)
  moreover have "weight ?st' ps (ds @ [take n (fl_todo st)]) wins < weight st ps ds wins"
    using send by (simp add: weight_def signals_def)
  ultimately show ?thesis by blast
qed

lemma data_preserves:
  assumes inv: "flow_inv sid credit window data st ps ds wins"
    and w: "fl_data_frames st = w # ws"
    and frame: "read_frame L max_payload w = Some (DataFrame (sess_sid (fl_receiver st)) p)"
    and on: "onData C (as_string p) (fl_receiver st) = Done b"
  shows "\<exists>ds'. flow_inv sid credit window data
    (st\<lparr>fl_receiver := b, fl_data_frames := ws\<rparr>) (ps @ [p]) ds' wins
    \<and> weight (st\<lparr>fl_receiver := b, fl_data_frames := ws\<rparr>) (ps @ [p]) ds' wins < weight st ps ds wins"
proof -
  from inv w obtain d ds' where ds: "ds = d # ds'" "w = encodeData L [] sid d"
    "ws = map (encodeData L [] sid) ds'" "length d \<le> max_data_frame" "d \<noteq> []"
    by (auto simp: flow_inv_def Cons_eq_map_conv)
  with frame inv have d: "d = p" by (simp add: read_data_frame flow_inv_def)
  obtain q where q: "inbox (fl_receiver st) = Some q" "\<not> closed q" "capacity q = 1024"
    "contents q = map (\<lambda>p. PayloadMsg (as_string p)) ps"
    using inv by (auto simp: flow_inv_def receiver_ok_def)
  from on d ds q obtain q' where q': "ch_send C (PayloadMsg (as_string p)) q = Some q'"
    "b = fl_receiver st\<lparr>inbox := Some q'\<rparr>"
    by (auto simp: onData_def as_string_def split: option.splits)
  with send_SomeD [OF q'(1) q(2)] q have "contents q' = map (\<lambda>p. PayloadMsg (as_string p)) (ps @ [p])"
    "\<not> closed q'" "capacity q' = 1024" by auto
  moreover have "receiver_ok (fl_receiver st) ps" using inv by (simp add: flow_inv_def)
  ultimately have "receiver_ok b (ps @ [p])" "pending_left b = pending_left (fl_receiver st)"
    using ds(5) d q'(2) by (simp_all add: receiver_ok_def pending_left_def split: option.splits)
  with inv ds d q'(2) show ?thesis
    by (intro exI [of _ ds'] conjI) (simp_all add: flow_inv_def weight_def)
qed

lemma read_preserves:
  assumes inv: "flow_inv sid credit window data st ps ds wins"
    and read: "session_read C L LinkUp n (fl_receiver st) = Done (bs, b, calls)" and n: "0 < n"
  shows "\<exists>ps' wins'. flow_inv sid credit window data
        (st\<lparr>fl_receiver := b, fl_got := fl_got st @ bs,
            fl_window_frames := fl_window_frames st @ enqueued calls\<rparr>) ps' ds wins'
    \<and> weight (st\<lparr>fl_receiver := b, fl_got := fl_got st @ bs,
            fl_window_frames := fl_window_frames st @ enqueued calls\<rparr>) ps' ds wins'
      < weight st ps ds wins"
    (is "\<exists>ps' wins'. flow_inv _ _ _ _ ?st' ps' _ wins' \<and> _")
proof -
  let ?b = "fl_receiver st"
  have ok: "receiver_ok ?b ps" using inv by (simp add: flow_inv_def)
  from session_read_spec [OF ok read n flow_inv_credit(3) [OF inv]] obtain ps' where
    spec: "receiver_ok b ps'" "bs \<noteq> []" "pending_left ?b @ concat ps = bs @ pending_left b @ concat ps'"
      "accounted L (length bs) ?b b calls" "sess_sid b = sess_sid ?b"
      "our_initial_window b = our_initial_window ?b" by blast
  have len: "length (pending_left ?b) + total ps = length bs + length (pending_left b) + total ps'"
    using arg_cong [OF spec(3), of length] by (simp add: total_def)
  have less: "weight ?st' ps' ds wins' < weight st ps ds wins" if "length wins' \<le> length wins + 1" for wins'
    using that len spec(2) by (cases bs) (simp_all add: weight_def)
  from spec(4) consider (quiet) "calls = []" "unat (recv_unacked b) = unat (recv_unacked ?b) + length bs"
    | (window) w where "calls = [EnqueueFrame (encodeWindow L [] sid w)]" "recv_unacked b = 0"
        "unat w = unat (recv_unacked ?b) + length bs"
    using inv by (auto simp: accounted_def flow_inv_def)
  then show ?thesis
  proof cases
    case quiet
    then have "flow_inv sid credit window data ?st' ps' ds wins"
      using inv spec len by (auto simp: flow_inv_def)
    with less [of wins] show ?thesis by auto
  next
    case (window w)
    then have "uint w = int (unat (recv_unacked ?b)) + int (length bs)"
      by (metis of_nat_add uint_nat)
    then have "flow_inv sid credit window data ?st' ps' ds (wins @ [w])"
      using inv spec len window(1,2) by (auto simp: flow_inv_def)
    with less [of "wins @ [w]"] show ?thesis by auto
  qed
qed

lemma onWindow_sender:
  assumes "sender_ok a" "send_credit a + uint d < 2 ^ 32"
  shows "sender_ok (onWindow C d a)" "send_credit (onWindow C d a) = send_credit a + uint d"
    "signals (onWindow C d a) \<noteq> []" "length (signals (onWindow C d a)) \<le> length (signals a) + 1"
proof -
  obtain q where q: "credit_signal a = Some q" "\<not> closed q" "capacity q = 1" "0 \<le> send_credit a"
    using assms(1) by (auto simp: sender_ok_def)
  have "0 \<le> send_credit a + uint d" using q(4) by (simp add: add_nonneg_nonneg)
  with assms(2) have "i64 (send_credit a + uint d) = send_credit a + uint d"
    by (intro i64_id) simp_all
  then show credit: "send_credit (onWindow C d a) = send_credit a + uint d"
    by (simp add: onWindow_def)
  note sent = try_send_cases [OF q(2), of SignalMsg]
  show "sender_ok (onWindow C d a)" using q sent credit by (simp add: sender_ok_def onWindow_def)
  show "signals (onWindow C d a) \<noteq> []" using q sent by (auto simp: signals_def onWindow_def)
  show "length (signals (onWindow C d a)) \<le> length (signals a) + 1"
    using q sent by (simp add: signals_def onWindow_def)
qed

lemma window_preserves:
  assumes inv: "flow_inv sid credit window data st ps ds wins"
    and w: "fl_window_frames st = w # ws"
    and frame: "read_frame L max_payload w = Some (WindowFrame (sess_sid (fl_sender st)) d)"
  shows "\<exists>wins'. flow_inv sid credit window data
        (st\<lparr>fl_sender := onWindow C d (fl_sender st), fl_window_frames := ws\<rparr>) ps ds wins'
    \<and> weight (st\<lparr>fl_sender := onWindow C d (fl_sender st), fl_window_frames := ws\<rparr>) ps ds wins'
      < weight st ps ds wins"
proof -
  from inv w obtain d' wins' where wins: "wins = d' # wins'" "w = encodeWindow L [] sid d'"
    "ws = map (encodeWindow L [] sid) wins'"
    by (auto simp: flow_inv_def Cons_eq_map_conv)
  with frame have d: "d' = d" by (simp add: read_window_frame)
  have sid: "sess_sid (onWindow C d (fl_sender st)) = sess_sid (fl_sender st)"
    by (simp add: onWindow_def)
  have "send_credit (fl_sender st) + uint d < 2 ^ 32"
    using flow_inv_credit(2) [OF inv] wins d wins_nonneg [of wins'] by simp
  note onw = onWindow_sender [OF _ this]
  from inv have ok: "sender_ok (fl_sender st)" by (simp add: flow_inv_def)
  show ?thesis
    using inv wins d sid onw [OF ok]
    by (intro exI [of _ wins'] conjI) (simp_all add: flow_inv_def weight_def)
qed

lemma flow_inv_step:
  assumes "flow_inv sid credit window data st ps ds wins"
    and "flow_step C L max_payload max_data_frame st st'"
  shows "\<exists>ps' ds' wins'. flow_inv sid credit window data st' ps' ds' wins'
    \<and> weight st' ps' ds' wins' < weight st ps ds wins"
  using assms(2)
proof cases
  case (flow_write pc todo a calls)
  from write_preserves [OF assms(1) this(2)] this(1) show ?thesis by blast
next
  case (flow_data w ws p b)
  from data_preserves [OF assms(1) this(2-4)] this(1) show ?thesis by blast
next
  case (flow_read n bs b calls)
  from read_preserves [OF assms(1) this(2,3)] this(1) show ?thesis by blast
next
  case (flow_window w ws d)
  from window_preserves [OF assms(1) this(2,3)] this(1) show ?thesis by blast
qed

lemma flow_inv_init: "flow_inv sid credit window data (flow_init C sid credit window data) [] [] []"
  by (simp add: flow_inv_def flow_init_def new_session_def sender_ok_def receiver_ok_def
        pending_left_def)

lemma flow_reachable:
  assumes "(flow_step C L max_payload max_data_frame ^^ n) (flow_init C sid credit window data) st"
  shows "\<exists>ps ds wins. flow_inv sid credit window data st ps ds wins
    \<and> weight st ps ds wins + n \<le> 6 * length data + 1"
  using assms
proof (induction n arbitrary: st)
  case 0
  have "weight (flow_init C sid credit window data) [] [] [] = 6 * length data + 1"
    by (simp add: weight_def flow_init_def new_session_def pending_left_def signals_def)
  with 0 flow_inv_init [of sid credit window data] show ?case
    by (intro exI [of _ "[]"]) simp
next
  case (Suc n)
  then obtain y where "(flow_step C L max_payload max_data_frame ^^ n)
      (flow_init C sid credit window data) y" "flow_step C L max_payload max_data_frame y st"
    by auto
  with Suc.IH flow_inv_step show ?case by fastforce
qed

section \<open>Progress\<close>

lemma read_progress:
  assumes ok: "receiver_ok b ps" and ne: "pending_left b @ concat ps \<noteq> []"
  shows "\<exists>r. session_read C L LinkUp 1 b = Done r"
proof -
  obtain q where q: "sess_state b = Open" "inbox b = Some q" "\<not> closed q"
    "contents q = map (\<lambda>p. PayloadMsg (as_string p)) ps"
    using ok by (rule receiver_okD)
  have acc: "\<exists>r. read_account L LinkUp d s = Done r" for d s
    by (simp add: read_account_def Let_def split: prod.splits)
  show ?thesis
  proof (cases "leftover b")
    case None
    with ne obtain p ps' where "ps = p # ps'" by (cases ps) (auto simp: pending_left_def)
    with receive_ready [OF q(3), of "PayloadMsg (as_string p)"] q(4) obtain q' where
      "ch_receive C q = Some (Some (PayloadMsg (as_string p)), q')" by auto
    with None q show ?thesis
      by (simp add: session_read_def read_inbox_def Let_def acc del: split_paired_Ex)
  next
    case (Some l)
    with ok show ?thesis
      by (simp add: session_read_def receiver_ok_def Let_def acc del: split_paired_Ex)
  qed
qed

lemma receiver_drained: "receiver_ok b ps \<Longrightarrow> concat ps = [] \<Longrightarrow> ps = []"
  by (cases ps) (auto simp: receiver_ok_def)

lemma deliver_progress:
  assumes "receiver_ok b []" shows "\<exists>b'. onData C w b = Done b'"
proof -
  obtain q where "inbox b = Some q" "\<not> closed q" "capacity q = 1024" "contents q = []"
    using assms by (auto simp: receiver_ok_def)
  with send_room [of q "PayloadMsg w"] show ?thesis by (auto simp: onData_def)
qed

lemma flow_progress:
  assumes inv: "flow_inv sid credit window data st ps ds wins"
    and half: "unat window div 2 \<le> unat credit" and pos: "0 < credit"
    and undelivered: "fl_got st \<noteq> data"
  shows "\<exists>st'. flow_step C L max_payload max_data_frame st st'"
proof -
  let ?step = "flow_step C L max_payload max_data_frame st" and ?b = "fl_receiver st"
  have ok: "receiver_ok ?b ps" using inv by (simp add: flow_inv_def)
  consider (unread) "pending_left ?b @ concat ps \<noteq> []" | (transit) "pending_left ?b @ concat ps = []" "ds \<noteq> []"
    | (credit) "wins \<noteq> []" | (send) "pending_left ?b @ concat ps = []" "ds = []" "wins = []" "fl_todo st \<noteq> []"
    using inv undelivered by (cases "ds = []") (auto simp: flow_inv_def)
  then show ?thesis
  proof cases
    case unread
    from read_progress [OF ok this] obtain bs b calls where
      "session_read C L LinkUp 1 ?b = Done (bs, b, calls)" by auto
    from flow_step.flow_read [OF this] show ?thesis by auto
  next
    case transit
    then have "ps = []" using receiver_drained [OF ok] by simp
    with ok deliver_progress obtain b where b: "onData C (as_string (hd ds)) ?b = Done b" by blast
    from transit inv have "fl_data_frames st = encodeData L [] sid (hd ds) # map (encodeData L [] sid) (tl ds)"
      "length (hd ds) \<le> max_data_frame" "sess_sid ?b = sid"
      by (auto simp: flow_inv_def neq_Nil_conv)
    with flow_step.flow_data [of st _ _ L max_payload "hd ds" C b] b read_data_frame show ?thesis by metis
  next
    case credit
    with inv have "fl_window_frames st = encodeWindow L [] sid (hd wins) # map (encodeWindow L [] sid) (tl wins)"
      "sess_sid (fl_sender st) = sid"
      by (auto simp: flow_inv_def neq_Nil_conv)
    with flow_step.flow_window [of st _ _ L max_payload "hd wins"] read_window_frame show ?thesis by metis
  next
    case send
    have "ps = []" using send(1) receiver_drained [OF ok] by simp
    with send inv have sum: "send_credit (fl_sender st) + int (unat (recv_unacked ?b)) = uint credit"
      by (simp add: flow_inv_def)
    have "recv_unacked ?b = 0 \<or> recv_unacked ?b < our_initial_window ?b div 2"
      using ok by (simp add: receiver_ok_def)
    then have "unat (recv_unacked ?b) < unat credit"
      using half pos inv by (auto simp: word_less_nat_alt unat_div flow_inv_def)
    then have "uint (recv_unacked ?b) < uint credit"
      by (simp flip: word_less_nat_alt word_less_def)
    with sum have avail: "0 < send_credit (fl_sender st)" by simp
    show ?thesis
    proof (cases "fl_pc st")
      case AtCheck
      with write_check_progress [OF send(4) frame_room(1), of C L] flow_step.flow_write [of C L max_data_frame st]
      show ?thesis by metis
    next
      case AwaitCredit
      with inv avail obtain q m ms where q: "credit_signal (fl_sender st) = Some q" "\<not> closed q"
        "contents q = m # ms"
        by (auto simp: flow_inv_def sender_ok_def signals_def neq_Nil_conv)
      from receive_ready [OF q(2,3)] obtain r q' where "ch_receive C q = Some (r, q')" by auto
      with write_await_progress [OF q(1) this, of L max_data_frame "fl_todo st"] AwaitCredit
        flow_step.flow_write [of C L max_data_frame st]
      show ?thesis by metis
    qed
  qed
qed

end

section \<open>Properties of a transfer\<close>

text \<open>The default options of a link satisfy the assumptions.\<close>

interpretation default_flow:
  flow_link absl_ref list_chan_api lc_items lc_capacity lc_closed "512 * 1024 * 1024" "256 * 1024"
  by (intro flow_link.intro flow_link_axioms.intro absl_ref_laws list_chan_laws) simp_all

fun payload_length :: "msg \<Rightarrow> nat" where
  "payload_length (PayloadMsg p) = length p"
| "payload_length _ = 0"

text \<open>The bytes a session holds for its reader: those queued and those left of the last payload.\<close>

definition held_bytes :: "('q \<Rightarrow> msg list) \<Rightarrow> 'q session \<Rightarrow> nat" where
  "held_bytes contents b = length (pending_left b)
     + (case inbox b of None \<Rightarrow> 0 | Some q \<Rightarrow> sum_list (map payload_length (contents q)))"

lemma payload_lengths:
  "sum_list (map payload_length (map (\<lambda>p. PayloadMsg (as_string p)) ps)) = length (concat ps)"
  by (induction ps) auto

text \<open>C1. Safety of a transfer, at every point of every interleaving of writer, reader and frame
  deliveries: what the receiving application has read is a prefix of what the sending application
  writes (nothing lost, duplicated, reordered or altered), the receiving session never holds more
  bytes than the window its peer was granted, and the sender's credit stays between zero and that
  window, so none of the counters wraps.\<close>

theorem transfer_safe:
  assumes "absl_laws L" and "chan_laws C contents capacity closed"
    and "0 < k" and "k + 9 \<le> m" and "m < 2 ^ 63"
    and "(flow_step C L m k ^^ n) (flow_init C sid credit window data) st"
  shows "prefix (fl_got st) data
    \<and> held_bytes contents (fl_receiver st) \<le> unat credit
    \<and> 0 \<le> send_credit (fl_sender st) \<and> send_credit (fl_sender st) \<le> uint credit"
proof -
  have flow: "flow_link L C contents capacity closed m k"
    using assms by (intro flow_link.intro flow_link_axioms.intro)
  from flow_link.flow_reachable [OF flow assms(6)] obtain ps ds wins where
    inv: "flow_link.flow_inv L contents capacity closed k sid credit window data st ps ds wins"
    by blast
  note sum = inv [unfolded flow_link.flow_inv_def [OF flow] flow_link.receiver_ok_def [OF flow]
      flow_link.sender_ok_def [OF flow] flow_link.total_def [OF flow]]
  have nonneg: "0 \<le> (\<Sum>w\<leftarrow>wins. uint w)" by (rule flow_link.wins_nonneg [OF flow])
  from sum obtain q where "inbox (fl_receiver st) = Some q"
    "contents q = map (\<lambda>p. PayloadMsg (as_string p)) ps" by blast
  then have held: "held_bytes contents (fl_receiver st)
      = length (pending_left (fl_receiver st)) + length (concat ps)"
    by (simp add: held_bytes_def payload_lengths del: map_map)
  have credit: "0 \<le> send_credit (fl_sender st)" using sum by blast
  have total: "send_credit (fl_sender st) + int (length (concat ds)) + int (length (concat ps))
      + int (length (pending_left (fl_receiver st)))
      + int (unat (recv_unacked (fl_receiver st))) + (\<Sum>w\<leftarrow>wins. uint w) = int (unat credit)"
    using sum by simp
  have "held_bytes contents (fl_receiver st) \<le> unat credit"
    using total nonneg credit held by linarith
  moreover have "send_credit (fl_sender st) \<le> uint credit"
    using total nonneg by (simp only: uint_nat)
  moreover have "prefix (fl_got st) data" using sum by auto
  ultimately show ?thesis using credit by blast
qed

lemma first_step:
  assumes "data \<noteq> []" "0 < k"
  shows "\<exists>st. (flow_step C L m k ^^ 1) (flow_init C sid credit window data) st"
proof -
  let ?st = "flow_init C sid credit window data"
  from write_check_progress [OF assms] obtain pc todo a calls where
    "write_step C L k LinkUp (fl_pc ?st) (fl_todo ?st) (fl_sender ?st) = WriteStep pc todo a calls"
    by (simp add: flow_init_def) blast
  from flow_step.flow_write [OF this] show ?thesis unfolding relpowp_1 by blast
qed

theorem transfer_safe_witness:
  "\<exists>st. (flow_step list_chan_api absl_ref 100 16 ^^ 1) (flow_init list_chan_api 5 4 4 [7, 8, 9]) st
     \<and> prefix (fl_got st) [7, 8, 9] \<and> held_bytes lc_items (fl_receiver st) \<le> 4"
proof -
  have "\<exists>st. (flow_step list_chan_api absl_ref 100 16 ^^ 1) (flow_init list_chan_api 5 4 4 [7, 8, 9]) st"
    by (rule first_step) simp_all
  then obtain st where st:
    "(flow_step list_chan_api absl_ref 100 16 ^^ 1) (flow_init list_chan_api 5 4 4 [7, 8, 9]) st" ..
  from transfer_safe [OF absl_ref_laws list_chan_laws _ _ _ this] st show ?thesis by auto
qed

text \<open>C7. Completion of a transfer: provided the credit the sender starts with is not zero and is at
  least half of the window the receiver returns credit for, every run of the system takes at
  most six steps per byte and one more, and it can only stop after the receiving application has
  read everything: in every reachable state either all data has been read or some step is
  possible. In particular no wake-up of a writer that waits for credit is lost.\<close>

theorem transfer_completes:
  assumes "absl_laws L" and "chan_laws C contents capacity closed"
    and "0 < k" and "k + 9 \<le> m" and "m < 2 ^ 63"
    and "0 < credit" and "unat window div 2 \<le> unat credit"
    and "(flow_step C L m k ^^ n) (flow_init C sid credit window data) st"
  shows "n \<le> 6 * length data + 1
    \<and> (fl_got st = data \<or> (\<exists>st'. flow_step C L m k st st'))"
proof -
  have flow: "flow_link L C contents capacity closed m k"
    using assms by (intro flow_link.intro flow_link_axioms.intro)
  from flow_link.flow_reachable [OF flow assms(8)] flow_link.flow_progress [OF flow _ assms(7,6)]
  show ?thesis by fastforce
qed

theorem transfer_completes_witness:
  "\<exists>st. (flow_step list_chan_api absl_ref 100 16 ^^ 1) (flow_init list_chan_api 5 4 8 [7, 8, 9]) st
     \<and> (fl_got st = [7, 8, 9] \<or> (\<exists>st'. flow_step list_chan_api absl_ref 100 16 st st'))"
proof -
  have "\<exists>st. (flow_step list_chan_api absl_ref 100 16 ^^ 1) (flow_init list_chan_api 5 4 8 [7, 8, 9]) st"
    by (rule first_step) simp_all
  then obtain st where st:
    "(flow_step list_chan_api absl_ref 100 16 ^^ 1) (flow_init list_chan_api 5 4 8 [7, 8, 9]) st" ..
  from transfer_completes [OF absl_ref_laws list_chan_laws _ _ _ _ _ this] st show ?thesis by auto
qed

section \<open>Too little credit\<close>

text \<open>The condition on the window is needed. A link gives a session it opens its own window as credit,
  not the peer's (\<^verbatim>\<open>Link::openSession\<close>), while the peer returns credit only after half of the
  peer's window has been read: a client whose window is less than half of the server's stops.\<close>

lemma flow_stuck:
  assumes "fl_pc st = AwaitCredit" "credit_signal (fl_sender st) = Some q" "ch_receive C q = None"
    and "fl_data_frames st = []" "fl_window_frames st = []"
    and "leftover (fl_receiver st) = None" "sess_state (fl_receiver st) = Open"
    and "inbox (fl_receiver st) = Some q'" "ch_receive C q' = None"
  shows "\<not> flow_step C L m k st st'"
proof
  assume "flow_step C L m k st st'"
  then show False
    using assms by cases (auto simp: write_step_def session_read_def read_inbox_def)
qed

definition stuck_sender :: "list_chan session" where
  "stuck_sender = (new_session list_chan_api 5 no_address 1 1 TCP)\<lparr>send_credit := 0, bytes_out := 1\<rparr>"

definition stuck_receiver :: "list_chan session" where
  "stuck_receiver = (new_session list_chan_api 5 no_address 1 4 TCP)\<lparr>recv_unacked := 1, bytes_in := 1\<rparr>"

lemma stuck_run:
  "(flow_step list_chan_api absl_ref 100 16)\<^sup>*\<^sup>* (flow_init list_chan_api 5 1 4 [7, 8])
     \<lparr>fl_sender = stuck_sender, fl_receiver = stuck_receiver, fl_pc = AwaitCredit, fl_todo = [8],
      fl_data_frames = [], fl_window_frames = [], fl_got = [7]\<rparr>"
proof -
  let ?step = "flow_step list_chan_api absl_ref 100 16"
  let ?w = "encodeData absl_ref [] 5 [7]"
  let ?b = "new_session list_chan_api 5 no_address 1 4 TCP"
  let ?b1 = "?b\<lparr>inbox := Some \<lparr>lc_items = [PayloadMsg (as_string [7])], lc_capacity = 1024,
      lc_closed = False\<rparr>\<rparr>"
  let ?st = "\<lambda>b pc frames got. \<lparr>fl_sender = stuck_sender, fl_receiver = b, fl_pc = pc, fl_todo = [8],
      fl_data_frames = frames, fl_window_frames = [], fl_got = got\<rparr>"
  have "write_step list_chan_api absl_ref 16 LinkUp AtCheck [7, 8] (new_session list_chan_api 5 no_address 1 1 TCP)
      = WriteStep AtCheck [8] stuck_sender [EnqueueFrame ?w]"
    by (simp add: write_step_def new_session_def stuck_sender_def i64_id)
  then have 1: "?step (flow_init list_chan_api 5 1 4 [7, 8]) (?st ?b AtCheck [?w] [])"
    using flow_step.flow_write [of list_chan_api absl_ref 16 "flow_init list_chan_api 5 1 4 [7, 8]"]
    by (fastforce simp: flow_init_def)
  have "read_frame absl_ref 100 ?w = Some (DataFrame 5 [7])" by code_simp
  moreover have "onData list_chan_api (as_string [7]) ?b = Done ?b1"
    by (simp add: onData_def new_session_def list_chan_api_def)
  ultimately have 2: "?step (?st ?b AtCheck [?w] []) (?st ?b1 AtCheck [] [])"
    using flow_step.flow_data [of "?st ?b AtCheck [?w] []" ?w "[]" absl_ref 100 "[7]"]
    by (fastforce simp: new_session_def)
  have "session_read list_chan_api absl_ref LinkUp 1 ?b1 = Done ([7], stuck_receiver, [])"
    by (simp add: session_read_def read_inbox_def new_session_def list_chan_api_def read_account_def
          maybeSendWindow_def stuck_receiver_def Let_def word_le_nat_alt)
  then have 3: "?step (?st ?b1 AtCheck [] []) (?st stuck_receiver AtCheck [] [7])"
    using flow_step.flow_read [of list_chan_api absl_ref 1 "?st ?b1 AtCheck [] []"] by fastforce
  have "write_step list_chan_api absl_ref 16 LinkUp AtCheck [8] stuck_sender
      = WriteStep AwaitCredit [8] stuck_sender []"
    by (simp add: write_step_def stuck_sender_def)
  then have 4: "?step (?st stuck_receiver AtCheck [] [7]) (?st stuck_receiver AwaitCredit [] [7])"
    using flow_step.flow_write [of list_chan_api absl_ref 16 "?st stuck_receiver AtCheck [] [7]"]
    by fastforce
  from 1 2 3 4 show ?thesis by (meson rtranclp.rtrancl_refl converse_rtranclp_into_rtranclp)
qed


end
