(* ===== verification/Stream_Copy.thy ===== *)
theory Stream_Copy
  imports Flow
begin

text \<open>
  The byte streams (\<^verbatim>\<open>transport/session_stream.hpp\<close>), the TCP stream (\<^verbatim>\<open>transport/tcp_stream.cpp\<close>) and the
  relay between two streams (\<^verbatim>\<open>transport/pipe.cpp\<close>). The interface \<^verbatim>\<open>ISessionStream\<close> is a record of
  operations, with a locale for what its implementations promise; a TCP socket and a session both
  fulfil it. The lemmas show that the relay copies in both directions without changing anything,
  in every interleaving of its two halves with arriving data, and that it ends.
\<close>

section \<open>The interface\<close>

text \<open>A write may suspend many times; \<open>'w\<close> is where it is then. It is called with \<open>None\<close> first.\<close>

datatype ('s, 'w) write_out =
    WrBlocked
  | WrReturn "unit result" 's
  | WrGoOn 'w bytes 's

record ('s, 'w) stream_ops =
  op_read :: "nat \<Rightarrow> 's \<Rightarrow> (bytes result \<times> 's) outcome"
  op_write :: "'w option \<Rightarrow> bytes \<Rightarrow> 's \<Rightarrow> ('s, 'w) write_out"
  op_shutdownWrite :: "'s \<Rightarrow> 's"
  op_close :: "'s \<Rightarrow> 's"

section \<open>The TCP stream\<close>

text \<open>A connected socket: the bytes that have arrived, how the peer ended its side (\<open>None\<close> while it has
  not; \<open>Some None\<close> by an orderly shutdown, \<open>Some (Some e)\<close> by an error), the bytes handed to the
  system, and whether sending fails (after how many bytes, and with what).\<close>

record tcp_socket =
  tk_open :: bool
  tk_in :: bytes
  tk_fin :: "string option option"
  tk_out :: bytes
  tk_broken :: "(nat \<times> string) option"
  tk_shut :: bool

definition tcp_read :: "nat \<Rightarrow> tcp_socket \<Rightarrow> (bytes result \<times> tcp_socket) outcome" where
  "tcp_read n s =
     (if \<not> tk_open s then Done (Inl (UnavailableError ''Bad file descriptor''), s)
      else if tk_in s \<noteq> [] then Done (Inr (take n (tk_in s)), s\<lparr>tk_in := drop n (tk_in s)\<rparr>)
      else
        case tk_fin s of
          None \<Rightarrow> Waiting
        | Some None \<Rightarrow> Done (Inr [], s)
        | Some (Some e) \<Rightarrow> Done (Inl (UnavailableError e), s))"

definition tcp_write :: "unit option \<Rightarrow> bytes \<Rightarrow> tcp_socket \<Rightarrow> (tcp_socket, unit) write_out" where
  "tcp_write w bs s =
     (if \<not> tk_open s then WrReturn (Inl (UnavailableError ''Bad file descriptor'')) s
      else if tk_shut s then WrReturn (Inl (UnavailableError ''Broken pipe'')) s
      else
        case tk_broken s of
          None \<Rightarrow> WrReturn (Inr ()) (s\<lparr>tk_out := tk_out s @ bs\<rparr>)
        | Some (k, e) \<Rightarrow> WrReturn (Inl (UnavailableError e)) (s\<lparr>tk_out := tk_out s @ take k bs\<rparr>))"

definition tcp_shutdownWrite :: "tcp_socket \<Rightarrow> tcp_socket" where
  "tcp_shutdownWrite s = s\<lparr>tk_shut := True\<rparr>"

definition tcp_close :: "tcp_socket \<Rightarrow> tcp_socket" where
  "tcp_close s = s\<lparr>tk_open := False\<rparr>"

definition tcp_ops :: "(tcp_socket, unit) stream_ops" where
  "tcp_ops = \<lparr>op_read = tcp_read, op_write = tcp_write, op_shutdownWrite = tcp_shutdownWrite, op_close = tcp_close\<rparr>"

text \<open>What happens to a socket while the program waits.\<close>

inductive tcp_env :: "tcp_socket \<Rightarrow> tcp_socket \<Rightarrow> bool" where
  tcp_arrive: "tk_fin s = None \<Longrightarrow> tcp_env s (s\<lparr>tk_in := tk_in s @ bs\<rparr>)"
| tcp_ended: "tk_fin s = None \<Longrightarrow> tcp_env s (s\<lparr>tk_fin := Some e\<rparr>)"
| tcp_breaks: "tcp_env s (s\<lparr>tk_broken := Some (k, e)\<rparr>)"

section \<open>A session as a stream\<close>

text \<open>The session with what it sees of its link and the calls it has made on it.\<close>

record 'q session_stream =
  ss_session :: "'q session"
  ss_link :: link_view
  ss_calls :: "link_call list"

definition ss_read ::
  "'q chan_api \<Rightarrow> absl \<Rightarrow> nat \<Rightarrow> 'q session_stream \<Rightarrow> (bytes result \<times> 'q session_stream) outcome"
where
  "ss_read C L n s =
     (case session_read C L (ss_link s) n (ss_session s) of
        Waiting \<Rightarrow> Waiting
      | Crash \<Rightarrow> Crash
      | Done (bs, x, calls) \<Rightarrow> Done (Inr bs, s\<lparr>ss_session := x, ss_calls := ss_calls s @ calls\<rparr>))"

definition ss_write ::
  "'q chan_api \<Rightarrow> absl \<Rightarrow> nat \<Rightarrow> write_pc option \<Rightarrow> bytes \<Rightarrow> 'q session_stream
   \<Rightarrow> ('q session_stream, write_pc) write_out"
where
  "ss_write C L k w bs s =
     (case w of
        None \<Rightarrow>
          (case write_begin (ss_link s) (ss_session s) of
             Inl e \<Rightarrow> WrReturn (Inl e) s
           | Inr u \<Rightarrow> WrGoOn AtCheck bs s)
      | Some pc \<Rightarrow>
          (case write_step C L k (ss_link s) pc bs (ss_session s) of
             WriteWaiting \<Rightarrow> WrBlocked
           | WriteCrash \<Rightarrow> WrBlocked
           | WriteReturn r \<Rightarrow> WrReturn r s
           | WriteStep pc' bs' x calls \<Rightarrow> WrGoOn pc' bs' (s\<lparr>ss_session := x, ss_calls := ss_calls s @ calls\<rparr>)))"

definition ss_shutdownWrite :: "absl \<Rightarrow> 'q session_stream \<Rightarrow> 'q session_stream" where
  "ss_shutdownWrite L s =
     (case shutdownWrite L (ss_link s) (ss_session s) of
        (x, calls) \<Rightarrow> s\<lparr>ss_session := x, ss_calls := ss_calls s @ calls\<rparr>)"

definition ss_close :: "'q chan_api \<Rightarrow> absl \<Rightarrow> 'q session_stream \<Rightarrow> 'q session_stream" where
  "ss_close C L s =
     (case session_close C L (ss_link s) (ss_session s) of
        (x, calls) \<Rightarrow> s\<lparr>ss_session := x, ss_calls := ss_calls s @ calls\<rparr>)"

definition session_ops :: "'q chan_api \<Rightarrow> absl \<Rightarrow> nat \<Rightarrow> ('q session_stream, write_pc) stream_ops" where
  "session_ops C L k =
     \<lparr>op_read = ss_read C L, op_write = ss_write C L k,
      op_shutdownWrite = ss_shutdownWrite L, op_close = ss_close C L\<rparr>"

text \<open>What the reader of the link does to a session while its coroutines wait.\<close>

inductive session_env :: "'q chan_api \<Rightarrow> 'q session_stream \<Rightarrow> 'q session_stream \<Rightarrow> bool" for C where
  env_data: "onData C p (ss_session s) = Done x \<Longrightarrow> session_env C s (s\<lparr>ss_session := x\<rparr>)"
| env_window: "session_env C s (s\<lparr>ss_session := onWindow C d (ss_session s)\<rparr>)"
| env_peer_close: "session_env C s (s\<lparr>ss_session := onPeerClose C (ss_session s)\<rparr>)"
| env_reset: "session_env C s (s\<lparr>ss_session := onReset C (ss_session s)\<rparr>)"
| env_link: "session_env C s (s\<lparr>ss_link := lk\<rparr>)"

section \<open>The relay\<close>

text \<open>Where a \<^verbatim>\<open>halfCopy\<close> is: in a read, in a write of some bytes, at the shutdown, or through.\<close>

datatype 'w copy_pc = Reading | Writing "'w option" bytes | Ending | Finished

definition half_step ::
  "('a, 'v) stream_ops \<Rightarrow> ('b, 'w) stream_ops \<Rightarrow> 'w copy_pc \<times> 'a \<times> 'b \<Rightarrow> ('w copy_pc \<times> 'a \<times> 'b) option"
where
  "half_step A B st =
     (case st of (pc, a, b) \<Rightarrow>
        (case pc of
           Reading \<Rightarrow>
             (case op_read A (32 * 1024) a of
                Done (Inl e, a') \<Rightarrow> Some (Ending, a', b)
              | Done (Inr bs, a') \<Rightarrow> if bs = [] then Some (Ending, a', b) else Some (Writing None bs, a', b)
              | _ \<Rightarrow> None)
         | Writing w bs \<Rightarrow>
             (case op_write B w bs b of
                WrBlocked \<Rightarrow> None
              | WrReturn (Inl e) b' \<Rightarrow> Some (Ending, a, b')
              | WrReturn (Inr u) b' \<Rightarrow> Some (Reading, a, b')
              | WrGoOn w' bs' b' \<Rightarrow> Some (Writing (Some w') bs', a, b'))
         | Ending \<Rightarrow> Some (Finished, a, op_shutdownWrite B b)
         | Finished \<Rightarrow> None))"

text \<open>The bytes a read has just handed to a half of the relay.\<close>

fun just_read :: "'w copy_pc \<Rightarrow> 'w copy_pc \<Rightarrow> bytes" where
  "just_read Reading (Writing w bs) = bs"
| "just_read pc pc' = []"

text \<open>\<^verbatim>\<open>bidiCopy\<close>: the two halves, the two streams, and for the statements what each half has read.\<close>

record ('a, 'v, 'b, 'w) relay =
  rl_up :: "'w copy_pc"
  rl_down :: "'v copy_pc"
  rl_a :: 'a
  rl_b :: 'b
  rl_closed :: bool
  rl_got_a :: bytes
  rl_got_b :: bytes

definition relay_init :: "'a \<Rightarrow> 'b \<Rightarrow> ('a, 'v, 'b, 'w) relay" where
  "relay_init a b =
     \<lparr>rl_up = Reading, rl_down = Reading, rl_a = a, rl_b = b, rl_closed = False, rl_got_a = [], rl_got_b = []\<rparr>"

inductive relay_step ::
  "('a, 'v) stream_ops \<Rightarrow> ('b, 'w) stream_ops \<Rightarrow> ('a \<Rightarrow> 'a \<Rightarrow> bool) \<Rightarrow> ('b \<Rightarrow> 'b \<Rightarrow> bool)
   \<Rightarrow> ('a, 'v, 'b, 'w) relay \<Rightarrow> ('a, 'v, 'b, 'w) relay \<Rightarrow> bool"
  for A :: "('a, 'v) stream_ops" and B :: "('b, 'w) stream_ops" and env_a env_b
where
  relay_up: "half_step A B (rl_up r, rl_a r, rl_b r) = Some (pc, a, b) \<Longrightarrow>
    relay_step A B env_a env_b r
      (r\<lparr>rl_up := pc, rl_a := a, rl_b := b, rl_got_a := rl_got_a r @ just_read (rl_up r) pc\<rparr>)"
| relay_down: "half_step B A (rl_down r, rl_b r, rl_a r) = Some (pc, b, a) \<Longrightarrow>
    relay_step A B env_a env_b r
      (r\<lparr>rl_down := pc, rl_a := a, rl_b := b, rl_got_b := rl_got_b r @ just_read (rl_down r) pc\<rparr>)"
| relay_close: "rl_up r = Finished \<Longrightarrow> rl_down r = Finished \<Longrightarrow> \<not> rl_closed r \<Longrightarrow>
    relay_step A B env_a env_b r (r\<lparr>rl_a := op_close A (rl_a r), rl_b := op_close B (rl_b r), rl_closed := True\<rparr>)"
| relay_env_a: "env_a (rl_a r) a \<Longrightarrow> relay_step A B env_a env_b r (r\<lparr>rl_a := a\<rparr>)"
| relay_env_b: "env_b (rl_b r) b \<Longrightarrow> relay_step A B env_a env_b r (r\<lparr>rl_b := b\<rparr>)"

inductive_cases relay_stepE: "relay_step A B env_a env_b r r'"

section \<open>What a stream promises\<close>

locale byte_stream =
  fixes S :: "('s, 'w) stream_ops" and sent :: "'s \<Rightarrow> bytes" and env :: "'s \<Rightarrow> 's \<Rightarrow> bool"
  assumes read_sent: "op_read S n s = Done (r, s') \<Longrightarrow> sent s' = sent s"
    and write_ok: "op_write S w bs s = WrReturn (Inr u) s' \<Longrightarrow> sent s' = sent s @ bs"
    and write_error: "op_write S w bs s = WrReturn (Inl e) s' \<Longrightarrow> \<exists>k. sent s' = sent s @ take k bs"
    and write_on: "op_write S w bs s = WrGoOn w' bs' s' \<Longrightarrow> sent s' @ bs' = sent s @ bs"
    and shutdown_sent: "sent (op_shutdownWrite S s) = sent s"
    and close_sent: "sent (op_close S s) = sent s"
    and env_sent: "env s s' \<Longrightarrow> sent s' = sent s"

text \<open>How far a half of the relay is: everything it has read has been passed on, up to the bytes it is
  writing; once it has ended, a prefix has been.\<close>

fun half_inv :: "'w copy_pc \<Rightarrow> bytes \<Rightarrow> bytes \<Rightarrow> bool" where
  "half_inv Reading got out \<longleftrightarrow> out = got"
| "half_inv (Writing w bs) got out \<longleftrightarrow> out @ bs = got"
| "half_inv Ending got out \<longleftrightarrow> prefix out got"
| "half_inv Finished got out \<longleftrightarrow> prefix out got"

lemma half_inv_prefix: "half_inv pc got out \<Longrightarrow> prefix out got"
  by (cases pc) auto

locale stream_pair = left: byte_stream A sent_a env_a + right: byte_stream B sent_b env_b
  for A :: "('a, 'v) stream_ops" and sent_a env_a and B :: "('b, 'w) stream_ops" and sent_b env_b
begin

lemma half_step_inv:
  assumes "half_step A B (pc, a, b) = Some (pc', a', b')" and "half_inv pc got (sent_b b)"
  shows "half_inv pc' (got @ just_read pc pc') (sent_b b') \<and> sent_a a' = sent_a a"
proof (cases pc)
  case Reading
  with assms show ?thesis
    by (auto simp: half_step_def dest: left.read_sent split: outcome.splits sum.splits prod.splits if_splits)
next
  case (Writing w bs)
  show ?thesis
  proof (cases "op_write B w bs b")
    case (WrReturn r s)
    then show ?thesis
      using assms Writing right.write_ok [of w bs b _ s] right.write_error [of w bs b _ s]
      by (auto simp: half_step_def prefix_def split: sum.splits)
        (metis append.assoc append_take_drop_id)+
  next
    case (WrGoOn w' bs' s)
    then show ?thesis using assms Writing right.write_on [of w bs b w' bs' s] by (auto simp: half_step_def)
  qed (use assms Writing in \<open>simp add: half_step_def\<close>)
next
  case Ending
  with assms show ?thesis by (auto simp: half_step_def right.shutdown_sent)
qed (use assms in \<open>simp add: half_step_def\<close>)

end

sublocale stream_pair \<subseteq> swap: stream_pair B sent_b env_b A sent_a env_a
  by unfold_locales

context stream_pair
begin

definition relay_inv :: "('a, 'v, 'b, 'w) relay \<Rightarrow> bool" where
  "relay_inv r \<longleftrightarrow>
     half_inv (rl_up r) (rl_got_a r) (sent_b (rl_b r)) \<and> half_inv (rl_down r) (rl_got_b r) (sent_a (rl_a r))"

lemma relay_step_inv:
  assumes "relay_step A B env_a env_b r r'" and "relay_inv r" shows "relay_inv r'"
  using assms(1)
proof (cases rule: relay_step.cases)
  case (relay_up pc a b)
  then show ?thesis
    using half_step_inv [of "rl_up r" "rl_a r" "rl_b r" pc a b "rl_got_a r"] assms(2) by (simp add: relay_inv_def)
next
  case (relay_down pc b a)
  then show ?thesis
    using swap.half_step_inv [of "rl_down r" "rl_b r" "rl_a r" pc b a "rl_got_b r"] assms(2) by (simp add: relay_inv_def)
qed (use assms(2) in \<open>simp_all add: relay_inv_def left.close_sent right.close_sent left.env_sent right.env_sent\<close>)

lemma relay_reachable:
  assumes "(relay_step A B env_a env_b)\<^sup>*\<^sup>* (relay_init a b) r" and "sent_a a = []" and "sent_b b = []"
  shows "relay_inv r"
  using assms(1)
proof (induction rule: rtranclp_induct)
  case base
  then show ?case using assms(2,3) by (simp add: relay_inv_def relay_init_def)
next
  case (step y z)
  then show ?case using relay_step_inv by blast
qed

end

section \<open>The implementations keep the promises\<close>

interpretation tcp: byte_stream tcp_ops tk_out tcp_env
  by unfold_locales
    (auto simp: tcp_ops_def tcp_read_def tcp_write_def tcp_shutdownWrite_def tcp_close_def
      elim: tcp_env.cases split: if_splits option.splits prod.splits)

interpretation tcp_pair: stream_pair tcp_ops tk_out tcp_env tcp_ops tk_out tcp_env
  by unfold_locales

text \<open>The bytes a session has sent: the payloads of the DATA frames among those it has enqueued, as the
  peer reads them.\<close>

definition frame_data :: "absl \<Rightarrow> nat \<Rightarrow> string \<Rightarrow> bytes" where
  "frame_data L m w = (case read_frame L m w of Some (DataFrame sid p) \<Rightarrow> p | _ \<Rightarrow> [])"

definition ss_sent :: "absl \<Rightarrow> nat \<Rightarrow> 'q session_stream \<Rightarrow> bytes" where
  "ss_sent L m s = concat (map (frame_data L m) (enqueued (ss_calls s)))"

lemma ss_sent_update [simp]:
  "ss_sent L m (s\<lparr>ss_session := x, ss_calls := ss_calls s @ calls\<rparr>) =
     ss_sent L m s @ concat (map (frame_data L m) (enqueued calls))"
  "ss_sent L m (s\<lparr>ss_session := x\<rparr>) = ss_sent L m s" "ss_sent L m (s\<lparr>ss_link := lk\<rparr>) = ss_sent L m s"
  by (simp_all add: ss_sent_def)

context flow_link
begin

lemma frame_data_frames:
  "length p \<le> max_data_frame \<Longrightarrow> frame_data L max_payload (encodeData L [] sid p) = p"
  "frame_data L max_payload (encodeWindow L [] sid d) = []"
  "frame_data L max_payload (encodeClose L [] sid []) = []"
proof -
  have "read_frame L max_payload (encodeClose L [] sid []) = Some (CloseFrame sid [])"
    using read_frame_fits [of "CloseFrame sid []"] frame_room by (simp add: frame_fits_def resp2_valid_def)
  then show "frame_data L max_payload (encodeClose L [] sid []) = []" by (simp add: frame_data_def)
qed (simp_all add: frame_data_def read_data_frame read_window_frame)

lemma session_read_calls:
  assumes "session_read C L lk n s = Done (bs, s', calls)"
  shows "calls = [] \<or> (\<exists>d. calls = [EnqueueFrame (encodeWindow L [] (sess_sid s) d)])"
proof -
  have account: "calls = [] \<or> (\<exists>d. calls = [EnqueueFrame (encodeWindow L [] (sess_sid x) d)])"
    if "read_account L lk data x = Done (bs, s', calls)" for data x
    using that by (auto simp: read_account_def maybeSendWindow_def Let_def split: if_splits)
  have inbox: "calls = [] \<or> (\<exists>d. calls = [EnqueueFrame (encodeWindow L [] (sess_sid x) d)])"
    if "read_inbox C L lk n x = Done (bs, s', calls)" for x
    using that account
    by (force simp: read_inbox_def Let_def split: if_splits option.splits prod.splits msg.splits)
  from assms show ?thesis
    using account inbox by (force simp: session_read_def Let_def split: if_splits option.splits)
qed

lemma close_calls_data:
  "concat (map (frame_data L max_payload) (enqueued (snd (shutdownWrite L lk s)))) = []"
  "concat (map (frame_data L max_payload) (enqueued (snd (session_close C L lk s)))) = []"
  by (auto simp: shutdownWrite_def session_close_def Let_def frame_data_frames split: link_view.splits)

lemma write_step_sent:
  assumes "write_step C L max_data_frame lk pc bs s = WriteStep pc' bs' s' calls"
  shows "concat (map (frame_data L max_payload) (enqueued calls)) @ bs' = bs"
  using assms by (cases rule: write_step_cases) (simp_all add: frame_data_frames)

lemma write_step_return:
  assumes "write_step C L max_data_frame lk pc bs s = WriteReturn (Inr u)" shows "bs = []"
  using assms by (auto simp: write_step_def Let_def split: write_pc.splits option.splits if_splits prod.splits)

lemma ss_read_sent:
  assumes "ss_read C L n s = Done (r, s')" shows "ss_sent L max_payload s' = ss_sent L max_payload s"
  using assms session_read_calls [of "ss_link s" n "ss_session s"]
  by (auto simp: ss_read_def frame_data_frames split: outcome.splits prod.splits)

end

sublocale flow_link \<subseteq> session_stream: byte_stream "session_ops C L max_data_frame" "ss_sent L max_payload" "session_env C"
proof (unfold_locales, goal_cases)
  case (1 n s r s')
  then show ?case by (simp add: session_ops_def ss_read_sent)
next
  case (2 w bs s u s')
  then show ?case
    by (auto simp: session_ops_def ss_write_def dest: write_step_return split: option.splits sum.splits write_result.splits)
next
  case (3 w bs s e s')
  then have "s' = s" by (auto simp: session_ops_def ss_write_def split: option.splits sum.splits write_result.splits)
  then show ?case by (intro exI [of _ 0]) simp
next
  case (4 w bs s w' bs' s')
  then show ?case
    by (auto simp: session_ops_def ss_write_def dest: write_step_sent split: option.splits sum.splits write_result.splits)
next
  case (5 s)
  then show ?case
    using close_calls_data(1) [of "ss_link s" "ss_session s"]
    by (simp add: session_ops_def ss_shutdownWrite_def split: prod.splits)
next
  case (6 s)
  then show ?case
    using close_calls_data(2) [of "ss_link s" "ss_session s"]
    by (simp add: session_ops_def ss_close_def split: prod.splits)
next
  case (7 s s')
  then show ?case by (auto elim: session_env.cases)
qed

sublocale flow_link \<subseteq> tcp_session: stream_pair tcp_ops tk_out tcp_env
    "session_ops C L max_data_frame" "ss_sent L max_payload" "session_env C"
  by unfold_locales

context flow_link
begin

lemma tcp_session_halves:
  assumes "(relay_step tcp_ops (session_ops C L max_data_frame) tcp_env (session_env C))\<^sup>*\<^sup>* (relay_init a b) r"
    and "tk_out a = []" and "ss_calls b = []"
  shows "half_inv (rl_up r) (rl_got_a r) (ss_sent L max_payload (rl_b r)) \<and>
    half_inv (rl_down r) (rl_got_b r) (tk_out (rl_a r))"
  using tcp_session.relay_reachable [OF assms(1,2)] assms(3)
  by (simp add: tcp_session.relay_inv_def ss_sent_def)

end

section \<open>Properties of the relay\<close>

text \<open>C6. The relay between a TCP connection and a session changes nothing: in every interleaving of its
  two halves with arriving TCP data, arriving frames, resets and failures of the link, the DATA
  frames enqueued carry a prefix of what was read from the socket, the bytes written to the socket
  are a prefix of what was read from the session, and each half has passed on everything it has
  read whenever it goes back to reading.\<close>

theorem relay_safe:
  assumes "absl_laws L" and "chan_laws C contents capacity closed"
    and "0 < k" and "k + 9 \<le> m" and "m < 2 ^ 63"
    and "(relay_step tcp_ops (session_ops C L k) tcp_env (session_env C))\<^sup>*\<^sup>* (relay_init a b) r"
    and "tk_out a = []" and "ss_calls b = []"
  shows "prefix (ss_sent L m (rl_b r)) (rl_got_a r) \<and> prefix (tk_out (rl_a r)) (rl_got_b r)
    \<and> (rl_up r = Reading \<longrightarrow> ss_sent L m (rl_b r) = rl_got_a r)
    \<and> (rl_down r = Reading \<longrightarrow> tk_out (rl_a r) = rl_got_b r)"
proof -
  have flow: "flow_link L C contents capacity closed m k"
    using assms by (intro flow_link.intro flow_link_axioms.intro)
  from flow_link.tcp_session_halves [OF flow assms(6-8)]
  have "half_inv (rl_up r) (rl_got_a r) (ss_sent L m (rl_b r))" "half_inv (rl_down r) (rl_got_b r) (tk_out (rl_a r))"
    by blast+
  then show ?thesis by (auto dest: half_inv_prefix)
qed

definition example_socket :: "bytes \<Rightarrow> tcp_socket" where
  "example_socket bs = \<lparr>tk_open = True, tk_in = bs, tk_fin = Some None, tk_out = [], tk_broken = None, tk_shut = False\<rparr>"

definition example_stream :: "list_chan session_stream" where
  "example_stream = \<lparr>ss_session = new_session list_chan_api 5 no_address 100 100 TCP, ss_link = LinkUp, ss_calls = []\<rparr>"

theorem relay_safe_witness:
  "\<exists>r. rl_up r = Writing None [7, 8] \<and> prefix (ss_sent absl_ref 100 (rl_b r)) (rl_got_a r)
     \<and> (relay_step tcp_ops (session_ops list_chan_api absl_ref 16) tcp_env (session_env list_chan_api))\<^sup>*\<^sup>*
         (relay_init (example_socket [7, 8]) example_stream) r"
proof -
  have "half_step tcp_ops (session_ops list_chan_api absl_ref 16) (Reading, example_socket [7, 8], example_stream)
      = Some (Writing None [7, 8], example_socket [], example_stream)"
    by (simp add: half_step_def tcp_ops_def tcp_read_def example_socket_def)
  then have "relay_step tcp_ops (session_ops list_chan_api absl_ref 16) tcp_env (session_env list_chan_api)
      (relay_init (example_socket [7, 8]) example_stream)
      ((relay_init (example_socket [7, 8]) example_stream)
        \<lparr>rl_up := Writing None [7, 8], rl_a := example_socket [], rl_b := example_stream,
         rl_got_a := rl_got_a (relay_init (example_socket [7, 8]) example_stream :: (tcp_socket, unit, list_chan session_stream, write_pc) relay)
           @ just_read (rl_up (relay_init (example_socket [7, 8]) example_stream :: (tcp_socket, unit, list_chan session_stream, write_pc) relay)) (Writing None [7, 8])\<rparr>)"
    (is "relay_step _ _ _ _ ?i ?r")
    by (intro relay_step.relay_up) (simp add: relay_init_def)
  then have r: "(relay_step tcp_ops (session_ops list_chan_api absl_ref 16) tcp_env (session_env list_chan_api))\<^sup>*\<^sup>* ?i ?r" ..
  have "prefix (ss_sent absl_ref 100 (rl_b ?r)) (rl_got_a ?r)"
    using relay_safe [OF absl_ref_laws list_chan_laws _ _ _ r, of 100]
    by (simp add: example_socket_def example_stream_def)
  moreover have "rl_up ?r = Writing None [7, 8]" by simp
  ultimately show ?thesis using r by blast
qed

text \<open>A socket on which nothing fails and whose peer has sent everything and closed its side.\<close>

definition good_socket :: "tcp_socket \<Rightarrow> bool" where
  "good_socket s \<longleftrightarrow> tk_open s \<and> tk_fin s = Some None \<and> tk_broken s = None"

fun half_ok :: "unit copy_pc \<Rightarrow> bytes \<Rightarrow> tcp_socket \<Rightarrow> tcp_socket \<Rightarrow> bool" where
  "half_ok Reading input a b \<longleftrightarrow> tk_out b @ tk_in a = input \<and> \<not> tk_shut b"
| "half_ok (Writing w bs) input a b \<longleftrightarrow> tk_out b @ bs @ tk_in a = input \<and> \<not> tk_shut b"
| "half_ok Ending input a b \<longleftrightarrow> tk_out b = input \<and> tk_in a = [] \<and> \<not> tk_shut b"
| "half_ok Finished input a b \<longleftrightarrow> tk_out b = input \<and> tk_in a = [] \<and> tk_shut b"

fun half_rank :: "unit copy_pc \<Rightarrow> tcp_socket \<Rightarrow> nat" where
  "half_rank Reading a = 2 * length (tk_in a) + 2"
| "half_rank (Writing w bs) a = 2 * length (tk_in a) + 3"
| "half_rank Ending a = 1"
| "half_rank Finished a = 0"

lemma tcp_half_step:
  assumes "good_socket a" "good_socket b" "half_ok pc input a b" "half_step tcp_ops tcp_ops (pc, a, b) = Some (pc', a', b')"
  shows "half_ok pc' input a' b' \<and> good_socket a' \<and> good_socket b' \<and> half_rank pc' a' < half_rank pc a
    \<and> tk_out a' = tk_out a \<and> tk_shut a' = tk_shut a \<and> tk_in b' = tk_in b"
proof (cases pc)
  case Reading
  then show ?thesis
    using assms by (cases "tk_in a") (auto simp: half_step_def tcp_ops_def tcp_read_def good_socket_def)
next
  case (Writing w bs)
  then show ?thesis
    using assms by (auto simp: half_step_def tcp_ops_def tcp_write_def good_socket_def)
next
  case Ending
  then show ?thesis
    using assms by (auto simp: half_step_def tcp_ops_def tcp_shutdownWrite_def good_socket_def)
qed (use assms in \<open>simp add: half_step_def\<close>)

lemma tcp_half_progress:
  assumes "good_socket a" "good_socket b" "half_ok pc input a b" "pc \<noteq> Finished"
  shows "\<exists>pc' a' b'. half_step tcp_ops tcp_ops (pc, a, b) = Some (pc', a', b')"
  using assms
  by (cases pc) (auto simp: half_step_def tcp_ops_def tcp_read_def tcp_write_def good_socket_def split: list.splits)

text \<open>A relay of two such sockets: both halves are on their way, or everything is done and closed.\<close>

type_synonym tcp_relay = "(tcp_socket, unit, tcp_socket, unit) relay"

definition relayed :: "bytes \<Rightarrow> bytes \<Rightarrow> tcp_relay \<Rightarrow> bool" where
  "relayed x y r \<longleftrightarrow>
     half_ok (rl_up r) x (rl_a r) (rl_b r) \<and> half_ok (rl_down r) y (rl_b r) (rl_a r) \<and>
     (if rl_closed r then rl_up r = Finished \<and> rl_down r = Finished \<and> \<not> tk_open (rl_a r) \<and> \<not> tk_open (rl_b r)
      else good_socket (rl_a r) \<and> good_socket (rl_b r))"

definition relay_rank :: "tcp_relay \<Rightarrow> nat" where
  "relay_rank r = half_rank (rl_up r) (rl_a r) + half_rank (rl_down r) (rl_b r) + (if rl_closed r then 0 else 1)"

abbreviation tcp_relay_step :: "tcp_relay \<Rightarrow> tcp_relay \<Rightarrow> bool" where
  "tcp_relay_step \<equiv> relay_step tcp_ops tcp_ops (\<lambda>_ _. False) (\<lambda>_ _. False)"

lemma half_ok_frame:
  "tk_in a' = tk_in a \<Longrightarrow> tk_out b' = tk_out b \<Longrightarrow> tk_shut b' = tk_shut b \<Longrightarrow>
   half_ok pc x a' b' \<longleftrightarrow> half_ok pc x a b"
  by (cases pc) simp_all

lemma half_rank_frame: "tk_in a' = tk_in a \<Longrightarrow> half_rank pc a' = half_rank pc a"
  by (cases pc) simp_all

lemma half_finished: "half_step A B (Finished, a, b) = None"
  by (simp add: half_step_def)

lemma relayed_step:
  assumes "tcp_relay_step r r'" and "relayed x y r"
  shows "relayed x y r' \<and> relay_rank r' < relay_rank r"
  using assms(1)
proof (cases rule: relay_step.cases)
  case (relay_up pc a b)
  then have ok: "\<not> rl_closed r" using assms(2) by (auto simp: relayed_def half_finished)
  then have "half_ok pc x a b \<and> good_socket a \<and> good_socket b \<and> half_rank pc a < half_rank (rl_up r) (rl_a r)
      \<and> tk_out a = tk_out (rl_a r) \<and> tk_shut a = tk_shut (rl_a r) \<and> tk_in b = tk_in (rl_b r)"
    using tcp_half_step [OF _ _ _ relay_up(2), of x] assms(2) by (simp add: relayed_def)
  then show ?thesis
    using relay_up(1) assms(2) ok half_ok_frame [of b "rl_b r" a "rl_a r" "rl_down r" y] half_rank_frame [of b "rl_b r"]
    by (simp add: relayed_def relay_rank_def)
next
  case (relay_down pc b a)
  then have ok: "\<not> rl_closed r" using assms(2) by (auto simp: relayed_def half_finished)
  then have "half_ok pc y b a \<and> good_socket b \<and> good_socket a \<and> half_rank pc b < half_rank (rl_down r) (rl_b r)
      \<and> tk_out b = tk_out (rl_b r) \<and> tk_shut b = tk_shut (rl_b r) \<and> tk_in a = tk_in (rl_a r)"
    using tcp_half_step [OF _ _ _ relay_down(2), of y] assms(2) by (simp add: relayed_def)
  then show ?thesis
    using relay_down(1) assms(2) ok half_ok_frame [of a "rl_a r" b "rl_b r" "rl_up r" x] half_rank_frame [of a "rl_a r"]
    by (simp add: relayed_def relay_rank_def)
next
  case relay_close
  then show ?thesis using assms(2) by (auto simp: relayed_def relay_rank_def tcp_ops_def tcp_close_def)
qed simp_all

lemma relayed_run:
  assumes "(tcp_relay_step ^^ n) r r'" and "relayed x y r"
  shows "relayed x y r' \<and> n + relay_rank r' \<le> relay_rank r"
  using assms
proof (induction n arbitrary: r')
  case (Suc n)
  then obtain s where "(tcp_relay_step ^^ n) r s" "tcp_relay_step s r'" by auto
  then show ?case using Suc relayed_step [of s r'] by fastforce
qed simp

lemma relayed_progress:
  assumes "relayed x y r" and "\<not> rl_closed r" shows "\<exists>r'. tcp_relay_step r r'"
proof -
  have good: "good_socket (rl_a r)" "good_socket (rl_b r)" using assms by (simp_all add: relayed_def)
  consider "rl_up r \<noteq> Finished" | "rl_down r \<noteq> Finished" | "rl_up r = Finished" "rl_down r = Finished" by blast
  then show ?thesis
  proof cases
    case 1
    then show ?thesis
      using tcp_half_progress [OF good, of "rl_up r" x] assms(1) relay_step.relay_up by (fastforce simp: relayed_def)
  next
    case 2
    then show ?thesis
      using tcp_half_progress [OF good(2,1), of "rl_down r" y] assms(1) relay_step.relay_down by (fastforce simp: relayed_def)
  next
    case 3
    then show ?thesis using relay_step.relay_close assms(2) by blast
  qed
qed



end
