(* ===== verification/Tunnel.thy ===== *)
theory Tunnel
  imports Stream_Copy Link
begin

text \<open>
  A proxied TCP connection from end to end: the client's socket, the relay of the near program
  (\<^verbatim>\<open>bidiCopy(client, session)\<close> in \<^verbatim>\<open>outbound/shine_outbound.cpp\<close>), the near end of a session, the frames
  under way in both directions, the far end of the session, the relay of the far program
  (\<^verbatim>\<open>bidiCopy(session, remote)\<close> in \<^verbatim>\<open>outbound/direct_outbound.cpp\<close>) and the target's socket. The relays
  and the sessions are those of the component theories; the composition adds the frames between the
  two ends and their dispatch. A run interleaves all of it with arriving data and with failures of
  the sockets, the sessions and the link.
\<close>

section \<open>What a frame does to its session\<close>

text \<open>The frames that are dispatched to an open TCP session, and what they do to it.\<close>

fun frame_sid :: "shine_frame \<Rightarrow> u64 option" where
  "frame_sid (DataFrame sid p) = Some sid"
| "frame_sid (WindowFrame sid d) = Some sid"
| "frame_sid (CloseFrame sid reason) = Some sid"
| "frame_sid (ResetFrame sid) = Some sid"
| "frame_sid f = None"

fun frame_effect :: "'q chan_api \<Rightarrow> shine_frame \<Rightarrow> 'q session \<Rightarrow> 'q session outcome" where
  "frame_effect C (DataFrame sid p) s = onData C (as_string p) s"
| "frame_effect C (WindowFrame sid d) s = Done (onWindow C d s)"
| "frame_effect C (CloseFrame sid reason) s = Done (onPeerClose C s)"
| "frame_effect C (ResetFrame sid) s = Done (onReset C s)"
| "frame_effect C f s = Done s"

text \<open>It is what dispatching the frame on a link does to the session with its identifier, and to no
  other.\<close>

lemma dispatch_effect:
  assumes "frame_sid f = Some sid" and "findSession sid l = Some ref" and "ref < length (lk_store l)"
    and "dispatchFrame C L now f l = Done (l', acts)"
  shows "frame_effect C f (lk_store l ! ref) = Done (lk_store l' ! ref)
    \<and> (\<forall>i. i \<noteq> ref \<longrightarrow> lk_store l' ! i = lk_store l ! i)"
  using assms
  by (cases f) (auto simp: dispatchFrame_def eraseSession_def Let_def split: outcome.splits)

section \<open>The tunnel\<close>

type_synonym 'q near_relay = "(tcp_socket, unit, 'q session_stream, write_pc) relay"
type_synonym 'q far_relay = "('q session_stream, write_pc, tcp_socket, unit) relay"

text \<open>The two relays, the frames under way, whether a direction has been cut (the link failed, or the
  session is gone at the other end), and for the statements the payload delivered so far.\<close>

record 'q tunnel =
  tn_near :: "'q near_relay"
  tn_far :: "'q far_relay"
  tn_out :: "string list"
  tn_back :: "string list"
  tn_out_cut :: bool
  tn_back_cut :: bool
  tn_out_data :: bytes
  tn_back_data :: bytes

definition fresh_stream :: "'q session \<Rightarrow> 'q session_stream" where
  "fresh_stream s = \<lparr>ss_session = s, ss_link = LinkUp, ss_calls = []\<rparr>"

text \<open>The near end opened the session with its own window as credit, the far end was created by the NEW
  frame that carries it.\<close>

definition tunnel_init ::
  "'q chan_api \<Rightarrow> u64 \<Rightarrow> address \<Rightarrow> u32 \<Rightarrow> u32 \<Rightarrow> tcp_socket \<Rightarrow> tcp_socket \<Rightarrow> 'q tunnel"
where
  "tunnel_init C sid target near_window far_window client server =
     \<lparr>tn_near = relay_init client (fresh_stream (new_session C sid target near_window near_window TCP)),
      tn_far = relay_init (fresh_stream (new_session C sid target near_window far_window TCP)) server,
      tn_out = [], tn_back = [], tn_out_cut = False, tn_back_cut = False,
      tn_out_data = [], tn_back_data = []\<rparr>"

text \<open>What may happen to a session besides its frames: it is reset by its failing link, and its view of
  the link changes.\<close>

inductive session_fails :: "'q chan_api \<Rightarrow> 'q session_stream \<Rightarrow> 'q session_stream \<Rightarrow> bool" for C where
  fails_reset: "session_fails C s (s\<lparr>ss_session := onReset C (ss_session s)\<rparr>)"
| fails_link: "session_fails C s (s\<lparr>ss_link := lk\<rparr>)"

definition new_frames :: "'q session_stream \<Rightarrow> 'q session_stream \<Rightarrow> string list" where
  "new_frames s s' = enqueued (drop (length (ss_calls s)) (ss_calls s'))"

inductive tunnel_step ::
  "'q chan_api \<Rightarrow> absl \<Rightarrow> nat \<Rightarrow> nat \<Rightarrow> 'q tunnel \<Rightarrow> 'q tunnel \<Rightarrow> bool"
  for C :: "'q chan_api" and L :: absl and m k :: nat
where
  near_works:
    "relay_step tcp_ops (session_ops C L k) tcp_env (session_fails C) (tn_near t) r \<Longrightarrow>
     tunnel_step C L m k t
       (t\<lparr>tn_near := r, tn_out := tn_out t @ new_frames (rl_b (tn_near t)) (rl_b r)\<rparr>)"
| far_works:
    "relay_step (session_ops C L k) tcp_ops (session_fails C) tcp_env (tn_far t) r \<Longrightarrow>
     tunnel_step C L m k t
       (t\<lparr>tn_far := r, tn_back := tn_back t @ new_frames (rl_a (tn_far t)) (rl_a r)\<rparr>)"
| out_arrives:
    "\<not> tn_out_cut t \<Longrightarrow> tn_out t = w # ws \<Longrightarrow> read_frame L m w = Some f \<Longrightarrow>
     frame_sid f = Some (sess_sid (ss_session (rl_a (tn_far t)))) \<Longrightarrow>
     frame_effect C f (ss_session (rl_a (tn_far t))) = Done s \<Longrightarrow>
     tunnel_step C L m k t
       (t\<lparr>tn_far := (tn_far t)\<lparr>rl_a := (rl_a (tn_far t))\<lparr>ss_session := s\<rparr>\<rparr>, tn_out := ws,
          tn_out_data := tn_out_data t @ frame_data L m w\<rparr>)"
| back_arrives:
    "\<not> tn_back_cut t \<Longrightarrow> tn_back t = w # ws \<Longrightarrow> read_frame L m w = Some f \<Longrightarrow>
     frame_sid f = Some (sess_sid (ss_session (rl_b (tn_near t)))) \<Longrightarrow>
     frame_effect C f (ss_session (rl_b (tn_near t))) = Done s \<Longrightarrow>
     tunnel_step C L m k t
       (t\<lparr>tn_near := (tn_near t)\<lparr>rl_b := (rl_b (tn_near t))\<lparr>ss_session := s\<rparr>\<rparr>, tn_back := ws,
          tn_back_data := tn_back_data t @ frame_data L m w\<rparr>)"
| out_cut: "tunnel_step C L m k t (t\<lparr>tn_out_cut := True\<rparr>)"
| back_cut: "tunnel_step C L m k t (t\<lparr>tn_back_cut := True\<rparr>)"

section \<open>Observing one stream of a relay\<close>

text \<open>A relation between the bytes read from a stream and its state which every operation keeps holds
  on either side of a relay.\<close>

locale stream_observer =
  fixes S :: "('s, 'w) stream_ops" and env :: "'s \<Rightarrow> 's \<Rightarrow> bool" and P :: "bytes \<Rightarrow> 's \<Rightarrow> bool"
  assumes obs_read: "op_read S n s = Done (Inr bs, s') \<Longrightarrow> P got s \<Longrightarrow> P (got @ bs) s'"
    and obs_read_error: "op_read S n s = Done (Inl e, s') \<Longrightarrow> P got s \<Longrightarrow> P got s'"
    and obs_write: "op_write S w bs s = WrReturn r s' \<Longrightarrow> P got s \<Longrightarrow> P got s'"
    and obs_write_on: "op_write S w bs s = WrGoOn w' bs' s' \<Longrightarrow> P got s \<Longrightarrow> P got s'"
    and obs_shutdown: "P got s \<Longrightarrow> P got (op_shutdownWrite S s)"
    and obs_close: "P got s \<Longrightarrow> P got (op_close S s)"
    and obs_env: "env s s' \<Longrightarrow> P got s \<Longrightarrow> P got s'"
begin

lemma observe_source:
  assumes "half_step S B (pc, s, b) = Some (pc', s', b')" and "P got s"
  shows "P (got @ just_read pc pc') s'"
  using assms obs_read [of _ s "[]" s' got]
  by (cases pc)
     (auto simp: half_step_def dest: obs_read obs_read_error
        split: outcome.splits sum.splits prod.splits if_splits write_out.splits)

lemma observe_sink:
  assumes "half_step A S (pc, a, s) = Some (pc', a', s')" and "P got s"
  shows "P got s'"
  using assms
  by (cases pc)
     (auto simp: half_step_def intro: obs_shutdown dest: obs_write obs_write_on
        split: outcome.splits sum.splits prod.splits if_splits write_out.splits)

lemma observe_left:
  assumes "relay_step S B env env_b r r'" and "P (rl_got_a r) (rl_a r)"
  shows "P (rl_got_a r') (rl_a r')"
  using assms by cases (auto intro: obs_close obs_env dest: observe_source observe_sink)

lemma observe_right:
  assumes "relay_step A S env_a env r r'" and "P (rl_got_b r) (rl_b r)"
  shows "P (rl_got_b r') (rl_b r')"
  using assms by cases (auto intro: obs_close obs_env dest: observe_source observe_sink)

end

section \<open>The receiving end of a session\<close>

lemma pending_left_cong:
  "leftover s' = leftover s \<Longrightarrow> leftover_off s' = leftover_off s \<Longrightarrow> pending_left s' = pending_left s"
  by (cases "leftover s") (simp_all add: pending_left_def)

lemma pending_left_update [simp]:
  "pending_left (s\<lparr>inbox := q\<rparr>) = pending_left s" "pending_left (s\<lparr>sess_state := st\<rparr>) = pending_left s"
  "pending_left (s\<lparr>udp_inbox := q\<rparr>) = pending_left s" "pending_left (s\<lparr>credit_signal := q\<rparr>) = pending_left s"
  by (intro pending_left_cong; simp)+

context flow_link
begin

text \<open>The payload delivered to a session is what has been read from it, what a read has left over and
  what is in the inbox. Once the session has been closed from the other side, the inbox may be lost.\<close>

definition recv_ok :: "bytes \<Rightarrow> bytes \<Rightarrow> 'q session \<Rightarrow> bool" where
  "recv_ok data got s \<longleftrightarrow>
     (if readable s then
        \<exists>q ps. inbox s = Some q \<and> \<not> closed q \<and> contents q = map PayloadMsg ps
          \<and> data = got @ pending_left s @ as_bytes (concat ps)
      else sess_state s \<noteq> Init \<and> prefix (got @ pending_left s) data)"

lemma recv_okI:
  "readable s \<Longrightarrow> inbox s = Some q \<Longrightarrow> \<not> closed q \<Longrightarrow> contents q = map PayloadMsg ps \<Longrightarrow>
   data = got @ pending_left s @ as_bytes (concat ps) \<Longrightarrow> recv_ok data got s"
  unfolding recv_ok_def by (simp only: if_True) blast

lemma recv_ok_frame:
  assumes "recv_ok data got s"
    and "sess_state s' = sess_state s" "inbox s' = inbox s" "leftover s' = leftover s" "leftover_off s' = leftover_off s"
  shows "recv_ok data got s'"
proof -
  have same: "pending_left s' = pending_left s" "readable s' = readable s"
    using assms(2-5) by (auto intro: pending_left_cong simp: readable_def)
  show ?thesis using assms(1) unfolding recv_ok_def same assms(2,3) .
qed

lemma recv_ok_account:
  assumes "read_account L lk data s = Done (bs, s', calls)"
  shows "bs = data \<and> sess_state s' = sess_state s \<and> inbox s' = inbox s \<and> leftover s' = leftover s
    \<and> leftover_off s' = leftover_off s"
  using assms by (auto simp: read_account_def maybeSendWindow_def Let_def split: if_splits)

lemma recv_ok_read_inbox:
  assumes "read_inbox C L lk n s = Done (bs, s', calls)" and "recv_ok data got s" and "pending_left s = []"
  shows "recv_ok data (got @ bs) s'"
proof (cases "readable s")
  case False
  then have "sess_state s \<noteq> Init" using assms(2) by (simp add: recv_ok_def)
  with False assms(1) have "bs = [] \<and> s' = s"
    by (cases "sess_state s") (simp_all add: read_inbox_def readable_def)
  with assms(2) show ?thesis by simp
next
  case True
  with assms(2,3) obtain q ps where q: "inbox s = Some q" "\<not> closed q" "contents q = map PayloadMsg ps"
    and data: "data = got @ as_bytes (concat ps)"
    by (auto simp: recv_ok_def)
  have "ps \<noteq> []"
  proof
    assume "ps = []"
    with q True assms(1) show False by (auto simp: read_inbox_def readable_def)
  qed
  then obtain p ps' where ps: "ps = p # ps'" by (cases ps) auto
  with receive_ready [OF q(2), of "PayloadMsg p" "map PayloadMsg ps'"] q(3) obtain q' where
    q': "ch_receive C q = Some (Some (PayloadMsg p), q')" "contents q' = map PayloadMsg ps'" "\<not> closed q'"
    by auto
  define x where "x = (if n < length p then s\<lparr>inbox := Some q', leftover := Some p, leftover_off := n\<rparr>
    else s\<lparr>inbox := Some q'\<rparr>)"
  from True q q' assms(1) have "read_account L lk (as_bytes (take n p)) x = Done (bs, s', calls)"
    by (cases "n < length p"; cases "sess_state s") (simp_all add: read_inbox_def readable_def x_def Let_def)
  note acc = recv_ok_account [OF this]
  have x: "readable x" "inbox x = Some q'" "as_bytes p = as_bytes (take n p) @ pending_left x"
    using True assms(3)
    by (simp_all add: x_def readable_def pending_left_def [of "s\<lparr>inbox := Some q', leftover := Some p, leftover_off := n\<rparr>"]
        flip: as_bytes_append)
  have "data = (got @ as_bytes (take n p)) @ pending_left x @ as_bytes (concat ps')"
    using data x(3) by (simp add: ps)
  with x(1,2) q'(2,3) have "recv_ok data (got @ as_bytes (take n p)) x" by (intro recv_okI)
  from recv_ok_frame [OF this, of s'] acc show ?thesis by blast
qed

lemma recv_ok_read:
  assumes "session_read C L lk n s = Done (bs, s', calls)" and "recv_ok data got s"
  shows "recv_ok data (got @ bs) s'"
proof (cases "\<exists>left. leftover s = Some left \<and> leftover_off s < length left")
  case False
  then have "pending_left s = []" "session_read C L lk n s = read_inbox C L lk n s"
    by (auto simp: pending_left_def session_read_def as_bytes_def split: option.splits)
  with assms(1) show ?thesis by (intro recv_ok_read_inbox [OF _ assms(2)]) simp_all
next
  case True
  then obtain left where l: "leftover s = Some left" "leftover_off s < length left" by blast
  define d where "d = take (min n (length left - leftover_off s)) (drop (leftover_off s) left)"
  define x where "x = (if leftover_off s + min n (length left - leftover_off s) \<ge> length left
    then s\<lparr>leftover := None, leftover_off := 0\<rparr>
    else s\<lparr>leftover_off := leftover_off s + min n (length left - leftover_off s)\<rparr>)"
  from l assms(1) have "read_account L lk (as_bytes d) x = Done (bs, s', calls)"
    by (simp add: session_read_def Let_def d_def x_def)
  note acc = recv_ok_account [OF this]
  have "take n (drop (leftover_off s) left) @ drop (leftover_off s + n) left = drop (leftover_off s) left"
    by (metis append_take_drop_id drop_drop add.commute)
  then have "pending_left s = as_bytes d @ pending_left x"
    using l by (auto simp: pending_left_def d_def x_def min_def simp flip: as_bytes_append)
  moreover have "sess_state x = sess_state s" "inbox x = inbox s" by (auto simp: x_def)
  ultimately have "recv_ok data (got @ as_bytes d) x"
    using assms(2) by (auto simp: recv_ok_def readable_def split: if_splits)
  from recv_ok_frame [OF this, of s'] acc show ?thesis by blast
qed

lemma recv_ok_write:
  "write_step C L k lk pc d s = WriteStep pc' d' s' calls \<Longrightarrow> recv_ok data got s \<Longrightarrow> recv_ok data got s'"
  by (cases rule: write_step_cases [of C L k lk pc d s pc' d' s' calls]) (auto intro: recv_ok_frame [of data got s])

lemma recv_ok_window: "recv_ok data got s \<Longrightarrow> recv_ok data got (onWindow C d s)"
  by (rule recv_ok_frame) (simp_all add: onWindow_def)

lemma recv_ok_shut:
  assumes "recv_ok data got s" and "\<not> readable s'" "sess_state s' \<noteq> Init" "pending_left s' = pending_left s"
  shows "recv_ok data got s'"
  using assms by (auto simp: recv_ok_def split: if_splits)

lemma recv_ok_closing:
  assumes "recv_ok data got s"
  shows "recv_ok data got (fst (shutdownWrite L lk s))" "recv_ok data got (fst (session_close C L lk s))"
    "recv_ok data got (onReset C s)" "recv_ok data got (onPeerClose C s)"
proof -
  have "recv_ok data got (s\<lparr>sess_state := HalfClosedLocal\<rparr>)" if "sess_state s = Open"
    using assms that by (simp add: recv_ok_def readable_def)
  moreover have "recv_ok data got (s\<lparr>sess_state := Closed\<rparr>)"
    by (rule recv_ok_shut [OF assms]) (simp_all add: readable_def)
  ultimately show "recv_ok data got (fst (shutdownWrite L lk s))"
    using assms by (simp add: shutdownWrite_def Let_def)
  show "recv_ok data got (fst (session_close C L lk s))"
    by (rule recv_ok_shut [OF assms]) (simp_all add: session_close_def readable_def Let_def)
  show "recv_ok data got (onReset C s)"
    by (rule recv_ok_shut [OF assms]) (simp_all add: onReset_def readable_def)
  have "sess_state s \<noteq> Init" using assms by (auto simp: recv_ok_def readable_def split: if_splits)
  then show "recv_ok data got (onPeerClose C s)"
    by (intro recv_ok_shut [OF assms]; cases "sess_state s") (simp_all add: onPeerClose_def readable_def)
qed

lemma recv_ok_data:
  assumes "onData C (as_string p) s = Done s'" and "recv_ok data got s"
  shows "recv_ok (data @ p) got s'"
proof (cases "readable s")
  case True
  with assms(2) obtain q ps where q: "inbox s = Some q" "\<not> closed q" "contents q = map PayloadMsg ps"
    and data: "data = got @ pending_left s @ as_bytes (concat ps)"
    by (auto simp: recv_ok_def)
  show ?thesis
  proof (cases "p = []")
    case False
    with assms(1) q obtain q' where q': "ch_send C (PayloadMsg (as_string p)) q = Some q'" "s' = s\<lparr>inbox := Some q'\<rparr>"
      by (auto simp: onData_def as_string_def split: option.splits)
    have "contents q' = map PayloadMsg (ps @ [as_string p])" "\<not> closed q'"
      using send_SomeD [OF q'(1) q(2)] q(3) by simp_all
    moreover have "data @ p = got @ pending_left s' @ as_bytes (concat (ps @ [as_string p]))"
      using data q'(2) by simp
    moreover have "readable s'" "inbox s' = Some q'" using True q'(2) by (simp_all add: readable_def)
    ultimately show ?thesis by (intro recv_okI)
  qed (use assms in \<open>simp add: onData_def as_string_def\<close>)
next
  case False
  have "sess_state s' = sess_state s" "leftover s' = leftover s" "leftover_off s' = leftover_off s"
    using assms(1) by (auto simp: onData_def split: if_splits option.splits)
  moreover from this have "pending_left s' = pending_left s" by (intro pending_left_cong)
  ultimately show ?thesis using False assms(2) by (auto simp: recv_ok_def readable_def)
qed

lemma recv_ok_frame_effect:
  assumes "read_frame L max_payload w = Some f" and "frame_effect C f s = Done s'" and "recv_ok data got s"
  shows "recv_ok (data @ frame_data L max_payload w) got s'"
proof -
  have "frame_data L max_payload w = (case f of DataFrame sid p \<Rightarrow> p | _ \<Rightarrow> [])"
    using assms(1) by (simp add: frame_data_def)
  with assms(2,3) recv_ok_data [of _ s s' data got] recv_ok_closing(3,4) [OF assms(3)] recv_ok_window [OF assms(3)]
  show ?thesis by (cases f) auto
qed

end

section \<open>Frames of a session stream\<close>

text \<open>The calls of a session on its link are only ever added to.\<close>

interpretation session_calls_grow:
  stream_observer "session_ops C L k" "session_fails C" "\<lambda>got s. prefix calls (ss_calls s)" for C L k calls
proof (unfold_locales, goal_cases)
  case (1 n s bs s' got)
  then show ?case by (auto simp: session_ops_def ss_read_def split: outcome.splits prod.splits)
next
  case (2 n s e s' got)
  then show ?case by (auto simp: session_ops_def ss_read_def split: outcome.splits prod.splits)
next
  case (3 w bs s r s' got)
  then show ?case by (auto simp: session_ops_def ss_write_def split: option.splits sum.splits write_result.splits)
next
  case (4 w bs s w' bs' s' got)
  then show ?case by (auto simp: session_ops_def ss_write_def split: option.splits sum.splits write_result.splits)
next
  case (5 got s)
  then show ?case by (auto simp: session_ops_def ss_shutdownWrite_def split: prod.splits)
next
  case (6 got s)
  then show ?case by (auto simp: session_ops_def ss_close_def split: prod.splits)
next
  case (7 s s' got)
  then show ?case by (auto elim: session_fails.cases)
qed

lemma sent_new_frames:
  assumes "prefix (ss_calls s) (ss_calls s')"
  shows "ss_sent L m s' = ss_sent L m s @ concat (map (frame_data L m) (new_frames s s'))"
  using assms by (auto simp: ss_sent_def new_frames_def prefix_def)

text \<open>A client that has sent everything: what has been read and what is left is what it sent.\<close>

interpretation tcp_input:
  stream_observer tcp_ops tcp_env "\<lambda>got s. tk_fin s = Some e \<and> got @ tk_in s = input" for e input
  by unfold_locales
    (auto simp: tcp_ops_def tcp_read_def tcp_write_def tcp_shutdownWrite_def tcp_close_def
      elim: tcp_env.cases split: if_splits option.splits prod.splits)

lemma session_fails_env: "session_fails C s s' \<Longrightarrow> session_env C s s'"
  by (auto elim!: session_fails.cases intro: session_env.intros)

lemma relay_step_mono:
  assumes "relay_step A B env_a env_b r r'"
    and "\<And>s s'. env_a s s' \<Longrightarrow> env_a' s s'" and "\<And>s s'. env_b s s' \<Longrightarrow> env_b' s s'"
  shows "relay_step A B env_a' env_b' r r'"
  using assms(1)
proof cases
  case (relay_up pc a b)
  then show ?thesis by (simp add: relay_step.relay_up)
next
  case (relay_down pc b a)
  then show ?thesis by (simp add: relay_step.relay_down)
next
  case relay_close
  then show ?thesis by (simp add: relay_step.relay_close)
next
  case (relay_env_a a)
  then show ?thesis using assms(2) by (simp add: relay_step.relay_env_a)
next
  case (relay_env_b b)
  then show ?thesis using assms(3) by (simp add: relay_step.relay_env_b)
qed

section \<open>The invariant of the tunnel\<close>

sublocale flow_link \<subseteq> receiving: stream_observer "session_ops C L k" "session_fails C"
    "\<lambda>got s. recv_ok data got (ss_session s)" for k data
proof (unfold_locales, goal_cases)
  case (1 n s bs s' got)
  then show ?case by (auto simp: session_ops_def ss_read_def dest: recv_ok_read split: outcome.splits prod.splits)
next
  case (2 n s e s' got)
  then show ?case by (auto simp: session_ops_def ss_read_def split: outcome.splits prod.splits)
next
  case (3 w bs s r s' got)
  then show ?case by (auto simp: session_ops_def ss_write_def split: option.splits sum.splits write_result.splits)
next
  case (4 w bs s w' bs' s' got)
  then show ?case
    by (auto simp: session_ops_def ss_write_def dest: recv_ok_write split: option.splits sum.splits write_result.splits)
next
  case (5 got s)
  then show ?case
    using recv_ok_closing(1) [of data got "ss_session s" "ss_link s"]
    by (auto simp: session_ops_def ss_shutdownWrite_def split: prod.splits)
next
  case (6 got s)
  then show ?case
    using recv_ok_closing(2) [of data got "ss_session s" "ss_link s"]
    by (auto simp: session_ops_def ss_close_def split: prod.splits)
next
  case (7 s s' got)
  then show ?case by (cases rule: session_fails.cases) (simp_all add: recv_ok_closing(3))
qed

context flow_link
begin

definition tunnel_inv :: "'q tunnel \<Rightarrow> bool" where
  "tunnel_inv t \<longleftrightarrow>
     tcp_session.relay_inv (tn_near t) \<and> tcp_session.swap.relay_inv (tn_far t)
     \<and> tn_out_data t @ concat (map (frame_data L max_payload) (tn_out t)) = ss_sent L max_payload (rl_b (tn_near t))
     \<and> tn_back_data t @ concat (map (frame_data L max_payload) (tn_back t)) = ss_sent L max_payload (rl_a (tn_far t))
     \<and> recv_ok (tn_out_data t) (rl_got_a (tn_far t)) (ss_session (rl_a (tn_far t)))
     \<and> recv_ok (tn_back_data t) (rl_got_b (tn_near t)) (ss_session (rl_b (tn_near t)))"

lemma new_session_recv: "recv_ok [] [] (new_session C sid target peer our TCP)"
  by (rule recv_okI [where q = "ch_new C 1024" and ps = "[]"]) (simp_all add: new_session_def readable_def pending_left_def)

lemma tunnel_inv_init:
  assumes "tk_out client = []" and "tk_out server = []"
  shows "tunnel_inv (tunnel_init C sid target near_window far_window client server)"
  using assms
  by (simp add: tunnel_inv_def tunnel_init_def relay_init_def fresh_stream_def ss_sent_def new_session_recv
      tcp_session.relay_inv_def tcp_session.swap.relay_inv_def)

lemma tunnel_inv_step:
  assumes "tunnel_step C L max_payload max_data_frame t t'" and inv: "tunnel_inv t"
  shows "tunnel_inv t'"
  using assms(1)
proof cases
  case (near_works r)
  have "prefix (ss_calls (rl_b (tn_near t))) (ss_calls (rl_b r))"
    by (rule session_calls_grow.observe_right [OF near_works(2)]) simp
  note sent = sent_new_frames [OF this]
  have "relay_step tcp_ops (session_ops C L max_data_frame) tcp_env (session_env C) (tn_near t) r"
    by (rule relay_step_mono [OF near_works(2)]) (simp_all add: session_fails_env)
  then have "tcp_session.relay_inv r"
    by (rule tcp_session.relay_step_inv) (use inv in \<open>simp add: tunnel_inv_def\<close>)
  moreover have "recv_ok (tn_back_data t) (rl_got_b r) (ss_session (rl_b r))"
    by (rule receiving.observe_right [OF near_works(2)]) (use inv in \<open>simp add: tunnel_inv_def\<close>)
  ultimately show ?thesis
    using inv unfolding near_works(1) by (simp add: tunnel_inv_def sent flip: append.assoc)
next
  case (far_works r)
  have "prefix (ss_calls (rl_a (tn_far t))) (ss_calls (rl_a r))"
    by (rule session_calls_grow.observe_left [OF far_works(2)]) simp
  note sent = sent_new_frames [OF this]
  have "relay_step (session_ops C L max_data_frame) tcp_ops (session_env C) tcp_env (tn_far t) r"
    by (rule relay_step_mono [OF far_works(2)]) (simp_all add: session_fails_env)
  then have "tcp_session.swap.relay_inv r"
    by (rule tcp_session.swap.relay_step_inv) (use inv in \<open>simp add: tunnel_inv_def\<close>)
  moreover have "recv_ok (tn_out_data t) (rl_got_a r) (ss_session (rl_a r))"
    by (rule receiving.observe_left [OF far_works(2)]) (use inv in \<open>simp add: tunnel_inv_def\<close>)
  ultimately show ?thesis
    using inv unfolding far_works(1) by (simp add: tunnel_inv_def sent flip: append.assoc)
next
  case (out_arrives w ws f s)
  have "recv_ok (tn_out_data t @ frame_data L max_payload w) (rl_got_a (tn_far t)) s"
    by (rule recv_ok_frame_effect [OF out_arrives(4,6)]) (use inv in \<open>simp add: tunnel_inv_def\<close>)
  then show ?thesis
    using inv out_arrives(3) unfolding out_arrives(1)
    by (simp add: tunnel_inv_def tcp_session.swap.relay_inv_def ss_sent_def)
next
  case (back_arrives w ws f s)
  have "recv_ok (tn_back_data t @ frame_data L max_payload w) (rl_got_b (tn_near t)) s"
    by (rule recv_ok_frame_effect [OF back_arrives(4,6)]) (use inv in \<open>simp add: tunnel_inv_def\<close>)
  then show ?thesis
    using inv back_arrives(3) unfolding back_arrives(1)
    by (simp add: tunnel_inv_def tcp_session.relay_inv_def ss_sent_def)
qed (use inv in \<open>simp_all add: tunnel_inv_def\<close>)

lemma recv_ok_prefix: "recv_ok data got s \<Longrightarrow> prefix got data"
  by (auto simp: recv_ok_def prefix_def split: if_splits)

lemma tunnel_inv_prefix:
  assumes "tunnel_inv t"
  shows "prefix (tk_out (rl_b (tn_far t))) (rl_got_a (tn_near t))"
    and "prefix (tk_out (rl_a (tn_near t))) (rl_got_b (tn_far t))"
proof -
  have "prefix (tk_out (rl_b (tn_far t))) (rl_got_a (tn_far t))"
    and "prefix (tk_out (rl_a (tn_near t))) (rl_got_b (tn_near t))"
    and "prefix (ss_sent L max_payload (rl_b (tn_near t))) (rl_got_a (tn_near t))"
    and "prefix (ss_sent L max_payload (rl_a (tn_far t))) (rl_got_b (tn_far t))"
    using assms
    by (auto simp: tunnel_inv_def tcp_session.relay_inv_def tcp_session.swap.relay_inv_def dest: half_inv_prefix)
  moreover have "prefix (rl_got_a (tn_far t)) (tn_out_data t)" "prefix (rl_got_b (tn_near t)) (tn_back_data t)"
    using assms by (auto simp: tunnel_inv_def dest: recv_ok_prefix)
  moreover have "prefix (tn_out_data t) (ss_sent L max_payload (rl_b (tn_near t)))"
    "prefix (tn_back_data t) (ss_sent L max_payload (rl_a (tn_far t)))"
    using assms by (auto simp: tunnel_inv_def intro: prefixI [OF sym])
  ultimately show "prefix (tk_out (rl_b (tn_far t))) (rl_got_a (tn_near t))"
    and "prefix (tk_out (rl_a (tn_near t))) (rl_got_b (tn_far t))"
    by (blast intro: prefix_order.trans)+
qed

lemma tunnel_reachable:
  assumes "(tunnel_step C L max_payload max_data_frame)\<^sup>*\<^sup>* (tunnel_init C sid target nw fw client server) t"
    and "tk_out client = []" and "tk_out server = []"
  shows "tunnel_inv t"
  using assms(1)
proof (induction rule: rtranclp_induct)
  case base
  show ?case using assms(2,3) by (rule tunnel_inv_init)
next
  case (step y z)
  then show ?case using tunnel_inv_step by blast
qed

end

section \<open>What the peers have sent\<close>

lemma tunnel_client_input:
  assumes "(tunnel_step C L m k)\<^sup>*\<^sup>* (tunnel_init C sid target nw fw client server) t" and "tk_fin client = Some e"
  shows "tk_fin (rl_a (tn_near t)) = Some e \<and> rl_got_a (tn_near t) @ tk_in (rl_a (tn_near t)) = tk_in client"
  using assms(1)
proof (induction rule: rtranclp_induct)
  case base
  show ?case using assms(2) by (simp add: tunnel_init_def relay_init_def)
next
  case (step y z)
  from step.hyps(2) show ?case
  proof cases
    case (near_works r)
    with tcp_input.observe_left [OF near_works(2), of e "tk_in client"] step.IH show ?thesis by simp
  qed (use step.IH in simp_all)
qed

lemma tunnel_server_input:
  assumes "(tunnel_step C L m k)\<^sup>*\<^sup>* (tunnel_init C sid target nw fw client server) t" and "tk_fin server = Some e"
  shows "tk_fin (rl_b (tn_far t)) = Some e \<and> rl_got_b (tn_far t) @ tk_in (rl_b (tn_far t)) = tk_in server"
  using assms(1)
proof (induction rule: rtranclp_induct)
  case base
  show ?case using assms(2) by (simp add: tunnel_init_def relay_init_def)
next
  case (step y z)
  from step.hyps(2) show ?case
  proof cases
    case (far_works r)
    with tcp_input.observe_right [OF far_works(2), of e "tk_in server"] step.IH show ?thesis by simp
  qed (use step.IH in simp_all)
qed

section \<open>Running a tunnel\<close>

text \<open>An executable scheduler: who takes the next step.\<close>

datatype turn = NearUp | NearDown | FarUp | FarDown | OutArrives | BackArrives

definition near_turn :: "'q tunnel \<Rightarrow> 'q near_relay \<Rightarrow> 'q tunnel" where
  "near_turn t r = t\<lparr>tn_near := r, tn_out := tn_out t @ new_frames (rl_b (tn_near t)) (rl_b r)\<rparr>"

definition far_turn :: "'q tunnel \<Rightarrow> 'q far_relay \<Rightarrow> 'q tunnel" where
  "far_turn t r = t\<lparr>tn_far := r, tn_back := tn_back t @ new_frames (rl_a (tn_far t)) (rl_a r)\<rparr>"

definition up_turn ::
  "('a, 'v) stream_ops \<Rightarrow> ('b, 'w) stream_ops \<Rightarrow> ('a, 'v, 'b, 'w) relay \<Rightarrow> ('a, 'v, 'b, 'w) relay option"
where
  "up_turn A B r =
     map_option (\<lambda>(pc, a, b). r\<lparr>rl_up := pc, rl_a := a, rl_b := b, rl_got_a := rl_got_a r @ just_read (rl_up r) pc\<rparr>)
       (half_step A B (rl_up r, rl_a r, rl_b r))"

definition down_turn ::
  "('a, 'v) stream_ops \<Rightarrow> ('b, 'w) stream_ops \<Rightarrow> ('a, 'v, 'b, 'w) relay \<Rightarrow> ('a, 'v, 'b, 'w) relay option"
where
  "down_turn A B r =
     map_option (\<lambda>(pc, b, a). r\<lparr>rl_down := pc, rl_a := a, rl_b := b, rl_got_b := rl_got_b r @ just_read (rl_down r) pc\<rparr>)
       (half_step B A (rl_down r, rl_b r, rl_a r))"

text \<open>The next frame under way reaches a session, if it is one of that session.\<close>

definition arrive ::
  "'q chan_api \<Rightarrow> absl \<Rightarrow> nat \<Rightarrow> string list \<Rightarrow> 'q session \<Rightarrow> ('q session \<times> string list \<times> bytes) option"
where
  "arrive C L m ws s =
     (case ws of
        [] \<Rightarrow> None
      | w # ws \<Rightarrow>
          (case read_frame L m w of
             None \<Rightarrow> None
           | Some f \<Rightarrow>
               if frame_sid f = Some (sess_sid s) then
                 (case frame_effect C f s of Done s' \<Rightarrow> Some (s', ws, frame_data L m w) | _ \<Rightarrow> None)
               else None))"

fun take_turn :: "'q chan_api \<Rightarrow> absl \<Rightarrow> nat \<Rightarrow> nat \<Rightarrow> turn \<Rightarrow> 'q tunnel \<Rightarrow> 'q tunnel option" where
  "take_turn C L m k NearUp t = map_option (near_turn t) (up_turn tcp_ops (session_ops C L k) (tn_near t))"
| "take_turn C L m k NearDown t = map_option (near_turn t) (down_turn tcp_ops (session_ops C L k) (tn_near t))"
| "take_turn C L m k FarUp t = map_option (far_turn t) (up_turn (session_ops C L k) tcp_ops (tn_far t))"
| "take_turn C L m k FarDown t = map_option (far_turn t) (down_turn (session_ops C L k) tcp_ops (tn_far t))"
| "take_turn C L m k OutArrives t =
     (if tn_out_cut t then None
      else map_option
        (\<lambda>(s, ws, d). t\<lparr>tn_far := (tn_far t)\<lparr>rl_a := (rl_a (tn_far t))\<lparr>ss_session := s\<rparr>\<rparr>, tn_out := ws,
           tn_out_data := tn_out_data t @ d\<rparr>)
        (arrive C L m (tn_out t) (ss_session (rl_a (tn_far t)))))"
| "take_turn C L m k BackArrives t =
     (if tn_back_cut t then None
      else map_option
        (\<lambda>(s, ws, d). t\<lparr>tn_near := (tn_near t)\<lparr>rl_b := (rl_b (tn_near t))\<lparr>ss_session := s\<rparr>\<rparr>, tn_back := ws,
           tn_back_data := tn_back_data t @ d\<rparr>)
        (arrive C L m (tn_back t) (ss_session (rl_b (tn_near t)))))"

fun take_turns :: "'q chan_api \<Rightarrow> absl \<Rightarrow> nat \<Rightarrow> nat \<Rightarrow> turn list \<Rightarrow> 'q tunnel \<Rightarrow> 'q tunnel option" where
  "take_turns C L m k [] t = Some t"
| "take_turns C L m k (x # xs) t =
     (case take_turn C L m k x t of None \<Rightarrow> None | Some t \<Rightarrow> take_turns C L m k xs t)"

lemma up_turn_step: "up_turn A B r = Some r' \<Longrightarrow> relay_step A B env_a env_b r r'"
  by (auto simp: up_turn_def intro: relay_step.relay_up)

lemma down_turn_step: "down_turn A B r = Some r' \<Longrightarrow> relay_step A B env_a env_b r r'"
  by (auto simp: down_turn_def intro: relay_step.relay_down)

lemma arriveD:
  assumes "arrive C L m ws s = Some (s', ws', d)"
  obtains w f where "ws = w # ws'" "read_frame L m w = Some f" "frame_sid f = Some (sess_sid s)"
    "frame_effect C f s = Done s'" "d = frame_data L m w"
  using assms by (auto simp: arrive_def split: list.splits option.splits if_splits outcome.splits)

lemma take_turn_step:
  assumes "take_turn C L m k x t = Some t'" shows "tunnel_step C L m k t t'"
proof (cases x)
  case OutArrives
  with assms obtain s ws d where t: "arrive C L m (tn_out t) (ss_session (rl_a (tn_far t))) = Some (s, ws, d)"
      "\<not> tn_out_cut t"
      "t' = t\<lparr>tn_far := (tn_far t)\<lparr>rl_a := (rl_a (tn_far t))\<lparr>ss_session := s\<rparr>\<rparr>, tn_out := ws,
        tn_out_data := tn_out_data t @ d\<rparr>"
    by (auto split: if_splits)
  from t(1) show ?thesis by (cases rule: arriveD) (use t(2,3) in \<open>auto intro: tunnel_step.out_arrives\<close>)
next
  case BackArrives
  with assms obtain s ws d where t: "arrive C L m (tn_back t) (ss_session (rl_b (tn_near t))) = Some (s, ws, d)"
      "\<not> tn_back_cut t"
      "t' = t\<lparr>tn_near := (tn_near t)\<lparr>rl_b := (rl_b (tn_near t))\<lparr>ss_session := s\<rparr>\<rparr>, tn_back := ws,
        tn_back_data := tn_back_data t @ d\<rparr>"
    by (auto split: if_splits)
  from t(1) show ?thesis by (cases rule: arriveD) (use t(2,3) in \<open>auto intro: tunnel_step.back_arrives\<close>)
qed (use assms in \<open>auto simp: near_turn_def far_turn_def
      intro: tunnel_step.near_works tunnel_step.far_works up_turn_step down_turn_step\<close>)

lemma take_turns_run: "take_turns C L m k xs t = Some t' \<Longrightarrow> (tunnel_step C L m k)\<^sup>*\<^sup>* t t'"
  by (induction xs arbitrary: t)
     (auto split: option.splits dest: take_turn_step intro: converse_rtranclp_into_rtranclp)

section \<open>Properties of the tunnel\<close>

text \<open>C2. End-to-end safety of a proxied TCP connection: in every interleaving of the two relays, the
  frames under way in both directions, arriving data and failures of sockets, sessions and the
  link, the bytes written to the target are a prefix of those the near relay has read from the
  client, and the bytes written to the client are a prefix of those the far relay has read from the
  target. In particular, when a peer has sent everything, what the other one receives is a prefix
  of it: nothing is lost in the middle, reordered, repeated or changed.\<close>

theorem tunnel_safe:
  assumes "absl_laws L" and "chan_laws C contents capacity closed"
    and "0 < k" and "k + 9 \<le> m" and "m < 2 ^ 63"
    and "(tunnel_step C L m k)\<^sup>*\<^sup>* (tunnel_init C sid target near_window far_window client server) t"
    and "tk_out client = []" and "tk_out server = []"
  shows "prefix (tk_out (rl_b (tn_far t))) (rl_got_a (tn_near t))
    \<and> prefix (tk_out (rl_a (tn_near t))) (rl_got_b (tn_far t))
    \<and> (tk_fin client \<noteq> None \<longrightarrow> prefix (tk_out (rl_b (tn_far t))) (tk_in client))
    \<and> (tk_fin server \<noteq> None \<longrightarrow> prefix (tk_out (rl_a (tn_near t))) (tk_in server))"
proof -
  have flow: "flow_link L C contents capacity closed m k"
    using assms by (intro flow_link.intro flow_link_axioms.intro)
  note inv = flow_link.tunnel_reachable [OF flow assms(6-8)]
  note safe = flow_link.tunnel_inv_prefix [OF flow inv]
  have "prefix (rl_got_a (tn_near t)) (tk_in client)" if "tk_fin client \<noteq> None"
    using tunnel_client_input [OF assms(6)] that by (metis option.exhaust prefixI)
  moreover have "prefix (rl_got_b (tn_far t)) (tk_in server)" if "tk_fin server \<noteq> None"
    using tunnel_server_input [OF assms(6)] that by (metis option.exhaust prefixI)
  ultimately show ?thesis using safe by (blast intro: prefix_order.trans)
qed

text \<open>A client that has sent two bytes, a target that answers with one, and a whole exchange.\<close>

definition example_tunnel :: "bytes \<Rightarrow> bytes \<Rightarrow> list_chan tunnel" where
  "example_tunnel x y =
     tunnel_init list_chan_api 5 no_address 100 100 (example_socket x) (example_socket y)"

interpretation small_flow: flow_link absl_ref list_chan_api lc_items lc_capacity lc_closed 100 16
  by (intro flow_link.intro flow_link_axioms.intro absl_ref_laws list_chan_laws) simp_all

lemmas turn_simps =
  example_tunnel_def example_socket_def tunnel_init_def relay_init_def fresh_stream_def new_session_def
  up_turn_def down_turn_def near_turn_def far_turn_def new_frames_def half_step_def tcp_ops_def tcp_read_def
  tcp_write_def tcp_shutdownWrite_def session_ops_def ss_read_def ss_write_def ss_shutdownWrite_def write_begin_def
  write_step_def shutdownWrite_def session_read_def read_inbox_def read_account_def maybeSendWindow_def Let_def
  onData_def onPeerClose_def close_chan_def list_chan_api_def i64_def arrive_def

lemma read_close_frame: "read_frame absl_ref 100 (encodeClose absl_ref [] 5 []) = Some (CloseFrame 5 [])"
  by (rule small_flow.read_frame_fits [of "CloseFrame 5 []", simplified])
     (simp add: frame_fits_def resp2_valid_def)

lemma delivered_run:
  "\<exists>t. take_turns list_chan_api absl_ref 100 16
      [NearUp, NearUp, NearUp, NearUp, OutArrives, FarUp, FarUp] (example_tunnel [7, 8] [9]) = Some t
    \<and> tk_out (rl_b (tn_far t)) = [7, 8]"
  by (simp add: turn_simps small_flow.read_data_frame small_flow.frame_data_frames)

lemma truncated_run:
  "\<exists>t. take_turns list_chan_api absl_ref 100 16
      [NearUp, NearUp, NearUp, NearUp, NearUp, NearUp, OutArrives, OutArrives, FarUp, FarUp]
      (example_tunnel [7, 8] []) = Some t
    \<and> rl_up (tn_near t) = Finished \<and> tn_out_data t = [7, 8]
    \<and> rl_up (tn_far t) = Finished \<and> tk_shut (rl_b (tn_far t)) \<and> tk_out (rl_b (tn_far t)) = []"
  by (simp add: turn_simps small_flow.read_data_frame small_flow.frame_data_frames read_close_frame)

theorem tunnel_safe_witness:
  "\<exists>t. (tunnel_step list_chan_api absl_ref 100 16)\<^sup>*\<^sup>* (example_tunnel [7, 8] [9]) t
     \<and> tk_out (rl_b (tn_far t)) = [7, 8] \<and> prefix (tk_out (rl_b (tn_far t))) (rl_got_a (tn_near t))"
proof -
  from delivered_run obtain t where t: "tk_out (rl_b (tn_far t)) = [7, 8]"
    and run: "(tunnel_step list_chan_api absl_ref 100 16)\<^sup>*\<^sup>* (example_tunnel [7, 8] [9]) t"
    using take_turns_run by blast
  have "prefix (tk_out (rl_b (tn_far t))) (rl_got_a (tn_near t))"
    using tunnel_safe [OF absl_ref_laws list_chan_laws _ _ _ run [unfolded example_tunnel_def]]
    by (simp add: example_socket_def)
  with t run show ?thesis by blast
qed


end
