(* ===== verification/Config.thy ===== *)
theory Config
  imports Complex_Main Absl_Reference
begin

text \<open>
  Model of \<^verbatim>\<open>config/schema.hpp\<close> and \<^verbatim>\<open>config/yaml_loader.cpp\<close>: the configuration records, the parsers of
  durations and sizes, the conversion of a YAML document into a configuration, and its validation.
  The YAML library and the conversion between text and floating point numbers are parameters
  (\<open>yaml\<close>, \<open>fp\<close>). A C++ exception of the YAML library ends the whole conversion with a status, as
  does an early return, so both are the \<open>Inl\<close> of a \<open>result\<close>.
\<close>

section \<open>The schema\<close>

text \<open>Durations in whole seconds are \<open>int\<close>; \<^verbatim>\<open>std::size_t\<close> is \<open>u64\<close>.\<close>

record inbound_config =
  in_tag :: string
  in_protocol :: string
  in_listen :: string
  in_password :: string
  in_max_payload :: u64
  in_ping_interval :: int
  in_pong_timeout :: int
  in_handshake_timeout :: int
  in_init_window :: u32
  in_user :: string
  in_pass :: string

record outbound_config =
  out_tag :: string
  out_protocol :: string
  out_server :: string
  out_password :: string
  out_pool_size :: u64
  out_ping_interval :: int
  out_pong_timeout :: int
  out_handshake_timeout :: int
  out_init_window :: u32
  out_user :: string
  out_pass :: string

record rule_config =
  rc_inbound_tag :: "string option"
  rc_domain_exact :: "string list"
  rc_domain_suffix :: "string list"
  rc_cidrs :: "string list"
  rc_geoip :: "string list"
  rc_geosite :: "string list"
  rc_outbound_tag :: string

record route_config =
  geoip_path :: string
  geosite_path :: string
  route_rules :: "rule_config list"
  default_outbound :: string

record log_config =
  log_level :: string
  log_format :: string

record metrics_config =
  metrics_listen :: string
  metrics_path :: string

record server_config =
  io_threads :: u64
  graceful_timeout :: int

record config =
  cfg_log :: log_config
  cfg_server :: server_config
  cfg_metrics :: metrics_config
  cfg_inbounds :: "inbound_config list"
  cfg_outbounds :: "outbound_config list"
  cfg_route :: route_config

definition default_inbound :: inbound_config where
  "default_inbound =
     \<lparr>in_tag = [], in_protocol = [], in_listen = [], in_password = [],
      in_max_payload = 512 * 1024 * 1024, in_ping_interval = 15, in_pong_timeout = 10,
      in_handshake_timeout = 5, in_init_window = 256 * 1024, in_user = [], in_pass = []\<rparr>"

definition default_outbound_config :: outbound_config where
  "default_outbound_config =
     \<lparr>out_tag = [], out_protocol = [], out_server = [], out_password = [], out_pool_size = 1,
      out_ping_interval = 15, out_pong_timeout = 10, out_handshake_timeout = 5,
      out_init_window = 256 * 1024, out_user = [], out_pass = []\<rparr>"

definition empty_rule :: rule_config where
  "empty_rule =
     \<lparr>rc_inbound_tag = None, rc_domain_exact = [], rc_domain_suffix = [], rc_cidrs = [],
      rc_geoip = [], rc_geosite = [], rc_outbound_tag = []\<rparr>"

definition default_config :: config where
  "default_config =
     \<lparr>cfg_log = \<lparr>log_level = ''info'', log_format = ''text''\<rparr>,
      cfg_server = \<lparr>io_threads = 0, graceful_timeout = 30\<rparr>,
      cfg_metrics = \<lparr>metrics_listen = ''127.0.0.1:9100'', metrics_path = ''/metrics''\<rparr>,
      cfg_inbounds = [], cfg_outbounds = [],
      cfg_route = \<lparr>geoip_path = [], geosite_path = [], route_rules = [], default_outbound = []\<rparr>\<rparr>"

section \<open>Durations\<close>

text \<open>Finite doubles are rationals. \<open>fp_round\<close> rounds the exact result of a multiplication to a
  double, \<open>fp_to_i64\<close> is the conversion to a 64-bit integer (which C++ leaves undefined when the
  truncated value does not fit), and \<open>SimpleAtod\<close> is Abseil's reader of decimal numbers.\<close>

record fp =
  SimpleAtod :: "string \<Rightarrow> rat option"
  fp_round :: "rat \<Rightarrow> rat"
  fp_to_i64 :: "rat \<Rightarrow> int"

locale fp_laws =
  fixes F :: fp
  assumes atod_dec: "n \<le> 2 ^ 53 \<Longrightarrow> SimpleAtod F (dec n) = Some (of_nat n)"
    and round_exact: "n \<le> 2 ^ 53 \<Longrightarrow> fp_round F (of_nat n) = of_nat n"
    and to_i64_exact: "n < 2 ^ 63 \<Longrightarrow> fp_to_i64 F (of_nat n) = int n"

definition duration_char :: "char \<Rightarrow> bool" where
  "duration_char c \<longleftrightarrow> is_digit c \<or> c = CHR ''.''"

definition fp_times :: "fp \<Rightarrow> rat \<Rightarrow> rat \<Rightarrow> rat" where
  "fp_times F x y = fp_round F (x * y)"

definition parseDuration :: "fp \<Rightarrow> string \<Rightarrow> int result" where
  "parseDuration F s =
     (if s = [] then Inl (InvalidArgumentError ''empty duration'')
      else
        let idx = length (takeWhile duration_char s) in
        if idx = 0 then Inl (InvalidArgumentError (''bad duration: '' @ s))
        else
          case SimpleAtod F (take idx s) of
            None \<Rightarrow> Inl (InvalidArgumentError ''bad number'')
          | Some val \<Rightarrow>
              let unit = drop idx s in
              if unit = ''ms'' then Inr (fp_to_i64 F val)
              else if unit = ''s'' \<or> unit = [] then Inr (fp_to_i64 F (fp_times F val 1000))
              else if unit = ''m'' then Inr (fp_to_i64 F (fp_times F (fp_times F val 60) 1000))
              else if unit = ''h'' then Inr (fp_to_i64 F (fp_times F (fp_times F val 3600) 1000))
              else Inl (InvalidArgumentError (''unknown unit: '' @ unit)))"

text \<open>\<^verbatim>\<open>std::chrono::duration_cast<seconds>\<close> truncates towards zero.\<close>

definition ms_to_seconds :: "int \<Rightarrow> int" where
  "ms_to_seconds ms = (if ms < 0 then - (- ms div 1000) else ms div 1000)"

section \<open>Sizes\<close>

definition size_unit :: "string \<Rightarrow> u64 option" where
  "size_unit unit =
     (if unit = '''' \<or> unit = ''B'' then Some 1
      else if unit = ''K'' \<or> unit = ''KB'' \<or> unit = ''KiB'' then Some 1024
      else if unit = ''M'' \<or> unit = ''MB'' \<or> unit = ''MiB'' then Some (1024 * 1024)
      else if unit = ''G'' \<or> unit = ''GB'' \<or> unit = ''GiB'' then Some (1024 * 1024 * 1024)
      else None)"

definition parseSize :: "absl \<Rightarrow> string \<Rightarrow> u64 result" where
  "parseSize L s =
     (if s = [] then Inl (InvalidArgumentError ''empty size'')
      else
        let idx = length (takeWhile is_digit s) in
        if idx = 0 then Inl (InvalidArgumentError (''bad size: '' @ s))
        else
          case SimpleAtoi64 L (take idx s) of
            None \<Rightarrow> Inl (InvalidArgumentError ''bad number'')
          | Some val \<Rightarrow>
              let unit = drop idx s in
              (case size_unit unit of
                 None \<Rightarrow> Inl (InvalidArgumentError (''unknown size unit: '' @ unit))
               | Some mult \<Rightarrow> Inr (word_of_int val * mult)))"

section \<open>Reading the YAML document\<close>

text \<open>The nodes of the YAML library, with the operations the loader uses: \<^verbatim>\<open>YAML::Load\<close>, the tests of
  \<^verbatim>\<open>!node\<close>, indexing by key, iteration, and the conversions with and without a fallback. A left
  value is an exception with its message.\<close>

record 'n yaml =
  yaml_Load :: "string \<Rightarrow> string + 'n"
  node_defined :: "'n \<Rightarrow> bool"
  node_get :: "'n \<Rightarrow> string \<Rightarrow> string + 'n"
  node_items :: "'n \<Rightarrow> 'n list"
  as_str :: "'n \<Rightarrow> string + string"
  as_str_or :: "'n \<Rightarrow> string \<Rightarrow> string"
  as_int_or :: "'n \<Rightarrow> int \<Rightarrow> int"

text \<open>The handler of \<^verbatim>\<open>loadFromString\<close>, which every exception reaches.\<close>

fun thrown :: "string + 'a \<Rightarrow> 'a result" where
  "thrown (Inl what) = Inl (InvalidArgumentError (''yaml parse: '' @ what))"
| "thrown (Inr v) = Inr v"

definition at_key :: "'n yaml \<Rightarrow> 'n \<Rightarrow> string \<Rightarrow> ('n option) result" where
  "at_key Y n key = rbind (thrown (node_get Y n key)) (\<lambda>v. Inr (if node_defined Y v then Some v else None))"

definition getOr_int :: "'n yaml \<Rightarrow> 'n \<Rightarrow> string \<Rightarrow> int \<Rightarrow> int result" where
  "getOr_int Y n key dflt =
     (if \<not> node_defined Y n then Inr dflt
      else rbind (at_key Y n key) (\<lambda>v. case v of
        None \<Rightarrow> Inr dflt | Some v \<Rightarrow> Inr (as_int_or Y v dflt)))"

definition getStr :: "'n yaml \<Rightarrow> 'n \<Rightarrow> string \<Rightarrow> string \<Rightarrow> string result" where
  "getStr Y n key dflt =
     (if \<not> node_defined Y n then Inr dflt
      else rbind (at_key Y n key) (\<lambda>v. case v of
        None \<Rightarrow> Inr dflt | Some v \<Rightarrow> Inr (as_str_or Y v dflt)))"

definition parseSeconds :: "'n yaml \<Rightarrow> fp \<Rightarrow> 'n \<Rightarrow> string \<Rightarrow> int \<Rightarrow> int result" where
  "parseSeconds Y F n key dflt =
     (if \<not> node_defined Y n then Inr dflt
      else rbind (at_key Y n key) (\<lambda>v. case v of
        None \<Rightarrow> Inr dflt
      | Some v \<Rightarrow>
          rbind (thrown (as_str Y v)) (\<lambda>s.
          rbind (parseDuration F s) (\<lambda>ms. Inr (ms_to_seconds ms)))))"

definition parseSizeNode :: "'n yaml \<Rightarrow> absl \<Rightarrow> 'n \<Rightarrow> string \<Rightarrow> u64 \<Rightarrow> u64 result" where
  "parseSizeNode Y L n key dflt =
     (if \<not> node_defined Y n then Inr dflt
      else rbind (at_key Y n key) (\<lambda>v. case v of
        None \<Rightarrow> Inr dflt
      | Some v \<Rightarrow> rbind (thrown (as_str Y v)) (parseSize L)))"

definition parseInbound :: "'n yaml \<Rightarrow> absl \<Rightarrow> fp \<Rightarrow> 'n \<Rightarrow> inbound_config result" where
  "parseInbound Y L F n =
     (let c = default_inbound in
      rbind (getStr Y n ''tag'' []) (\<lambda>tag.
      rbind (getStr Y n ''protocol'' []) (\<lambda>protocol.
      rbind (getStr Y n ''listen'' []) (\<lambda>listen.
      rbind (getStr Y n ''password'' []) (\<lambda>password.
      rbind (getStr Y n ''user'' []) (\<lambda>user.
      rbind (getStr Y n ''pass'' []) (\<lambda>pass.
      rbind (parseSizeNode Y L n ''max_payload'' (in_max_payload c)) (\<lambda>mp.
      rbind (parseSizeNode Y L n ''init_window'' (ucast (in_init_window c))) (\<lambda>iw.
      rbind (parseSeconds Y F n ''ping_interval'' (in_ping_interval c)) (\<lambda>ping.
      rbind (parseSeconds Y F n ''pong_timeout'' (in_pong_timeout c)) (\<lambda>pt.
      rbind (parseSeconds Y F n ''handshake_timeout'' (in_handshake_timeout c)) (\<lambda>ht.
      Inr \<lparr>in_tag = tag, in_protocol = protocol, in_listen = listen, in_password = password,
           in_max_payload = mp, in_ping_interval = ping, in_pong_timeout = pt, in_handshake_timeout = ht,
           in_init_window = ucast iw, in_user = user, in_pass = pass\<rparr>))))))))))))"

definition parseOutbound :: "'n yaml \<Rightarrow> absl \<Rightarrow> fp \<Rightarrow> 'n \<Rightarrow> outbound_config result" where
  "parseOutbound Y L F n =
     (let c = default_outbound_config in
      rbind (getStr Y n ''tag'' []) (\<lambda>tag.
      rbind (getStr Y n ''protocol'' []) (\<lambda>protocol.
      rbind (getStr Y n ''server'' []) (\<lambda>server.
      rbind (getStr Y n ''password'' []) (\<lambda>password.
      rbind (getStr Y n ''user'' []) (\<lambda>user.
      rbind (getStr Y n ''pass'' []) (\<lambda>pass.
      rbind (getOr_int Y n ''pool_size'' 1) (\<lambda>pool.
      rbind (parseSizeNode Y L n ''init_window'' (ucast (out_init_window c))) (\<lambda>iw.
      rbind (parseSeconds Y F n ''ping_interval'' (out_ping_interval c)) (\<lambda>ping.
      rbind (parseSeconds Y F n ''pong_timeout'' (out_pong_timeout c)) (\<lambda>pt.
      rbind (parseSeconds Y F n ''handshake_timeout'' (out_handshake_timeout c)) (\<lambda>ht.
      Inr \<lparr>out_tag = tag, out_protocol = protocol, out_server = server, out_password = password,
           out_pool_size = word_of_int pool, out_ping_interval = ping, out_pong_timeout = pt,
           out_handshake_timeout = ht, out_init_window = ucast iw, out_user = user, out_pass = pass\<rparr>))))))))))))"

section \<open>Routing rules\<close>

text \<open>The body of a loop over the scalars of a list, and the loop.\<close>

definition add_domain :: "absl \<Rightarrow> string \<Rightarrow> rule_config \<Rightarrow> rule_config" where
  "add_domain L d r =
     (if StartsWith L d ''geosite:'' then r\<lparr>rc_geosite := rc_geosite r @ [drop 8 d]\<rparr>
      else if StartsWith L d ''domain:'' then r\<lparr>rc_domain_suffix := rc_domain_suffix r @ [drop 7 d]\<rparr>
      else if StartsWith L d ''full:'' then r\<lparr>rc_domain_exact := rc_domain_exact r @ [drop 5 d]\<rparr>
      else r\<lparr>rc_domain_exact := rc_domain_exact r @ [d]\<rparr>)"

definition add_suffix :: "string \<Rightarrow> rule_config \<Rightarrow> rule_config" where
  "add_suffix s r = r\<lparr>rc_domain_suffix := rc_domain_suffix r @ [s]\<rparr>"

definition add_cidr :: "string \<Rightarrow> rule_config \<Rightarrow> rule_config" where
  "add_cidr s r = r\<lparr>rc_cidrs := rc_cidrs r @ [s]\<rparr>"

definition add_geoip :: "string \<Rightarrow> rule_config \<Rightarrow> rule_config" where
  "add_geoip s r = r\<lparr>rc_geoip := rc_geoip r @ [s]\<rparr>"

definition add_geosite :: "string \<Rightarrow> rule_config \<Rightarrow> rule_config" where
  "add_geosite s r = r\<lparr>rc_geosite := rc_geosite r @ [s]\<rparr>"

definition add_ip :: "absl \<Rightarrow> string \<Rightarrow> rule_config \<Rightarrow> rule_config" where
  "add_ip L ip r = (if StartsWith L ip ''geoip:'' then add_geoip (drop 6 ip) r else add_cidr ip r)"

fun for_items ::
  "'n yaml \<Rightarrow> (string \<Rightarrow> rule_config \<Rightarrow> rule_config) \<Rightarrow> 'n list \<Rightarrow> rule_config \<Rightarrow> rule_config result"
where
  "for_items Y f [] r = Inr r"
| "for_items Y f (x # xs) r = rbind (thrown (as_str Y x)) (\<lambda>s. for_items Y f xs (f s r))"

definition each_of ::
  "'n yaml \<Rightarrow> (string \<Rightarrow> rule_config \<Rightarrow> rule_config) \<Rightarrow> string \<Rightarrow> 'n \<Rightarrow> rule_config \<Rightarrow> rule_config result"
where
  "each_of Y f key n r =
     rbind (at_key Y n key) (\<lambda>v. case v of
       None \<Rightarrow> Inr r | Some v \<Rightarrow> for_items Y f (node_items Y v) r)"

definition parseRule :: "'n yaml \<Rightarrow> absl \<Rightarrow> 'n \<Rightarrow> rule_config result" where
  "parseRule Y L n =
     rbind (at_key Y n ''inbound'') (\<lambda>v.
     rbind (case v of
              None \<Rightarrow> Inr empty_rule
            | Some v \<Rightarrow> rbind (thrown (as_str Y v)) (\<lambda>s. Inr (empty_rule\<lparr>rc_inbound_tag := Some s\<rparr>))) (\<lambda>r.
     rbind (each_of Y (add_domain L) ''domain'' n r) (\<lambda>r.
     rbind (each_of Y add_suffix ''domain_suffix'' n r) (\<lambda>r.
     rbind (each_of Y (add_ip L) ''ip'' n r) (\<lambda>r.
     rbind (each_of Y add_cidr ''cidr'' n r) (\<lambda>r.
     rbind (each_of Y add_geoip ''geoip'' n r) (\<lambda>r.
     rbind (each_of Y add_geosite ''geosite'' n r) (\<lambda>r.
     rbind (getStr Y n ''outbound'' []) (\<lambda>tag.
     Inr (r\<lparr>rc_outbound_tag := tag\<rparr>))))))))))"

section \<open>Validation and loading\<close>

fun validate_inbounds :: "string set \<Rightarrow> inbound_config list \<Rightarrow> unit result" where
  "validate_inbounds tags [] = Inr ()"
| "validate_inbounds tags (i # is) =
     (if in_tag i = [] then Inl (InvalidArgumentError ''inbound tag empty'')
      else if ''in:'' @ in_tag i \<in> tags then
        Inl (InvalidArgumentError (''duplicate inbound tag: '' @ in_tag i))
      else if in_listen i = [] then
        Inl (InvalidArgumentError (''inbound '' @ in_tag i @ '' missing listen''))
      else validate_inbounds (insert (''in:'' @ in_tag i) tags) is)"

fun validate_outbounds ::
  "string set \<Rightarrow> bool \<Rightarrow> outbound_config list \<Rightarrow> (string set \<times> bool) result"
where
  "validate_outbounds out_tags has_direct [] = Inr (out_tags, has_direct)"
| "validate_outbounds out_tags has_direct (o1 # os) =
     (if out_tag o1 = [] then Inl (InvalidArgumentError ''outbound tag empty'')
      else if out_tag o1 \<in> out_tags then
        Inl (InvalidArgumentError (''duplicate outbound tag: '' @ out_tag o1))
      else validate_outbounds (insert (out_tag o1) out_tags)
             (if out_protocol o1 = ''direct'' then True else has_direct) os)"

fun validate_rules :: "string set \<Rightarrow> rule_config list \<Rightarrow> unit result" where
  "validate_rules out_tags [] = Inr ()"
| "validate_rules out_tags (r # rs) =
     (if rc_outbound_tag r \<notin> out_tags then
        Inl (InvalidArgumentError (''rule outbound not found: '' @ rc_outbound_tag r))
      else validate_rules out_tags rs)"

definition validate :: "config \<Rightarrow> unit result" where
  "validate c =
     rbind (validate_inbounds {} (cfg_inbounds c)) (\<lambda>_.
     if cfg_inbounds c = [] then Inl (InvalidArgumentError ''no inbounds configured'')
     else rbind (validate_outbounds {} False (cfg_outbounds c)) (\<lambda>(out_tags, has_direct).
       if \<not> has_direct then Inl (InvalidArgumentError ''at least one direct outbound is required'')
       else if default_outbound (cfg_route c) \<noteq> [] \<and> default_outbound (cfg_route c) \<notin> out_tags then
         Inl (InvalidArgumentError (''default outbound not found: '' @ default_outbound (cfg_route c)))
       else validate_rules out_tags (route_rules (cfg_route c))))"

text \<open>The loops of \<^verbatim>\<open>loadFromString\<close> that convert a list of nodes, with the early return.\<close>

fun each_node :: "('n \<Rightarrow> 'c result) \<Rightarrow> 'n list \<Rightarrow> 'c list \<Rightarrow> 'c list result" where
  "each_node f [] acc = Inr acc"
| "each_node f (n # ns) acc = rbind (f n) (\<lambda>c. each_node f ns (acc @ [c]))"

text \<open>\<^verbatim>\<open>if (auto v = root[key]) ...\<close>\<close>

definition when_key :: "'n yaml \<Rightarrow> 'n \<Rightarrow> string \<Rightarrow> 'c \<Rightarrow> ('n \<Rightarrow> 'c result) \<Rightarrow> 'c result" where
  "when_key Y n key c f = rbind (at_key Y n key) (\<lambda>v. case v of None \<Rightarrow> Inr c | Some v \<Rightarrow> f v)"

definition load_log :: "'n yaml \<Rightarrow> 'n \<Rightarrow> log_config result" where
  "load_log Y l =
     (let c = cfg_log default_config in
      rbind (getStr Y l ''level'' (log_level c)) (\<lambda>level.
      rbind (getStr Y l ''format'' (log_format c)) (\<lambda>format.
      Inr \<lparr>log_level = level, log_format = format\<rparr>)))"

definition load_server :: "'n yaml \<Rightarrow> fp \<Rightarrow> 'n \<Rightarrow> server_config result" where
  "load_server Y F s =
     (let c = cfg_server default_config in
      rbind (getOr_int Y s ''io_threads'' 0) (\<lambda>threads.
      rbind (parseSeconds Y F s ''graceful_timeout'' (graceful_timeout c)) (\<lambda>gt.
      Inr \<lparr>io_threads = word_of_int threads, graceful_timeout = gt\<rparr>)))"

definition load_metrics :: "'n yaml \<Rightarrow> 'n \<Rightarrow> metrics_config result" where
  "load_metrics Y m =
     (let c = cfg_metrics default_config in
      rbind (getStr Y m ''listen'' (metrics_listen c)) (\<lambda>listen.
      rbind (getStr Y m ''path'' (metrics_path c)) (\<lambda>path.
      Inr \<lparr>metrics_listen = listen, metrics_path = path\<rparr>)))"

definition load_route :: "'n yaml \<Rightarrow> absl \<Rightarrow> 'n \<Rightarrow> route_config result" where
  "load_route Y L r =
     rbind (getStr Y r ''geoip_path'' []) (\<lambda>geoip.
     rbind (getStr Y r ''geosite_path'' []) (\<lambda>geosite.
     rbind (when_key Y r ''rules'' [] (\<lambda>rr. each_node (parseRule Y L) (node_items Y rr) [])) (\<lambda>rules.
     rbind (getStr Y r ''default'' []) (\<lambda>dflt.
     Inr \<lparr>geoip_path = geoip, geosite_path = geosite, route_rules = rules, default_outbound = dflt\<rparr>))))"

definition loadFromString :: "'n yaml \<Rightarrow> absl \<Rightarrow> fp \<Rightarrow> string \<Rightarrow> config result" where
  "loadFromString Y L F content =
     (let c = default_config in
      rbind (thrown (yaml_Load Y content)) (\<lambda>root.
      rbind (when_key Y root ''log'' (cfg_log c) (load_log Y)) (\<lambda>lg.
      rbind (when_key Y root ''server'' (cfg_server c) (load_server Y F)) (\<lambda>server.
      rbind (when_key Y root ''metrics'' (cfg_metrics c) (load_metrics Y)) (\<lambda>metrics.
      rbind (when_key Y root ''inbounds'' [] (\<lambda>ins. each_node (parseInbound Y L F) (node_items Y ins) [])) (\<lambda>inbounds.
      rbind (when_key Y root ''outbounds'' [] (\<lambda>outs. each_node (parseOutbound Y L F) (node_items Y outs) [])) (\<lambda>outbounds.
      rbind (when_key Y root ''route'' (cfg_route c) (load_route Y L)) (\<lambda>route.
      let c = \<lparr>cfg_log = lg, cfg_server = server, cfg_metrics = metrics, cfg_inbounds = inbounds,
                cfg_outbounds = outbounds, cfg_route = route\<rparr>
      in rbind (validate c) (\<lambda>_. Inr c))))))))) "

text \<open>\<open>file\<close> is the content of the file, \<open>None\<close> when it cannot be opened.\<close>

definition loadFromFile :: "'n yaml \<Rightarrow> absl \<Rightarrow> fp \<Rightarrow> string \<Rightarrow> string option \<Rightarrow> config result" where
  "loadFromFile Y L F path file =
     (case file of
        None \<Rightarrow> Inl (NotFoundError (''cannot open config file: '' @ path))
      | Some content \<Rightarrow> loadFromString Y L F content)"

section \<open>What validation accepts\<close>

lemma validate_inbounds_ok:
  "validate_inbounds tags is = Inr () \<longleftrightarrow>
     (\<forall>i \<in> set is. in_tag i \<noteq> [] \<and> in_listen i \<noteq> [] \<and> ''in:'' @ in_tag i \<notin> tags) \<and> distinct (map in_tag is)"
  by (induction tags "is" rule: validate_inbounds.induct) (auto simp: image_iff)

lemma validate_outbounds_ok:
  "validate_outbounds tags d os = Inr r \<longleftrightarrow>
     (\<forall>x \<in> set os. out_tag x \<noteq> [] \<and> out_tag x \<notin> tags) \<and> distinct (map out_tag os)
     \<and> r = (tags \<union> out_tag ` set os, d \<or> (\<exists>x \<in> set os. out_protocol x = ''direct''))"
  by (induction tags d os rule: validate_outbounds.induct) (auto simp: image_iff)

lemma validate_rules_ok:
  "validate_rules tags rs = Inr () \<longleftrightarrow> (\<forall>r \<in> set rs. rc_outbound_tag r \<in> tags)"
  by (induction tags rs rule: validate_rules.induct) auto

definition config_ok :: "config \<Rightarrow> bool" where
  "config_ok c \<longleftrightarrow>
     cfg_inbounds c \<noteq> []
     \<and> (\<forall>i \<in> set (cfg_inbounds c). in_tag i \<noteq> [] \<and> in_listen i \<noteq> [])
     \<and> distinct (map in_tag (cfg_inbounds c))
     \<and> (\<forall>x \<in> set (cfg_outbounds c). out_tag x \<noteq> [])
     \<and> distinct (map out_tag (cfg_outbounds c))
     \<and> (\<exists>x \<in> set (cfg_outbounds c). out_protocol x = ''direct'')
     \<and> (default_outbound (cfg_route c) = [] \<or> default_outbound (cfg_route c) \<in> out_tag ` set (cfg_outbounds c))
     \<and> (\<forall>r \<in> set (route_rules (cfg_route c)). rc_outbound_tag r \<in> out_tag ` set (cfg_outbounds c))"

lemma validate_config_ok: "validate c = Inr () \<longleftrightarrow> config_ok c"
proof (cases "cfg_inbounds c = []")
  case False
  then show ?thesis
    by (auto simp: validate_def config_ok_def rbind_Inr validate_inbounds_ok validate_outbounds_ok
          validate_rules_ok split: if_splits)
qed (simp add: validate_def config_ok_def rbind_Inr)

lemma load_config_ok: "loadFromString Y L F content = Inr c \<Longrightarrow> config_ok c"
  by (auto simp: loadFromString_def Let_def rbind_Inr simp flip: validate_config_ok)


section \<open>Sizes and durations\<close>

lemma takeWhile_dec:
  assumes "\<And>c. is_digit c \<Longrightarrow> P c" "u = [] \<or> \<not> P (hd u)"
  shows "takeWhile P (dec n @ u) = dec n"
proof -
  have "\<forall>c \<in> set (dec n). P c" using dec_digits assms(1) by blast
  then show ?thesis using assms(2) by (cases u) (simp_all add: takeWhile_append2)
qed

lemma unit_chars [simp]:
  "\<not> is_digit CHR ''B''" "\<not> is_digit CHR ''K''" "\<not> is_digit CHR ''M''" "\<not> is_digit CHR ''G''"
  "\<not> is_digit CHR ''m''" "\<not> is_digit CHR ''s''" "\<not> is_digit CHR ''h''"
  by code_simp+

lemma size_unit_cases:
  assumes "size_unit u = Some m"
  shows "u \<in> {[], ''B'', ''K'', ''KB'', ''KiB'', ''M'', ''MB'', ''MiB'', ''G'', ''GB'', ''GiB''}"
proof (rule ccontr)
  assume "\<not> ?thesis"
  then have "size_unit u = None" unfolding size_unit_def by simp
  then show False using assms by simp
qed

lemma size_unit_start: "size_unit u = Some m \<Longrightarrow> u = [] \<or> \<not> is_digit (hd u)"
  by (drule size_unit_cases) (elim insertE emptyE, simp_all)

lemma parseSize_value:
  assumes "absl_laws L" and "size_unit u = Some mult" and "n < 2 ^ 63"
  shows "parseSize L (dec n @ u) = Inr (of_nat (n * unat mult))"
proof -
  have "takeWhile is_digit (dec n @ u) = dec n" using size_unit_start [OF assms(2)] by (intro takeWhile_dec)
  moreover have "SimpleAtoi64 L (dec n) = Some (int n)" by (rule absl_laws.atoi64_dec [OF assms(1,3)])
  ultimately have "parseSize L (dec n @ u) = Inr (word_of_int (int n) * mult)"
    using assms(2) by (simp add: parseSize_def Let_def)
  then show ?thesis by simp
qed

text \<open>Sizes are read as written: a decimal number below 2^63 followed by one of the unit names
  is accepted as the number times the unit, computed in 64-bit unsigned arithmetic; so whenever
  the product fits into 64 bits the result is exactly that many bytes.\<close>

theorem parse_size_exact:
  assumes "absl_laws L" and "size_unit u = Some mult" and "n < 2 ^ 63"
  shows "\<exists>v. parseSize L (dec n @ u) = Inr v \<and> unat v = n * unat mult mod 2 ^ 64
    \<and> (n * unat mult < 2 ^ 64 \<longrightarrow> unat v = n * unat mult)"
  using parseSize_value [OF assms] by (simp add: unat_of_nat del: of_nat_mult)

theorem parse_size_exact_witness:
  "\<exists>v. parseSize absl_ref ''512MB'' = Inr v \<and> unat v = 536870912"
proof -
  have "dec 512 @ ''MB'' = ''512MB''" by code_simp
  then show ?thesis
    using parse_size_exact [OF absl_ref_laws, of "''MB''" "1024 * 1024" 512]
    by (simp add: size_unit_def)
qed

text \<open>The product wraps silently: 16 Gi times 1 GiB is a size of zero, and a window of 4 GiB, which
  fits the 64-bit size, becomes zero when it is stored in 32 bits.\<close>

lemma size_wraps: "parseSize absl_ref (dec (2 ^ 34) @ ''GB'') = Inr 0"
  using parseSize_value [OF absl_ref_laws, of "''GB''" "2 ^ 30" "2 ^ 34"] by (simp add: size_unit_def)

lemma window_truncates:
  "\<exists>v. parseSize absl_ref (dec 4 @ ''GB'') = Inr v \<and> (ucast v :: u32) = 0"
  using parseSize_value [OF absl_ref_laws, of "''GB''" "2 ^ 30" 4] by (simp add: size_unit_def)

definition fp_ref :: fp where
  "fp_ref = \<lparr>SimpleAtod = (\<lambda>s. map_option of_nat (digits_val s)), fp_round = (\<lambda>x. x), fp_to_i64 = floor\<rparr>"

interpretation fp_ref: fp_laws fp_ref
  by unfold_locales (simp_all add: fp_ref_def)

lemmas fp_ref_laws = fp_ref.fp_laws_axioms

definition duration_unit :: "string \<Rightarrow> nat option" where
  "duration_unit u =
     (if u = ''ms'' then Some 1 else if u = ''s'' \<or> u = [] then Some 1000
      else if u = ''m'' then Some 60000 else if u = ''h'' then Some 3600000 else None)"

context fp_laws
begin

lemma times_exact: "a * b \<le> 2 ^ 53 \<Longrightarrow> fp_times F (of_nat a) (of_nat b) = of_nat (a * b)"
  using round_exact [of "a * b"] by (simp add: fp_times_def)

lemma parseDuration_exact:
  assumes u: "duration_unit u = Some k" and fits: "n * k \<le> 2 ^ 53"
  shows "parseDuration F (dec n @ u) = Inr (int (n * k))"
proof -
  have k: "1 \<le> k" and hd: "u = [] \<or> \<not> duration_char (hd u)"
    using u by (auto simp: duration_unit_def duration_char_def split: if_splits)
  have tw: "takeWhile duration_char (dec n @ u) = dec n"
    using hd by (intro takeWhile_dec) (simp_all add: duration_char_def)
  have n: "n \<le> 2 ^ 53" using fits k by (metis le_trans mult_le_mono2 nat_mult_1_right)
  have exact: "fp_to_i64 F (of_nat (n * k)) = int (n * k)"
    using fits by (intro to_i64_exact) (rule le_less_trans, assumption, simp)
  have m: "fp_times F (fp_times F (of_nat n) 60) 1000 = of_nat (n * 60000)" if "n * 60000 \<le> 2 ^ 53"
    using times_exact [of n 60] times_exact [of "n * 60" 1000] that by simp
  have h: "fp_times F (fp_times F (of_nat n) 3600) 1000 = of_nat (n * 3600000)" if "n * 3600000 \<le> 2 ^ 53"
    using times_exact [of n 3600] times_exact [of "n * 3600" 1000] that by simp
  have s: "fp_times F (of_nat n) 1000 = of_nat (n * 1000)" if "n * 1000 \<le> 2 ^ 53"
    using times_exact [of n 1000] that by simp
  have parse: "parseDuration F (dec n @ u) =
      (if u = ''ms'' then Inr (fp_to_i64 F (of_nat n))
       else if u = ''s'' \<or> u = [] then Inr (fp_to_i64 F (fp_times F (of_nat n) 1000))
       else if u = ''m'' then Inr (fp_to_i64 F (fp_times F (fp_times F (of_nat n) 60) 1000))
       else if u = ''h'' then Inr (fp_to_i64 F (fp_times F (fp_times F (of_nat n) 3600) 1000))
       else Inl (InvalidArgumentError (''unknown unit: '' @ u)))"
    using tw atod_dec [OF n] by (simp add: parseDuration_def Let_def)
  consider "u = ''ms''" "k = 1" | "u = ''s'' \<or> u = []" "k = 1000" | "u = ''m''" "k = 60000" | "u = ''h''" "k = 3600000"
    using u by (auto simp: duration_unit_def split: if_splits)
  then show ?thesis
  proof cases
    case 1
    then show ?thesis using exact parse by simp
  next
    case 2
    then have "parseDuration F (dec n @ u) = Inr (fp_to_i64 F (fp_times F (of_nat n) 1000))" unfolding parse by auto
    then show ?thesis using s exact fits 2(2) by (simp only:)
  next
    case 3
    then show ?thesis using m exact fits unfolding parse by (simp only: list.simps char.inject simp_thms if_False if_True)
  next
    case 4
    then show ?thesis using h exact fits unfolding parse by (simp only: list.simps char.inject simp_thms if_False if_True)
  qed
qed

end

text \<open>Durations are read as written: a whole number with the unit ms, s (or none), m or h is read
  as exactly that many milliseconds as long as they stay within the 53 bits a double holds
  exactly, and a duration setting keeps the whole seconds of it.\<close>

theorem parse_duration_exact:
  assumes "fp_laws F" and "duration_unit u = Some k" and "n * k \<le> 2 ^ 53"
  shows "parseDuration F (dec n @ u) = Inr (int (n * k)) \<and> ms_to_seconds (int (n * k)) = int (n * k div 1000)"
proof -
  have "ms_to_seconds (int m) = int (m div 1000)" for m by (simp add: ms_to_seconds_def zdiv_int)
  then show ?thesis using fp_laws.parseDuration_exact [OF assms] by blast
qed

theorem parse_duration_exact_witness:
  "parseDuration fp_ref ''15s'' = Inr 15000 \<and> ms_to_seconds 15000 = 15"
proof -
  have "dec 15 @ ''s'' = ''15s''" by code_simp
  then show ?thesis
    using parse_duration_exact [OF fp_ref_laws, of "''s''" 1000 15] by (simp add: duration_unit_def)
qed

end
