(* ===== verification/Endpoints.thy ===== *)
theory Endpoints
  imports Config Address
begin

text \<open>
  The two ends of a TCP connection as the inbounds and outbounds set them up: listening on the
  configured address (\<^verbatim>\<open>start\<close> of the three inbounds, with \<^verbatim>\<open>stop\<close> and the accept loop), and
  connecting to a server or a target. The operating system's answers are arguments.
\<close>

section \<open>Listening\<close>

text \<open>The errors of the system calls \<^verbatim>\<open>open\<close>, \<^verbatim>\<open>bind\<close> and \<^verbatim>\<open>listen\<close>; the option between them may fail
  unnoticed.\<close>

record listen_os =
  os_open :: "endpoint \<Rightarrow> string option"
  os_bind :: "endpoint \<Rightarrow> string option"
  os_listen :: "endpoint \<Rightarrow> string option"

definition endpoint_of :: "address \<Rightarrow> endpoint" where
  "endpoint_of a =
     (if addr_type a = IPv4 then \<lparr>ep_addr = IpV4 (take 4 (addr_bytes a)), ep_port = addr_port a\<rparr>
      else \<lparr>ep_addr = IpV6 (take 16 (addr_bytes a)), ep_port = addr_port a\<rparr>)"

definition os_result :: "string option \<Rightarrow> unit result" where
  "os_result e = (case e of None \<Rightarrow> Inr () | Some msg \<Rightarrow> Inl (UnavailableError msg))"

definition open_acceptor :: "listen_os \<Rightarrow> endpoint \<Rightarrow> endpoint result" where
  "open_acceptor os ep =
     rbind (os_result (os_open os ep)) (\<lambda>_.
     rbind (os_result (os_bind os ep)) (\<lambda>_.
     rbind (os_result (os_listen os ep)) (\<lambda>_. Inr ep)))"

definition socks5_start :: "absl \<Rightarrow> asio_ip \<Rightarrow> listen_os \<Rightarrow> inbound_config \<Rightarrow> endpoint result" where
  "socks5_start L I os cfg =
     rbind (parseHostPort L I (in_listen cfg)) (\<lambda>ep.
       if addr_type ep = IPv4 \<or> addr_type ep = IPv6 then open_acceptor os (endpoint_of ep)
       else Inl (InvalidArgumentError ''socks5 listen must be IP''))"

definition http_connect_start :: "absl \<Rightarrow> asio_ip \<Rightarrow> listen_os \<Rightarrow> inbound_config \<Rightarrow> endpoint result" where
  "http_connect_start L I os cfg =
     rbind (parseHostPort L I (in_listen cfg)) (\<lambda>ep.
       if addr_type ep = Domain then Inl (InvalidArgumentError ''http-connect listen must be IP'')
       else open_acceptor os (endpoint_of ep))"

definition shine_start :: "absl \<Rightarrow> asio_ip \<Rightarrow> listen_os \<Rightarrow> inbound_config \<Rightarrow> endpoint result" where
  "shine_start L I os cfg =
     rbind (parseHostPort L I (in_listen cfg)) (\<lambda>ep.
       if addr_type ep = Domain then Inl (InvalidArgumentError ''shine listen must be IP'')
       else open_acceptor os (endpoint_of ep))"

text \<open>The state of an acceptor, and \<^verbatim>\<open>acceptLoop\<close> over the results of its accepts: it ends at the first
  error and hands every accepted socket to a handler of its own.\<close>

record acceptor =
  acc_stopping :: bool
  acc_open :: bool

definition stop_acceptor :: "acceptor \<Rightarrow> acceptor" where
  "stop_acceptor a = a\<lparr>acc_stopping := True, acc_open := False\<rparr>"

fun accept_loop :: "acceptor \<Rightarrow> (string + 's) list \<Rightarrow> 's list" where
  "accept_loop a [] = []"
| "accept_loop a (r # rs) =
     (if acc_stopping a then []
      else case r of Inl e \<Rightarrow> [] | Inr s \<Rightarrow> s # accept_loop a rs)"

section \<open>Connecting\<close>

text \<open>How the outbounds reach their server: parse its address, resolve it, connect. \<open>resolve\<close> is the
  resolver, \<open>conn\<close> the error of connecting to an endpoint.\<close>

record net =
  net_resolve :: "string \<Rightarrow> string \<Rightarrow> string + endpoint list"
  net_connect :: "endpoint \<Rightarrow> string option"

definition connect_to :: "net \<Rightarrow> endpoint \<Rightarrow> endpoint result" where
  "connect_to N ep = (case net_connect N ep of None \<Rightarrow> Inr ep | Some msg \<Rightarrow> Inl (UnavailableError msg))"

definition dial_server :: "absl \<Rightarrow> asio_ip \<Rightarrow> net \<Rightarrow> outbound_config \<Rightarrow> endpoint result" where
  "dial_server L I N cfg =
     rbind (parseHostPort L I (out_server cfg)) (\<lambda>server.
     rbind (resolveOne (net_resolve N) server) (connect_to N))"

definition dial_target :: "net \<Rightarrow> address \<Rightarrow> endpoint result" where
  "dial_target N target = rbind (resolveOne (net_resolve N) target) (connect_to N)"

section \<open>Listening where the configuration says\<close>

lemma open_acceptor_Inr: "open_acceptor os ep = Inr e \<longleftrightarrow> e = ep \<and> os_open os ep = None \<and> os_bind os ep = None \<and> os_listen os ep = None"
  by (auto simp: open_acceptor_def os_result_def rbind_Inr split: option.splits)

lemma start_ip:
  assumes "parseHostPort L I (in_listen cfg) = Inr a"
  shows "socks5_start L I os cfg = (if isIP a then open_acceptor os (endpoint_of a) else Inl (InvalidArgumentError ''socks5 listen must be IP''))"
    and "http_connect_start L I os cfg = (if isIP a then open_acceptor os (endpoint_of a) else Inl (InvalidArgumentError ''http-connect listen must be IP''))"
    and "shine_start L I os cfg = (if isIP a then open_acceptor os (endpoint_of a) else Inl (InvalidArgumentError ''shine listen must be IP''))"
  using assms
  by (cases "addr_type a"; simp add: socks5_start_def http_connect_start_def shine_start_def isIP_def)+

text \<open>Every inbound listens exactly where its configuration says: when the listen setting is the
  text of an IP address and a port, each of the three kinds of inbound starts on that endpoint if
  opening, binding and listening succeed, and otherwise reports an error.\<close>

theorem inbound_listens:
  assumes "absl_laws L" and "asio_laws I" and "wf_address a" and "addr_port a \<noteq> 0" and "isIP a"
    and "in_listen cfg = toString L I a"
  shows "socks5_start L I os cfg = open_acceptor os (endpoint_of a)
    \<and> http_connect_start L I os cfg = open_acceptor os (endpoint_of a)
    \<and> shine_start L I os cfg = open_acceptor os (endpoint_of a)
    \<and> (open_acceptor os (endpoint_of a) = Inr e \<longleftrightarrow>
         e = endpoint_of a \<and> os_open os e = None \<and> os_bind os e = None \<and> os_listen os e = None)"
proof -
  have "parseHostPort L I (in_listen cfg) = Inr a"
    unfolding assms(6) by (rule text_roundtrip) (use assms in \<open>auto simp: isIP_def isDomain_def\<close>)
  from start_ip [OF this, of os] assms(5) show ?thesis by (auto simp: open_acceptor_Inr)
qed

definition quiet_os :: listen_os where
  "quiet_os = \<lparr>os_open = (\<lambda>_. None), os_bind = (\<lambda>_. None), os_listen = (\<lambda>_. None)\<rparr>"

theorem inbound_listens_witness:
  "shine_start absl_ref asio_ref quiet_os (default_inbound\<lparr>in_listen := toString absl_ref asio_ref (fromIPv4 [127, 0, 0, 1] 7011)\<rparr>)
     = Inr (endpoint_of (fromIPv4 [127, 0, 0, 1] 7011))"
  using inbound_listens [OF absl_ref_laws asio_ref_laws, of "fromIPv4 [127, 0, 0, 1] 7011"
      "default_inbound\<lparr>in_listen := toString absl_ref asio_ref (fromIPv4 [127, 0, 0, 1] 7011)\<rparr>" quiet_os]
  by (simp add: isIP_def open_acceptor_def os_result_def quiet_os_def)

end
