(* ===== verification/Geo.thy ===== *)
theory Geo
  imports Big_Endian
begin

text \<open>
  Model of \<^verbatim>\<open>GeoIpMatcher\<close> (\<^verbatim>\<open>route/geo_matcher.cpp\<close>): the tables of country address ranges. The
  protobuf messages the file decodes to are an argument of the load operation (the generated
  decoder is not part of the repository). Ranges are kept at their width (32 and 128 bit words)
  and the lemmas hold for words of every width; the lookup in sorted merged ranges is shown to
  decide membership in the loaded CIDR blocks.
\<close>

section \<open>Ranges\<close>

record 'w range =
  rg_start :: 'w
  rg_end :: 'w

text \<open>The block of a network address and a prefix length, as the load loop computes it; the shift is
  undefined when the prefix is longer than the address.\<close>

definition prefix_mask :: "nat \<Rightarrow> 'a :: len word" where
  "prefix_mask p = (if p = 0 then 0 else push_bit (LENGTH('a) - p) (NOT 0))"

definition cidr_range :: "'a :: len word \<Rightarrow> nat \<Rightarrow> 'a word range option" where
  "cidr_range ip p =
     (if p > LENGTH('a) then None
      else
        let m = prefix_mask p; val = ip AND m; e = val OR (NOT m)
        in Some \<lparr>rg_start = val, rg_end = e\<rparr>)"

text \<open>The loop that merges the sorted ranges, with the ranges merged so far.\<close>

fun merge_loop :: "'a :: len word range list \<Rightarrow> 'a word range list \<Rightarrow> 'a word range list" where
  "merge_loop merged [] = merged"
| "merge_loop merged (r # rs) =
     (let l = last merged in
      if rg_start r \<le> rg_end l + (if rg_end l \<noteq> NOT 0 then 1 else 0) then
        merge_loop (butlast merged @ [l\<lparr>rg_end := max (rg_end l) (rg_end r)\<rparr>]) rs
      else merge_loop (merged @ [r]) rs)"

definition merge_ranges :: "'a :: len word range list \<Rightarrow> 'a word range list" where
  "merge_ranges rs =
     (if rs = [] then []
      else let rs = sort_key rg_start rs in merge_loop [rs ! 0] (drop 1 rs))"

text \<open>\<^verbatim>\<open>std::upper_bound\<close> by start, and the test of the range before it.\<close>

definition upper_bound :: "'a :: len word \<Rightarrow> 'a word range list \<Rightarrow> nat" where
  "upper_bound v rs = length (takeWhile (\<lambda>r. \<not> v < rg_start r) rs)"

definition range_lookup :: "'a :: len word \<Rightarrow> 'a word range list \<Rightarrow> bool" where
  "range_lookup v rs =
     (let upper = upper_bound v rs in
      upper \<noteq> 0 \<and> rg_start (rs ! (upper - 1)) \<le> v \<and> v \<le> rg_end (rs ! (upper - 1)))"

definition in_range :: "'a :: len word \<Rightarrow> 'a word range \<Rightarrow> bool" where
  "in_range v r \<longleftrightarrow> rg_start r \<le> v \<and> v \<le> rg_end r"

section \<open>Merged ranges\<close>

definition separated :: "'a :: len word range list \<Rightarrow> bool" where
  "separated rs \<longleftrightarrow> sorted_wrt (\<lambda>a b. rg_end a < rg_start b) rs \<and> list_all (\<lambda>r. rg_start r \<le> rg_end r) rs"

lemma separated_snoc:
  "separated (rs @ [r]) \<longleftrightarrow> separated rs \<and> rg_start r \<le> rg_end r \<and> (\<forall>x \<in> set rs. rg_end x < rg_start r)"
  by (auto simp: separated_def sorted_wrt_append)

lemma unat_succ:
  fixes a :: "'a :: len word"
  assumes "a \<noteq> - 1"
  shows "unat (a + 1) = unat a + 1"
proof -
  have "unat a \<noteq> unat (- 1 :: 'a word)" using assms by (metis unsigned_word_eqI)
  moreover have "unat (- 1 :: 'a word) = 2 ^ LENGTH('a) - 1"
    by (simp add: unsigned_minus_1_eq_mask mask_eq_exp_minus_1)
  moreover have "unat a < 2 ^ LENGTH('a)" by (rule unsigned_less)
  ultimately have "unat a + 1 < 2 ^ LENGTH('a)" by linarith
  then show ?thesis by (simp add: unat_word_ariths)
qed

text \<open>The test of the merge loop: the next range starts inside the last one or right after it.\<close>

definition touches :: "'a :: len word range \<Rightarrow> 'a word range \<Rightarrow> bool" where
  "touches l r \<longleftrightarrow> rg_start r \<le> rg_end l + (if rg_end l \<noteq> NOT 0 then 1 else 0)"

lemma touches_unat: "touches l r \<longleftrightarrow> unat (rg_start r) \<le> unat (rg_end l) + 1"
proof (cases "rg_end l = - 1")
  case True
  have "unat (rg_start r) \<le> unat (- 1 :: 'a word)" by (simp flip: word_le_nat_alt)
  with True show ?thesis by (simp add: touches_def)
next
  case False
  then show ?thesis by (simp add: touches_def word_le_nat_alt unat_succ)
qed

lemma join_ranges:
  assumes "rg_start l \<le> rg_start r" "touches l r" "rg_start l \<le> rg_end l" "rg_start r \<le> rg_end r"
  shows "in_range v (l\<lparr>rg_end := max (rg_end l) (rg_end r)\<rparr>) \<longleftrightarrow> in_range v l \<or> in_range v r"
  using assms by (auto simp: in_range_def touches_unat word_le_nat_alt max_def)

lemma merge_loop_spec:
  assumes "merged \<noteq> []" "separated merged" "sorted (map rg_start rs)"
    and "\<forall>r \<in> set rs. rg_start (last merged) \<le> rg_start r \<and> rg_start r \<le> rg_end r"
  shows "separated (merge_loop merged rs)
    \<and> ((\<exists>r \<in> set (merge_loop merged rs). in_range v r)
         \<longleftrightarrow> (\<exists>r \<in> set merged. in_range v r) \<or> (\<exists>r \<in> set rs. in_range v r))"
  using assms
proof (induction merged rs rule: merge_loop.induct)
  case (2 merged r rs)
  let ?l = "last merged" and ?init = "butlast merged"
  have m: "merged = ?init @ [?l]" using "2.prems"(1) by simp
  then have sep: "separated ?init" "rg_start ?l \<le> rg_end ?l" "\<forall>x \<in> set ?init. rg_end x < rg_start ?l"
    using "2.prems"(2) separated_snoc [of ?init ?l] by simp_all
  have r: "rg_start ?l \<le> rg_start r" "rg_start r \<le> rg_end r" "sorted (map rg_start rs)"
    "\<forall>x \<in> set rs. rg_start r \<le> rg_start x \<and> rg_start x \<le> rg_end x"
    using "2.prems"(3,4) by auto
  show ?case
  proof (cases "touches ?l r")
    case True
    let ?l' = "?l\<lparr>rg_end := max (rg_end ?l) (rg_end r)\<rparr>"
    have "separated (?init @ [?l'])" using sep by (auto simp: separated_snoc max_def)
    moreover have "\<forall>x \<in> set rs. rg_start ?l' \<le> rg_start x \<and> rg_start x \<le> rg_end x"
      using r by auto
    moreover have "(\<exists>x \<in> set (?init @ [?l']). in_range v x) \<longleftrightarrow> (\<exists>x \<in> set merged. in_range v x) \<or> in_range v r"
      using join_ranges [OF r(1) True sep(2) r(2), of v] by (subst (3) m) auto
    ultimately show ?thesis
      using "2.IH"(1) [of ?l] True r(3) by (auto simp: touches_def Let_def)
  next
    case False
    then have "rg_end ?l < rg_start r" by (simp add: touches_unat word_less_nat_alt)
    moreover from this sep have "\<forall>x \<in> set ?init. rg_end x < rg_start r" by (meson less_trans order_le_less_trans less_imp_le)
    ultimately have "separated (merged @ [r])"
      using "2.prems"(2) r(2) by (subst separated_snoc) (subst (asm) m, subst m, auto)
    then show ?thesis
      using "2.IH"(2) [of ?l] False r by (auto simp: touches_def Let_def)
  qed
qed simp

lemma merge_ranges_spec:
  assumes "\<forall>r \<in> set rs. rg_start r \<le> rg_end r"
  shows "separated (merge_ranges rs)
    \<and> ((\<exists>r \<in> set (merge_ranges rs). in_range v r) \<longleftrightarrow> (\<exists>r \<in> set rs. in_range v r))"
proof (cases "sort_key rg_start rs")
  case Nil
  then have "rs = []" by (metis set_empty set_sort)
  then show ?thesis by (simp add: merge_ranges_def separated_def)
next
  case (Cons x xs)
  then have mem: "set rs = insert x (set xs)" by (metis list.simps(15) set_sort)
  have "sorted (map rg_start (x # xs))" using sorted_sort_key [of rg_start rs] Cons by simp
  then have "separated (merge_loop [x] xs)
    \<and> ((\<exists>r \<in> set (merge_loop [x] xs). in_range v r) \<longleftrightarrow> (\<exists>r \<in> set [x]. in_range v r) \<or> (\<exists>r \<in> set xs. in_range v r))"
    using assms mem by (intro merge_loop_spec) (auto simp: separated_def)
  moreover have "rs \<noteq> []" using Cons by auto
  ultimately show ?thesis using Cons mem by (auto simp: merge_ranges_def Let_def)
qed

section \<open>Looking up\<close>

lemma range_lookup_spec:
  assumes "separated rs"
  shows "range_lookup v rs \<longleftrightarrow> (\<exists>r \<in> set rs. in_range v r)"
proof -
  let ?P = "\<lambda>r. \<not> v < rg_start r"
  let ?pre = "takeWhile ?P rs" and ?post = "dropWhile ?P rs"
  have rs: "rs = ?pre @ ?post" by simp
  have later: "\<not> in_range v r" if "r \<in> set ?post" for r
  proof -
    from that obtain y ys where post: "?post = y # ys" by (cases ?post) auto
    have "v < rg_start y" using hd_dropWhile [of ?P rs] post by auto
    moreover have "rg_start y \<le> rg_start r"
    proof -
      have "separated (?pre @ y # ys)" using assms rs post by metis
      then have "rg_start y \<le> rg_end y" "r \<noteq> y \<longrightarrow> rg_end y < rg_start r"
        using that post by (auto simp: separated_def sorted_wrt_append)
      then show ?thesis by (cases "r = y") auto
    qed
    ultimately show ?thesis by (auto simp: in_range_def)
  qed
  show ?thesis
  proof (cases ?pre rule: rev_cases)
    case Nil
    then have "rs = ?post" using rs by simp
    then show ?thesis using Nil later by (auto simp: range_lookup_def upper_bound_def)
  next
    case (snoc init l)
    have nth: "rs ! (length ?pre - 1) = l"
      using snoc by (subst rs) (simp add: nth_append)
    have "separated (init @ l # ?post)" using assms rs snoc by (metis append.assoc append_Cons append_Nil)
    then have "\<forall>x \<in> set init. rg_end x < rg_start l" by (auto simp: separated_def sorted_wrt_append)
    moreover have "?P l" using set_takeWhileD [of l ?P rs] snoc by auto
    ultimately have "\<forall>x \<in> set init. \<not> in_range v x" by (fastforce simp: in_range_def)
    then have "(\<exists>r \<in> set rs. in_range v r) \<longleftrightarrow> in_range v l"
      using later snoc by (subst rs) auto
    then show ?thesis
      using snoc nth by (simp add: range_lookup_def upper_bound_def in_range_def)
  qed
qed

section \<open>A block is its range\<close>

text \<open>Membership in a block: the first \<open>p\<close> bits agree.\<close>

definition in_cidr :: "'a :: len word \<Rightarrow> 'a word \<Rightarrow> nat \<Rightarrow> bool" where
  "in_cidr v ip p \<longleftrightarrow> drop_bit (LENGTH('a) - p) v = drop_bit (LENGTH('a) - p) ip"

lemma prefix_mask_eq: "prefix_mask p = (NOT (mask (LENGTH('a) - p)) :: 'a :: len word)"
proof (cases "p = 0")
  case True
  have "mask LENGTH('a) = (- 1 :: 'a word)" by (rule bit_word_eqI) (simp add: bit_simps)
  with True show ?thesis by (simp add: prefix_mask_def)
next
  case False
  then show ?thesis by (auto simp: prefix_mask_def bit_simps intro!: bit_word_eqI)
qed

lemma unat_block_start:
  "unat (w AND NOT (mask k) :: 'a :: len word) = (unat w div 2 ^ k) * 2 ^ k"
proof -
  have "w AND NOT (mask k) = push_bit k (drop_bit k w)"
    by (rule bit_word_eqI) (auto simp: bit_simps)
  moreover have less: "unat w < 2 ^ LENGTH('a)" by (rule unsigned_less)
  moreover have "unat w div 2 ^ k * 2 ^ k < 2 ^ LENGTH('a)"
    using less by (rule order_le_less_trans [rotated]) simp
  moreover have "unat (push_bit k (drop_bit k w))
      = take_bit LENGTH('a) (push_bit k (drop_bit k (take_bit LENGTH('a) (unat w))))"
    by (simp only: unsigned_push_bit_eq unsigned_drop_bit_eq)
  ultimately show ?thesis
    by (simp only: push_bit_eq_mult drop_bit_eq_div take_bit_eq_mod mod_less)
qed

lemma block_end_or: "(w AND NOT (mask k)) OR mask k = (w AND NOT (mask k)) + (mask k :: 'a :: len word)"
  by (subst disjunctive_add) (auto simp: bit_simps)

lemma unat_mask:
  assumes "k \<le> LENGTH('a)"
  shows "unat (mask k :: 'a :: len word) = 2 ^ k - 1"
proof -
  have "unat (mask k :: 'a word) = mask k"
    using assms by (intro bit_eqI) (auto simp: bit_simps)
  then show ?thesis by (simp add: mask_eq_exp_minus_1)
qed

lemma block_nat:
  fixes n v K :: nat
  assumes "0 < K"
  shows "n * K \<le> v \<and> v \<le> n * K + (K - 1) \<longleftrightarrow> v div K = n"
proof
  assume "n * K \<le> v \<and> v \<le> n * K + (K - 1)"
  with assms show "v div K = n" by (intro div_nat_eqI) (auto simp: mult.commute)
next
  assume n: "v div K = n"
  have "v = v div K * K + v mod K" by simp
  moreover have "v mod K < K" using assms by simp
  ultimately show "n * K \<le> v \<and> v \<le> n * K + (K - 1)" unfolding n [symmetric] by linarith
qed

lemma block_fits:
  assumes "k \<le> LENGTH('a)"
  shows "unat (w :: 'a :: len word) div 2 ^ k * 2 ^ k + (2 ^ k - 1) < 2 ^ LENGTH('a)"
proof -
  let ?N = "unat w div 2 ^ k"
  have pow: "(2 :: nat) ^ LENGTH('a) = 2 ^ (LENGTH('a) - k) * 2 ^ k"
    using assms by (simp flip: power_add)
  have "unat w < 2 ^ (LENGTH('a) - k) * 2 ^ k"
    using unsigned_less [of w, where 'a = nat] pow by simp
  then have "?N < 2 ^ (LENGTH('a) - k)" by (simp add: less_mult_imp_div_less)
  then have "Suc ?N * 2 ^ k \<le> 2 ^ (LENGTH('a) - k) * 2 ^ k" by (intro mult_right_mono) simp_all
  moreover have "0 < (2 :: nat) ^ k" by simp
  ultimately show ?thesis unfolding pow mult_Suc by linarith
qed

lemma unat_block_end:
  assumes "k \<le> LENGTH('a)"
  shows "unat ((w AND NOT (mask k)) OR mask k :: 'a :: len word) = (unat w div 2 ^ k) * 2 ^ k + (2 ^ k - 1)"
  using block_fits [OF assms, of w]
  by (simp add: block_end_or unat_word_ariths unat_block_start unat_mask [OF assms])

lemma cidr_range_spec:
  assumes "p \<le> LENGTH('a)"
  shows "\<exists>r. cidr_range ip p = Some r \<and> rg_start r \<le> rg_end r
    \<and> (\<forall>v. in_range v r \<longleftrightarrow> in_cidr v (ip :: 'a :: len word) p)"
proof -
  let ?k = "LENGTH('a) - p"
  let ?r = "\<lparr>rg_start = ip AND NOT (mask ?k), rg_end = (ip AND NOT (mask ?k)) OR mask ?k\<rparr>"
  have "cidr_range ip p = Some ?r"
    using assms by (simp add: cidr_range_def prefix_mask_eq Let_def)
  moreover have s: "unat (rg_start ?r) = unat ip div 2 ^ ?k * 2 ^ ?k" by (simp add: unat_block_start)
  moreover have e: "unat (rg_end ?r) = unat ip div 2 ^ ?k * 2 ^ ?k + (2 ^ ?k - 1)"
    by (simp add: unat_block_end)
  moreover have "in_range v ?r \<longleftrightarrow> unat v div 2 ^ ?k = unat ip div 2 ^ ?k" for v
    unfolding in_range_def word_le_nat_alt s e by (rule block_nat) simp
  moreover have "in_cidr v ip p \<longleftrightarrow> unat v div 2 ^ ?k = unat ip div 2 ^ ?k" for v
    by (metis in_cidr_def unat_drop_bit_eq drop_bit_eq_div unsigned_word_eqI)
  moreover have "rg_start ?r \<le> rg_end ?r" unfolding word_le_nat_alt s e by (rule le_add1)
  ultimately show ?thesis by (intro exI [of _ ?r]) simp
qed

section \<open>Country ranges\<close>

text \<open>The messages of \<^verbatim>\<open>proto/v2ray.proto\<close> that the matchers read.\<close>

record cidr_msg =
  cidr_ip :: string
  cidr_prefix :: u32

record geoip_msg =
  geoip_country_code :: string
  geoip_cidr :: "cidr_msg list"

record geoip_category =
  cat_v4 :: "32 word range list"
  cat_v6 :: "128 word range list"

type_synonym geoip_matcher = "string \<Rightarrow> geoip_category option"

definition lower_char :: "char \<Rightarrow> char" where
  "lower_char c = (if 65 \<le> (of_char c :: nat) \<and> (of_char c :: nat) \<le> 90 then char_of ((of_char c :: nat) + 32) else c)"

definition lower :: "string \<Rightarrow> string" where
  "lower s = map lower_char s"

definition v4_word :: "bytes \<Rightarrow> 32 word" where
  "v4_word p = push_bit 24 (ucast (p ! 0)) OR push_bit 16 (ucast (p ! 1))
     OR push_bit 8 (ucast (p ! 2)) OR ucast (p ! 3)"

definition be64 :: "bytes \<Rightarrow> u64" where
  "be64 bs = foldl (\<lambda>v b. push_bit 8 v OR ucast b) 0 bs"

definition v6_word :: "bytes \<Rightarrow> 128 word" where
  "v6_word p = (let hi = be64 (take 8 p); lo = be64 (take 8 (drop 8 p)) in push_bit 64 (ucast hi) OR ucast lo)"

definition toU32 :: "string \<Rightarrow> 32 word" where
  "toU32 s = (if length s \<noteq> 4 then 0 else v4_word (as_bytes s))"

definition toU128 :: "string \<Rightarrow> 128 word" where
  "toU128 s = (if length s \<noteq> 16 then 0 else v6_word (as_bytes s))"

definition load_cidr :: "geoip_category \<Rightarrow> cidr_msg \<Rightarrow> geoip_category option" where
  "load_cidr cat c =
     (if length (cidr_ip c) = 4 then
        map_option (\<lambda>r. cat\<lparr>cat_v4 := cat_v4 cat @ [r]\<rparr>) (cidr_range (toU32 (cidr_ip c)) (unat (cidr_prefix c)))
      else if length (cidr_ip c) = 16 then
        map_option (\<lambda>r. cat\<lparr>cat_v6 := cat_v6 cat @ [r]\<rparr>) (cidr_range (toU128 (cidr_ip c)) (unat (cidr_prefix c)))
      else Some cat)"

fun load_cidrs :: "geoip_category \<Rightarrow> cidr_msg list \<Rightarrow> geoip_category option" where
  "load_cidrs cat [] = Some cat"
| "load_cidrs cat (c # cs) =
     (case load_cidr cat c of None \<Rightarrow> None | Some cat \<Rightarrow> load_cidrs cat cs)"

fun load_geoips :: "geoip_matcher \<Rightarrow> geoip_msg list \<Rightarrow> geoip_matcher option" where
  "load_geoips cats [] = Some cats"
| "load_geoips cats (e # es) =
     (let code = lower (geoip_country_code e);
          cat = (case cats code of None \<Rightarrow> \<lparr>cat_v4 = [], cat_v6 = []\<rparr> | Some c \<Rightarrow> c)
      in case load_cidrs cat (geoip_cidr e) of
           None \<Rightarrow> None | Some cat \<Rightarrow> load_geoips (cats(code \<mapsto> cat)) es)"

definition merge_category :: "geoip_category \<Rightarrow> geoip_category" where
  "merge_category cat = \<lparr>cat_v4 = merge_ranges (cat_v4 cat), cat_v6 = merge_ranges (cat_v6 cat)\<rparr>"

text \<open>\<^verbatim>\<open>load\<close>: \<open>file\<close> is \<open>None\<close> when the file cannot be opened and \<open>Some None\<close> when it does not decode.
  The second component is \<open>None\<close> where a prefix longer than the address makes the shift undefined.\<close>

definition geoip_load ::
  "string \<Rightarrow> geoip_msg list option option \<Rightarrow> geoip_matcher \<Rightarrow> unit result \<times> geoip_matcher option"
where
  "geoip_load path file cats =
     (case file of
        None \<Rightarrow> (Inl (NotFoundError (''cannot open geoip.dat: '' @ path)), Some cats)
      | Some None \<Rightarrow> (Inl (InvalidArgumentError ''failed to parse geoip.dat protobuf''), Some cats)
      | Some (Some entries) \<Rightarrow>
          (Inr (), map_option (\<lambda>cats code. map_option merge_category (cats code)) (load_geoips cats entries)))"

definition geoip_match :: "geoip_matcher \<Rightarrow> bytes \<Rightarrow> bool \<Rightarrow> string \<Rightarrow> bool" where
  "geoip_match cats ip is_v6 country_code =
     (case cats country_code of
        None \<Rightarrow> False
      | Some cat \<Rightarrow>
          if \<not> is_v6 then range_lookup (v4_word ip) (cat_v4 cat)
          else range_lookup (v6_word ip) (cat_v6 cat))"

text \<open>The specification: some block of an entry with that code contains the address.\<close>

definition cidr_has :: "cidr_msg \<Rightarrow> bytes \<Rightarrow> bool \<Rightarrow> bool" where
  "cidr_has c ip is_v6 \<longleftrightarrow>
     (if \<not> is_v6 then length (cidr_ip c) = 4 \<and> in_cidr (v4_word ip) (toU32 (cidr_ip c)) (unat (cidr_prefix c))
      else length (cidr_ip c) = 16 \<and> in_cidr (v6_word ip) (toU128 (cidr_ip c)) (unat (cidr_prefix c)))"

definition geoip_listed :: "geoip_msg list \<Rightarrow> bytes \<Rightarrow> bool \<Rightarrow> string \<Rightarrow> bool" where
  "geoip_listed entries ip is_v6 code \<longleftrightarrow>
     (\<exists>e \<in> set entries. lower (geoip_country_code e) = code \<and> (\<exists>c \<in> set (geoip_cidr e). cidr_has c ip is_v6))"

definition prefixes_ok :: "geoip_msg list \<Rightarrow> bool" where
  "prefixes_ok entries \<longleftrightarrow>
     (\<forall>e \<in> set entries. \<forall>c \<in> set (geoip_cidr e).
        (length (cidr_ip c) = 4 \<longrightarrow> unat (cidr_prefix c) \<le> 32)
        \<and> (length (cidr_ip c) = 16 \<longrightarrow> unat (cidr_prefix c) \<le> 128))"

definition cat_has :: "geoip_category \<Rightarrow> bytes \<Rightarrow> bool \<Rightarrow> bool" where
  "cat_has cat ip is_v6 \<longleftrightarrow>
     (if \<not> is_v6 then \<exists>r \<in> set (cat_v4 cat). in_range (v4_word ip) r
      else \<exists>r \<in> set (cat_v6 cat). in_range (v6_word ip) r)"

definition cat_ok :: "geoip_category \<Rightarrow> bool" where
  "cat_ok cat \<longleftrightarrow> (\<forall>r \<in> set (cat_v4 cat). rg_start r \<le> rg_end r) \<and> (\<forall>r \<in> set (cat_v6 cat). rg_start r \<le> rg_end r)"

lemma load_cidr_spec:
  assumes ok: "cat_ok cat" and p4: "length (cidr_ip c) = 4 \<longrightarrow> unat (cidr_prefix c) \<le> 32"
    and p6: "length (cidr_ip c) = 16 \<longrightarrow> unat (cidr_prefix c) \<le> 128"
  shows "\<exists>cat'. load_cidr cat c = Some cat' \<and> cat_ok cat'
    \<and> (\<forall>ip v6. cat_has cat' ip v6 \<longleftrightarrow> cat_has cat ip v6 \<or> cidr_has c ip v6)"
proof -
  consider "length (cidr_ip c) = 4" | "length (cidr_ip c) = 16" | "length (cidr_ip c) \<noteq> 4" "length (cidr_ip c) \<noteq> 16"
    by blast
  then show ?thesis
  proof cases
    case 1
    then have "unat (cidr_prefix c) \<le> LENGTH(32)" using p4 by simp
    from cidr_range_spec [OF this, of "toU32 (cidr_ip c)"] obtain r where
      "cidr_range (toU32 (cidr_ip c)) (unat (cidr_prefix c)) = Some r" "rg_start r \<le> rg_end r"
      "\<And>v. in_range v r \<longleftrightarrow> in_cidr v (toU32 (cidr_ip c)) (unat (cidr_prefix c))" by blast
    with 1 ok show ?thesis by (auto simp: load_cidr_def cat_ok_def cat_has_def cidr_has_def)
  next
    case 2
    then have "unat (cidr_prefix c) \<le> LENGTH(128)" using p6 by simp
    from cidr_range_spec [OF this, of "toU128 (cidr_ip c)"] obtain r where
      "cidr_range (toU128 (cidr_ip c)) (unat (cidr_prefix c)) = Some r" "rg_start r \<le> rg_end r"
      "\<And>v. in_range v r \<longleftrightarrow> in_cidr v (toU128 (cidr_ip c)) (unat (cidr_prefix c))" by blast
    with 2 ok show ?thesis by (auto simp: load_cidr_def cat_ok_def cat_has_def cidr_has_def)
  next
    case 3
    with ok show ?thesis by (simp add: load_cidr_def cidr_has_def)
  qed
qed

lemma load_cidrs_spec:
  assumes "cat_ok cat"
    "\<forall>c \<in> set cs. (length (cidr_ip c) = 4 \<longrightarrow> unat (cidr_prefix c) \<le> 32)
       \<and> (length (cidr_ip c) = 16 \<longrightarrow> unat (cidr_prefix c) \<le> 128)"
  shows "\<exists>cat'. load_cidrs cat cs = Some cat' \<and> cat_ok cat'
    \<and> (\<forall>ip v6. cat_has cat' ip v6 \<longleftrightarrow> cat_has cat ip v6 \<or> (\<exists>c \<in> set cs. cidr_has c ip v6))"
  using assms
proof (induction cs arbitrary: cat)
  case Nil
  then show ?case by simp
next
  case (Cons c cs)
  then obtain cat1 where c1: "load_cidr cat c = Some cat1" "cat_ok cat1"
    "\<And>ip v6. cat_has cat1 ip v6 \<longleftrightarrow> cat_has cat ip v6 \<or> cidr_has c ip v6"
    using load_cidr_spec [of cat c] by auto
  with Cons.IH [OF c1(2)] Cons.prems obtain cat2 where "load_cidrs cat1 cs = Some cat2" "cat_ok cat2"
    "\<And>ip v6. cat_has cat2 ip v6 \<longleftrightarrow> cat_has cat1 ip v6 \<or> (\<exists>c \<in> set cs. cidr_has c ip v6)" by auto
  with c1 show ?case by auto
qed

definition geoip_has :: "geoip_matcher \<Rightarrow> string \<Rightarrow> bytes \<Rightarrow> bool \<Rightarrow> bool" where
  "geoip_has cats code ip is_v6 \<longleftrightarrow> (\<exists>cat. cats code = Some cat \<and> cat_has cat ip is_v6)"

definition geoip_ok :: "geoip_matcher \<Rightarrow> bool" where
  "geoip_ok cats \<longleftrightarrow> (\<forall>code cat. cats code = Some cat \<longrightarrow> cat_ok cat)"

lemma load_geoips_spec:
  assumes "geoip_ok cats" "prefixes_ok es"
  shows "\<exists>cats'. load_geoips cats es = Some cats' \<and> geoip_ok cats'
    \<and> (\<forall>code ip v6. geoip_has cats' code ip v6 \<longleftrightarrow> geoip_has cats code ip v6 \<or> geoip_listed es ip v6 code)"
  using assms
proof (induction es arbitrary: cats)
  case Nil
  then show ?case by (simp add: geoip_listed_def)
next
  case (Cons e es)
  let ?code = "lower (geoip_country_code e)"
  define cat where "cat = (case cats ?code of None \<Rightarrow> \<lparr>cat_v4 = [], cat_v6 = []\<rparr> | Some c \<Rightarrow> c)"
  have cat: "cat_ok cat" "cat_has cat ip v6 \<longleftrightarrow> geoip_has cats ?code ip v6" for ip v6
    using Cons.prems(1) by (auto simp: cat_def geoip_ok_def geoip_has_def cat_ok_def cat_has_def split: option.splits)
  obtain cat' where cat': "load_cidrs cat (geoip_cidr e) = Some cat'" "cat_ok cat'"
    "\<And>ip v6. cat_has cat' ip v6 \<longleftrightarrow> cat_has cat ip v6 \<or> (\<exists>c \<in> set (geoip_cidr e). cidr_has c ip v6)"
    using load_cidrs_spec [OF cat(1), of "geoip_cidr e"] Cons.prems(2) by (auto simp: prefixes_ok_def)
  have "geoip_ok (cats(?code \<mapsto> cat'))" using Cons.prems(1) cat'(2) by (simp add: geoip_ok_def)
  moreover have "prefixes_ok es" using Cons.prems(2) by (simp add: prefixes_ok_def)
  ultimately obtain cats' where step: "load_geoips (cats(?code \<mapsto> cat')) es = Some cats'" "geoip_ok cats'"
    "\<And>code ip v6. geoip_has cats' code ip v6 \<longleftrightarrow>
        geoip_has (cats(?code \<mapsto> cat')) code ip v6 \<or> geoip_listed es ip v6 code"
    using Cons.IH by blast
  have "geoip_has (cats(?code \<mapsto> cat')) code ip v6 \<longleftrightarrow>
     geoip_has cats code ip v6 \<or> code = ?code \<and> (\<exists>c \<in> set (geoip_cidr e). cidr_has c ip v6)" for code ip v6
    using cat'(3) cat(2) by (auto simp: geoip_has_def)
  moreover have "load_geoips cats (e # es) = Some cats'"
    using step(1) cat'(1) by (simp add: Let_def flip: cat_def)
  ultimately show ?case using step(2,3) by (auto simp: geoip_listed_def)
qed

lemma merged_range_lookup:
  assumes "\<forall>r \<in> set rs. rg_start r \<le> rg_end r"
  shows "range_lookup v (merge_ranges rs) \<longleftrightarrow> (\<exists>r \<in> set rs. in_range v r)"
  using merge_ranges_spec [OF assms, of v] range_lookup_spec by blast

lemma merged_lookup:
  assumes "cat_ok cat"
  shows "range_lookup (v4_word ip) (cat_v4 (merge_category cat)) \<longleftrightarrow> cat_has cat ip False"
    and "range_lookup (v6_word ip) (cat_v6 (merge_category cat)) \<longleftrightarrow> cat_has cat ip True"
  using assms by (simp_all add: cat_ok_def cat_has_def merge_category_def merged_range_lookup)

lemma geoip_match_loaded:
  assumes "geoip_ok cats"
  shows "geoip_match (\<lambda>code. map_option merge_category (cats code)) ip v6 code \<longleftrightarrow> geoip_has cats code ip v6"
proof (cases "cats code")
  case (Some cat)
  then have "cat_ok cat" using assms by (simp add: geoip_ok_def)
  with Some show ?thesis by (cases v6) (simp_all add: geoip_match_def geoip_has_def merged_lookup)
qed (simp add: geoip_match_def geoip_has_def)

lemma load_cidrs_prefixes:
  "load_cidrs cat cs = Some cat' \<Longrightarrow>
     \<forall>c \<in> set cs. (length (cidr_ip c) = 4 \<longrightarrow> unat (cidr_prefix c) \<le> 32)
       \<and> (length (cidr_ip c) = 16 \<longrightarrow> unat (cidr_prefix c) \<le> 128)"
proof (induction cs arbitrary: cat)
  case (Cons c cs)
  then obtain cat1 where "load_cidr cat c = Some cat1" "load_cidrs cat1 cs = Some cat'"
    by (auto split: option.splits)
  with Cons.IH show ?case
    by (auto simp: load_cidr_def cidr_range_def split: if_splits)
qed simp

lemma load_geoips_prefixes: "load_geoips cats es = Some cats' \<Longrightarrow> prefixes_ok es"
proof (induction es arbitrary: cats)
  case (Cons e es)
  then show ?case using load_cidrs_prefixes
    by (auto simp: prefixes_ok_def Let_def split: option.splits)
qed (simp add: prefixes_ok_def)

lemma geoip_loaded:
  assumes "geoip_load path (Some (Some entries)) Map.empty = (res, Some cats)"
  shows "geoip_match cats ip v6 code \<longleftrightarrow> geoip_listed entries ip v6 code"
proof -
  from assms obtain m where m: "load_geoips Map.empty entries = Some m"
    "cats = (\<lambda>code. map_option merge_category (m code))"
    by (auto simp: geoip_load_def)
  have "geoip_ok Map.empty" by (simp add: geoip_ok_def)
  from load_geoips_spec [OF this load_geoips_prefixes [OF m(1)]] m show ?thesis
    by (auto simp: geoip_match_loaded geoip_has_def)
qed

text \<open>C16. \<^verbatim>\<open>GeoIpMatcher::load\<close> followed by \<^verbatim>\<open>match\<close> decides membership in the country's blocks: for a
  database whose prefixes fit their addresses, loading succeeds, and afterwards the binary search
  over sorted and merged ranges answers yes exactly when some CIDR block of an entry with that
  (lower-cased) country code agrees with the address on its prefix bits.\<close>

theorem geoip_match_correct:
  assumes "prefixes_ok entries"
  shows "\<exists>cats. geoip_load path (Some (Some entries)) Map.empty = (Inr (), Some cats)
    \<and> (\<forall>ip v6 code. geoip_match cats ip v6 code \<longleftrightarrow> geoip_listed entries ip v6 code)"
proof -
  have "geoip_ok Map.empty" by (simp add: geoip_ok_def)
  from load_geoips_spec [OF this assms] obtain cats where
    "load_geoips Map.empty entries = Some cats" "geoip_ok cats"
    "\<And>code ip v6. geoip_has cats code ip v6 \<longleftrightarrow> geoip_listed entries ip v6 code"
    by (auto simp: geoip_has_def)
  then show ?thesis by (simp add: geoip_load_def geoip_match_loaded)
qed

lemma lower_cn: "lower ''CN'' = ''cn''"
  by code_simp

theorem geoip_match_correct_witness:
  "\<exists>cats. geoip_load ''geoip.dat''
      (Some (Some [\<lparr>geoip_country_code = ''CN'',
        geoip_cidr = [\<lparr>cidr_ip = as_string [10, 1, 0, 0], cidr_prefix = 16\<rparr>,
                      \<lparr>cidr_ip = as_string [10, 0, 0, 0], cidr_prefix = 16\<rparr>]\<rparr>])) Map.empty = (Inr (), Some cats)
    \<and> geoip_match cats [10, 0, 255, 7] False ''cn'' \<and> \<not> geoip_match cats [10, 2, 0, 0] False ''cn''"
proof -
  let ?es = "[\<lparr>geoip_country_code = ''CN'',
        geoip_cidr = [\<lparr>cidr_ip = as_string [10, 1, 0, 0], cidr_prefix = 16\<rparr>,
                      \<lparr>cidr_ip = as_string [10, 0, 0, 0], cidr_prefix = 16\<rparr>]\<rparr>]"
  have "prefixes_ok ?es" by (simp add: prefixes_ok_def)
  moreover have "geoip_listed ?es [10, 0, 255, 7] False ''cn''" "\<not> geoip_listed ?es [10, 2, 0, 0] False ''cn''"
    by (simp_all add: geoip_listed_def cidr_has_def lower_cn in_cidr_def toU32_def v4_word_def)
  ultimately show ?thesis using geoip_match_correct [of ?es "''geoip.dat''"] by blast
qed

text \<open>The codes are lower-cased when the database is loaded but compared as they are written in the
  rule, so a rule that spells a code with a capital letter matches nothing.\<close>

lemma lower_idem: "lower (lower s) = lower s"
proof -
  have "lower_char (lower_char c) = lower_char c" for c
    by (auto simp: lower_char_def)
  then show ?thesis by (simp add: lower_def)
qed

lemma geoip_code_case:
  assumes "lower code \<noteq> code"
  shows "\<not> geoip_listed entries ip v6 code"
  using assms lower_idem by (auto simp: geoip_listed_def)

end
