(* ===== verification/Geo_Site.thy ===== *)
theory Geo_Site
  imports Geo
begin

text \<open>
  Model of \<^verbatim>\<open>GeoSiteMatcher\<close> (\<^verbatim>\<open>route/geo_matcher.cpp\<close>): loading the domain lists of the decoded
  \<^verbatim>\<open>GeoSiteList\<close> into per-category sets, and the label by label walk of \<^verbatim>\<open>match\<close>. \<^verbatim>\<open>std::regex\<close> is a
  parameter: compiling a pattern, which may throw, and searching a subject.
\<close>

record 'r regex_api =
  regex_compile :: "string \<Rightarrow> 'r option"
  regex_search :: "string \<Rightarrow> 'r \<Rightarrow> bool"

text \<open>The messages of \<^verbatim>\<open>proto/v2ray.proto\<close>. An enum of proto3 is open: values that the sender's
  schema knows and this one does not arrive as \<open>Domain_Type_Other\<close>.\<close>

datatype domain_type =
    Domain_Type_Plain
  | Domain_Type_Regex
  | Domain_Type_RootDomain
  | Domain_Type_Full
  | Domain_Type_Other int

record domain_msg =
  dm_type :: domain_type
  dm_value :: string

record geosite_msg =
  geosite_country_code :: string
  geosite_domain :: "domain_msg list"

record 'r site_category =
  site_exact :: "string set"
  site_suffix :: "string set"
  site_regexes :: "'r list"

type_synonym 'r geosite_matcher = "string \<Rightarrow> 'r site_category option"

section \<open>Loading\<close>

definition no_site_category :: "'r site_category" where
  "no_site_category = \<lparr>site_exact = {}, site_suffix = {}, site_regexes = []\<rparr>"

definition add_regex :: "'r regex_api \<Rightarrow> string \<Rightarrow> 'r site_category \<Rightarrow> 'r site_category" where
  "add_regex R v cat =
     (case regex_compile R v of
        None \<Rightarrow> cat
      | Some r \<Rightarrow> cat\<lparr>site_regexes := site_regexes cat @ [r]\<rparr>)"

definition load_domain :: "'r regex_api \<Rightarrow> 'r site_category \<Rightarrow> domain_msg \<Rightarrow> 'r site_category" where
  "load_domain R cat d =
     (case dm_type d of
        Domain_Type_Full \<Rightarrow> cat\<lparr>site_exact := insert (dm_value d) (site_exact cat)\<rparr>
      | Domain_Type_RootDomain \<Rightarrow> cat\<lparr>site_suffix := insert (dm_value d) (site_suffix cat)\<rparr>
      | Domain_Type_Regex \<Rightarrow> add_regex R (dm_value d) cat
      | Domain_Type_Plain \<Rightarrow> add_regex R (dm_value d) cat
      | Domain_Type_Other _ \<Rightarrow> cat)"

fun load_sites :: "'r regex_api \<Rightarrow> 'r geosite_matcher \<Rightarrow> geosite_msg list \<Rightarrow> 'r geosite_matcher" where
  "load_sites R cats [] = cats"
| "load_sites R cats (site # sites) =
     (let code = lower (geosite_country_code site);
          cat = (case cats code of None \<Rightarrow> no_site_category | Some c \<Rightarrow> c)
      in load_sites R (cats(code \<mapsto> foldl (load_domain R) cat (geosite_domain site))) sites)"

text \<open>\<^verbatim>\<open>load\<close>: \<open>file\<close> is \<open>None\<close> when the file cannot be opened and \<open>Some None\<close> when it does not decode.\<close>

definition geosite_load ::
  "'r regex_api \<Rightarrow> string \<Rightarrow> geosite_msg list option option \<Rightarrow> 'r geosite_matcher
     \<Rightarrow> unit result \<times> 'r geosite_matcher"
where
  "geosite_load R path file cats =
     (case file of
        None \<Rightarrow> (Inl (NotFoundError (''cannot open geosite.dat: '' @ path)), cats)
      | Some None \<Rightarrow> (Inl (InvalidArgumentError ''failed to parse geosite.dat protobuf''), cats)
      | Some (Some entries) \<Rightarrow> (Inr (), load_sites R cats entries))"

section \<open>Matching\<close>

text \<open>The loop of \<^verbatim>\<open>match\<close>: try the name itself, then what follows its first dot, and so on.\<close>

function suffix_walk :: "string set \<Rightarrow> string \<Rightarrow> bool" where
  "suffix_walk S d =
     (if d \<in> S then True
      else case find_char CHR ''.'' d of
             None \<Rightarrow> False
           | Some dot \<Rightarrow> suffix_walk S (drop (dot + 1) d))"
  by pat_completeness auto
termination
  by (relation "measure (\<lambda>(S, d). length d)") (auto dest: find_char_Some(1))

declare suffix_walk.simps [simp del]

definition geosite_match :: "'r regex_api \<Rightarrow> 'r geosite_matcher \<Rightarrow> string \<Rightarrow> string \<Rightarrow> bool" where
  "geosite_match R cats domain country_code =
     (case cats country_code of
        None \<Rightarrow> False
      | Some cat \<Rightarrow>
          if domain \<in> site_exact cat then True
          else if suffix_walk (site_suffix cat) domain then True
          else list_ex (regex_search R domain) (site_regexes cat))"

section \<open>Correctness\<close>

text \<open>A name is covered by a root domain when it is that domain or ends with a dot and that domain.\<close>

definition label_suffix :: "string \<Rightarrow> string \<Rightarrow> bool" where
  "label_suffix s d \<longleftrightarrow> d = s \<or> suffix (CHR ''.'' # s) d"

lemma label_suffix_step:
  assumes "find_char CHR ''.'' d = Some n"
  shows "label_suffix s d \<longleftrightarrow> d = s \<or> label_suffix s (drop (n + 1) d)"
proof -
  let ?a = "take n d" and ?r = "drop (Suc n) d"
  have d: "d = ?a @ CHR ''.'' # ?r" and a: "CHR ''.'' \<notin> set ?a" using find_char_Some [OF assms] by auto
  have "suffix (CHR ''.'' # s) (?a @ CHR ''.'' # ?r) \<longleftrightarrow> suffix (CHR ''.'' # s) (CHR ''.'' # ?r)"
    using a by (auto simp: suffix_append suffix_def append_eq_Cons_conv Cons_eq_append_conv append_eq_append_conv2)
  also have "\<dots> \<longleftrightarrow> s = ?r \<or> suffix (CHR ''.'' # s) ?r"
    by (auto simp: suffix_Cons)
  finally show ?thesis unfolding label_suffix_def using d by auto
qed

lemma suffix_walk_spec: "suffix_walk S d \<longleftrightarrow> (\<exists>s \<in> S. label_suffix s d)"
proof (induction S d rule: suffix_walk.induct)
  case (1 S d)
  show ?case
  proof (cases "find_char CHR ''.'' d")
    case None
    then have "CHR ''.'' \<notin> set d" by (simp add: find_char_None)
    then have "label_suffix s d \<longleftrightarrow> d = s" for s
      by (auto simp: label_suffix_def dest: set_mono_suffix)
    with None show ?thesis by (subst suffix_walk.simps) auto
  next
    case (Some n)
    then show ?thesis
      using 1 label_suffix_step [OF Some] by (subst suffix_walk.simps) auto
  qed
qed

definition domain_has :: "'r regex_api \<Rightarrow> domain_msg \<Rightarrow> string \<Rightarrow> bool" where
  "domain_has R d name \<longleftrightarrow>
     (case dm_type d of
        Domain_Type_Full \<Rightarrow> name = dm_value d
      | Domain_Type_RootDomain \<Rightarrow> label_suffix (dm_value d) name
      | Domain_Type_Regex \<Rightarrow> (\<exists>r. regex_compile R (dm_value d) = Some r \<and> regex_search R name r)
      | Domain_Type_Plain \<Rightarrow> (\<exists>r. regex_compile R (dm_value d) = Some r \<and> regex_search R name r)
      | Domain_Type_Other _ \<Rightarrow> False)"

definition site_has :: "'r regex_api \<Rightarrow> 'r site_category \<Rightarrow> string \<Rightarrow> bool" where
  "site_has R cat name \<longleftrightarrow>
     name \<in> site_exact cat \<or> (\<exists>s \<in> site_suffix cat. label_suffix s name)
       \<or> (\<exists>r \<in> set (site_regexes cat). regex_search R name r)"

lemma site_has_none [simp]: "\<not> site_has R no_site_category name"
  by (simp add: site_has_def no_site_category_def)

lemma load_domain_spec: "site_has R (load_domain R cat d) name \<longleftrightarrow> site_has R cat name \<or> domain_has R d name"
  by (auto simp: site_has_def load_domain_def domain_has_def add_regex_def split: domain_type.split option.split)

lemma load_domains_spec:
  "site_has R (foldl (load_domain R) cat ds) name \<longleftrightarrow> site_has R cat name \<or> (\<exists>d \<in> set ds. domain_has R d name)"
  by (induction ds arbitrary: cat) (auto simp: load_domain_spec)

definition cats_have :: "'r regex_api \<Rightarrow> 'r geosite_matcher \<Rightarrow> string \<Rightarrow> string \<Rightarrow> bool" where
  "cats_have R cats code name \<longleftrightarrow> (\<exists>cat. cats code = Some cat \<and> site_has R cat name)"

lemma cats_have_empty [simp]: "\<not> cats_have R Map.empty code name"
  by (simp add: cats_have_def)

definition geosite_listed :: "'r regex_api \<Rightarrow> geosite_msg list \<Rightarrow> string \<Rightarrow> string \<Rightarrow> bool" where
  "geosite_listed R entries name code \<longleftrightarrow>
     (\<exists>site \<in> set entries. lower (geosite_country_code site) = code
        \<and> (\<exists>d \<in> set (geosite_domain site). domain_has R d name))"

lemma geosite_match_has: "geosite_match R cats name code \<longleftrightarrow> cats_have R cats code name"
  by (auto simp: geosite_match_def cats_have_def site_has_def suffix_walk_spec list_ex_iff split: option.split)

lemma load_sites_spec:
  "cats_have R (load_sites R cats sites) code name \<longleftrightarrow> cats_have R cats code name \<or> geosite_listed R sites name code"
proof (induction sites arbitrary: cats)
  case Nil
  then show ?case by (simp add: geosite_listed_def)
next
  case (Cons site sites)
  let ?code = "lower (geosite_country_code site)"
  define cat where "cat = (case cats ?code of None \<Rightarrow> no_site_category | Some c \<Rightarrow> c)"
  have "site_has R cat name \<longleftrightarrow> cats_have R cats ?code name"
    by (auto simp: cat_def cats_have_def split: option.split)
  then have "cats_have R (cats(?code \<mapsto> foldl (load_domain R) cat (geosite_domain site))) code name \<longleftrightarrow>
      cats_have R cats code name \<or> code = ?code \<and> (\<exists>d \<in> set (geosite_domain site). domain_has R d name)"
    by (auto simp: cats_have_def load_domains_spec)
  moreover have "load_sites R cats (site # sites) =
      load_sites R (cats(?code \<mapsto> foldl (load_domain R) cat (geosite_domain site))) sites"
    by (simp add: Let_def cat_def)
  moreover have "geosite_listed R (site # sites) name code \<longleftrightarrow>
      code = ?code \<and> (\<exists>d \<in> set (geosite_domain site). domain_has R d name) \<or> geosite_listed R sites name code"
    by (auto simp: geosite_listed_def)
  ultimately show ?case by (simp only: Cons.IH) blast
qed

text \<open>C17. \<^verbatim>\<open>GeoSiteMatcher::load\<close> followed by \<^verbatim>\<open>match\<close> answers yes exactly for the names its lists cover: a
  \<^verbatim>\<open>Full\<close> entry equal to the name, a \<^verbatim>\<open>RootDomain\<close> entry that is the name or ends it at a label
  boundary, or a \<^verbatim>\<open>Regex\<close> or \<^verbatim>\<open>Plain\<close> entry that compiles as a regular expression found in the name,
  in an entry whose lower-cased code is the one asked for.\<close>

theorem geosite_match_correct:
  "\<exists>cats. geosite_load R path (Some (Some entries)) Map.empty = (Inr (), cats)
    \<and> (\<forall>name code. geosite_match R cats name code \<longleftrightarrow> geosite_listed R entries name code)"
  by (simp add: geosite_load_def geosite_match_has load_sites_spec)

end
