(* ===== verification/Router.thy ===== *)
theory Router
  imports Config Geo_Site Session
begin

text \<open>
  Model of \<^verbatim>\<open>route/router.cpp\<close>: compiling the routing rules of a configuration and picking the outbound
  of a request. The lemmas relate the compiled matchers (byte-wise prefix comparison, suffix test,
  geo databases) to what a rule says, and show that the router returns the outbound of the first
  rule that covers the request.
\<close>

text \<open>\<^verbatim>\<open>SessionRequest\<close>, without the streams, which routing does not look at.\<close>

record session_request =
  rq_inbound_tag :: string
  rq_inbound_protocol :: string
  rq_protocol :: protocol
  rq_target :: address

record ip_range =
  ipr_net :: bytes
  ipr_prefix_len :: u8
  ipr_is_v6 :: bool

record compiled_rule =
  cr_inbound_tag :: "string option"
  cr_domain_exact :: "string set"
  cr_domain_suffix :: "string list"
  cr_cidrs :: "ip_range list"
  cr_geoip :: "string list"
  cr_geosite :: "string list"
  cr_outbound_tag :: string

record 'r router =
  rt_rules :: "compiled_rule list"
  rt_default_outbound :: string
  rt_geosite_matcher :: "'r geosite_matcher option"
  rt_geoip_matcher :: "geoip_matcher option"

section \<open>Address blocks\<close>

definition cidr_host :: "asio_ip \<Rightarrow> string \<Rightarrow> int \<Rightarrow> ip_range result" where
  "cidr_host I host plen =
     (case make_address I host of
        None \<Rightarrow> Inl (InvalidArgumentError (''bad ip: '' @ host))
      | Some (IpV4 b) \<Rightarrow>
          let prefix_len = (if plen < 0 then 32 else word_of_int plen) in
          if prefix_len > 32 then Inl (InvalidArgumentError ''ipv4 prefix > 32'')
          else Inr \<lparr>ipr_net = b @ drop 4 (replicate 16 0), ipr_prefix_len = prefix_len, ipr_is_v6 = False\<rparr>
      | Some (IpV6 b) \<Rightarrow>
          let prefix_len = (if plen < 0 then 128 else word_of_int plen) in
          if prefix_len > 128 then Inl (InvalidArgumentError ''ipv6 prefix > 128'')
          else Inr \<lparr>ipr_net = b, ipr_prefix_len = prefix_len, ipr_is_v6 = True\<rparr>)"

definition parseCidr :: "absl \<Rightarrow> asio_ip \<Rightarrow> string \<Rightarrow> ip_range result" where
  "parseCidr L I s =
     (case find_char CHR ''/'' s of
        None \<Rightarrow> cidr_host I s (- 1)
      | Some slash \<Rightarrow>
          (case SimpleAtoi32 L (drop (slash + 1) s) of
             None \<Rightarrow> Inl (InvalidArgumentError ''bad cidr prefix'')
           | Some plen \<Rightarrow> cidr_host I (take slash s) plen))"

definition bitsEqual :: "bytes \<Rightarrow> bytes \<Rightarrow> u8 \<Rightarrow> bool" where
  "bitsEqual a b plen =
     (let full = unat plen div 8; rem = unat plen mod 8 in
      if take full a \<noteq> take full b then False
      else if rem = 0 then True
      else
        let mask = push_bit (8 - rem) 0xFF :: u8
        in ((a ! full) XOR (b ! full)) AND mask = 0)"

definition contains :: "ip_range \<Rightarrow> bytes \<Rightarrow> bool \<Rightarrow> bool" where
  "contains r addr v6 = (if v6 \<noteq> ipr_is_v6 r then False else bitsEqual (ipr_net r) addr (ipr_prefix_len r))"

section \<open>Rules\<close>

definition endsWithSuffix :: "absl \<Rightarrow> string \<Rightarrow> string \<Rightarrow> bool" where
  "endsWithSuffix L domain suf =
     (if suf = [] then False
      else if length domain < length suf then False
      else EndsWith L domain suf \<and>
           (length domain = length suf \<or>
            (suf \<noteq> [] \<and> (suf ! 0 = CHR ''.'' \<or> domain ! (length domain - length suf - 1) = CHR ''.''))))"

definition matches_domain :: "absl \<Rightarrow> 'r regex_api \<Rightarrow> 'r router \<Rightarrow> compiled_rule \<Rightarrow> string \<Rightarrow> bool" where
  "matches_domain L R rt c d =
     (if d \<in> cr_domain_exact c then True
      else if list_ex (endsWithSuffix L d) (cr_domain_suffix c) then True
      else
        case rt_geosite_matcher rt of
          None \<Rightarrow> False
        | Some m \<Rightarrow> list_ex (geosite_match R m d) (cr_geosite c))"

definition matches_ip :: "'r router \<Rightarrow> compiled_rule \<Rightarrow> bytes \<Rightarrow> bool \<Rightarrow> bool" where
  "matches_ip rt c p v6 =
     (if list_ex (\<lambda>cr. contains cr p v6) (cr_cidrs c) then True
      else
        case rt_geoip_matcher rt of
          None \<Rightarrow> False
        | Some m \<Rightarrow> list_ex (geoip_match m p v6) (cr_geoip c))"

definition matches :: "absl \<Rightarrow> 'r regex_api \<Rightarrow> 'r router \<Rightarrow> compiled_rule \<Rightarrow> session_request \<Rightarrow> bool" where
  "matches L R rt c r =
     (if cr_inbound_tag c \<noteq> None \<and> the (cr_inbound_tag c) \<noteq> rq_inbound_tag r then False
      else
        let domain_rule = (cr_domain_exact c \<noteq> {} \<or> cr_domain_suffix c \<noteq> [] \<or> cr_geosite c \<noteq> []);
            any_match = (domain_rule \<and> isDomain (rq_target r) \<and>
                         matches_domain L R rt c (addr_domain (rq_target r)));
            ip_rule = (cr_cidrs c \<noteq> [] \<or> cr_geoip c \<noteq> []);
            any_match = (any_match \<or> ip_rule \<and> isIP (rq_target r) \<and>
                         matches_ip rt c (addr_bytes (rq_target r)) (addr_type (rq_target r) = IPv6))
        in if \<not> (domain_rule \<or> ip_rule) then cr_inbound_tag c \<noteq> None else any_match)"

section \<open>Compiling and picking\<close>

text \<open>The database files, decoded: \<open>None\<close> when one cannot be opened, \<open>Some None\<close> when it does not decode.\<close>

record geo_files =
  read_geosite :: "string \<Rightarrow> geosite_msg list option option"
  read_geoip :: "string \<Rightarrow> geoip_msg list option option"

fun compile_cidrs :: "absl \<Rightarrow> asio_ip \<Rightarrow> string list \<Rightarrow> ip_range list \<Rightarrow> ip_range list result" where
  "compile_cidrs L I [] acc = Inr acc"
| "compile_cidrs L I (c # cs) acc = rbind (parseCidr L I c) (\<lambda>ip. compile_cidrs L I cs (acc @ [ip]))"

definition compile_rule :: "absl \<Rightarrow> asio_ip \<Rightarrow> rule_config \<Rightarrow> compiled_rule result" where
  "compile_rule L I rc =
     rbind (compile_cidrs L I (rc_cidrs rc) []) (\<lambda>cidrs.
       Inr \<lparr>cr_inbound_tag = rc_inbound_tag rc, cr_domain_exact = set (rc_domain_exact rc),
            cr_domain_suffix = rc_domain_suffix rc, cr_cidrs = cidrs, cr_geoip = rc_geoip rc,
            cr_geosite = rc_geosite rc, cr_outbound_tag = rc_outbound_tag rc\<rparr>)"

fun compile_rules :: "absl \<Rightarrow> asio_ip \<Rightarrow> rule_config list \<Rightarrow> compiled_rule list \<Rightarrow> compiled_rule list result" where
  "compile_rules L I [] acc = Inr acc"
| "compile_rules L I (rc # rcs) acc = rbind (compile_rule L I rc) (\<lambda>cr. compile_rules L I rcs (acc @ [cr]))"

definition load_geosite :: "'r regex_api \<Rightarrow> geo_files \<Rightarrow> string \<Rightarrow> 'r geosite_matcher option" where
  "load_geosite R fs path =
     (if path = [] then None else Some (snd (geosite_load R path (read_geosite fs path) Map.empty)))"

text \<open>\<open>None\<close> where loading the address database runs into an undefined shift.\<close>

definition load_geoip :: "geo_files \<Rightarrow> string \<Rightarrow> geoip_matcher option option" where
  "load_geoip fs path =
     (if path = [] then Some None
      else map_option Some (snd (geoip_load path (read_geoip fs path) Map.empty)))"

definition compile ::
  "absl \<Rightarrow> asio_ip \<Rightarrow> 'r regex_api \<Rightarrow> geo_files \<Rightarrow> route_config \<Rightarrow> ('r router result) option"
where
  "compile L I R fs cfg =
     (let geosite = load_geosite R fs (geosite_path cfg) in
      case load_geoip fs (geoip_path cfg) of
        None \<Rightarrow> None
      | Some geoip \<Rightarrow>
          Some (rbind (compile_rules L I (route_rules cfg) []) (\<lambda>rules.
            Inr \<lparr>rt_rules = rules, rt_default_outbound = default_outbound cfg,
                 rt_geosite_matcher = geosite, rt_geoip_matcher = geoip\<rparr>)))"

fun pick_rule :: "absl \<Rightarrow> 'r regex_api \<Rightarrow> 'r router \<Rightarrow> session_request \<Rightarrow> compiled_rule list \<Rightarrow> string" where
  "pick_rule L R rt r [] = rt_default_outbound rt"
| "pick_rule L R rt r (rule # rules) =
     (if matches L R rt rule r then cr_outbound_tag rule else pick_rule L R rt r rules)"

definition pick :: "absl \<Rightarrow> 'r regex_api \<Rightarrow> 'r router \<Rightarrow> session_request \<Rightarrow> string" where
  "pick L R rt r = pick_rule L R rt r (rt_rules rt)"

section \<open>Prefix bits\<close>

definition addr_bit :: "bytes \<Rightarrow> nat \<Rightarrow> bool" where
  "addr_bit a i = bit (a ! (i div 8)) (7 - i mod 8)"

lemma u8_eq_bits: "x = (y :: u8) \<longleftrightarrow> (\<forall>j < 8. bit x (7 - j) = bit y (7 - j))"
proof
  assume *: "\<forall>j < 8. bit x (7 - j) = bit y (7 - j)"
  show "x = y"
  proof (rule bit_word_eqI)
    fix n assume "n < LENGTH(8)"
    then show "bit x n = bit y n" using * [rule_format, of "7 - n"] by simp
  qed
qed simp

lemma masked_eq_bits:
  assumes "0 < r" "r < 8"
  shows "(x XOR y) AND push_bit (8 - r) 0xFF = (0 :: u8) \<longleftrightarrow> (\<forall>j < r. bit x (7 - j) = bit y (7 - j))"
proof -
  have ff: "(0xFF :: u8) = mask 8" by (simp add: mask_eq_exp_minus_1)
  define m where "m = push_bit (8 - r) (0xFF :: u8)"
  have bits: "bit m (7 - j) \<longleftrightarrow> j < r" if "j < 8" for j
    unfolding m_def ff using that assms by (auto simp: bit_simps)
  have "(x XOR y) AND m = 0 \<longleftrightarrow> (\<forall>j < 8. bit m (7 - j) \<longrightarrow> bit x (7 - j) = bit y (7 - j))"
    unfolding u8_eq_bits [of "(x XOR y) AND m"] by (auto simp: bit_and_iff bit_xor_iff)
  also have "\<dots> \<longleftrightarrow> (\<forall>j < r. bit x (7 - j) = bit y (7 - j))"
    using bits less_trans [OF _ assms(2)] by blast
  finally show ?thesis by (simp add: m_def)
qed

lemma take_eq_nth: "n \<le> length a \<Longrightarrow> n \<le> length b \<Longrightarrow> take n a = take n b \<longleftrightarrow> (\<forall>k < n. a ! k = b ! k)"
  by (auto simp: list_eq_iff_nth_eq)

lemma bitsEqual_spec:
  assumes "unat p \<le> 8 * length a" "unat p \<le> 8 * length b"
  shows "bitsEqual a b p \<longleftrightarrow> (\<forall>i < unat p. addr_bit a i = addr_bit b i)"
proof -
  let ?f = "unat p div 8" and ?r = "unat p mod 8"
  have split: "(\<forall>i < unat p. P i) \<longleftrightarrow> (\<forall>k < ?f. \<forall>j < 8. P (8 * k + j)) \<and> (\<forall>j < ?r. P (8 * ?f + j))" for P
  proof (intro iffI allI impI conjI)
    fix i assume *: "(\<forall>k < ?f. \<forall>j < 8. P (8 * k + j)) \<and> (\<forall>j < ?r. P (8 * ?f + j))" and "i < unat p"
    then have "i div 8 < ?f \<or> i div 8 = ?f \<and> i mod 8 < ?r"
      by (metis div_le_mono div_mult_mod_eq le_neq_implies_less less_imp_le_nat nat_add_left_cancel_less)
    moreover have "i = 8 * (i div 8) + i mod 8" "i mod 8 < 8" by simp_all
    ultimately show "P i" using * by metis
  next
    fix j assume "\<forall>i < unat p. P i" "j < ?r"
    moreover have "8 * ?f + ?r = unat p" by simp
    ultimately show "P (8 * ?f + j)" by (metis nat_add_left_cancel_less)
  qed (auto simp: less_mult_imp_div_less)
  have byte: "addr_bit x (8 * k + j) = bit (x ! k) (7 - j)" if "j < 8" for x k j
    using that by (simp add: addr_bit_def)
  have full: "take ?f a = take ?f b \<longleftrightarrow> (\<forall>k < ?f. \<forall>j < 8. addr_bit a (8 * k + j) = addr_bit b (8 * k + j))"
    using assms by (subst take_eq_nth) (auto simp: byte u8_eq_bits)
  have rest: "((a ! ?f) XOR (b ! ?f)) AND push_bit (8 - ?r) 0xFF = (0 :: u8) \<longleftrightarrow>
      (\<forall>j < ?r. addr_bit a (8 * ?f + j) = addr_bit b (8 * ?f + j))" if "?r \<noteq> 0"
    using masked_eq_bits [of ?r "a ! ?f" "b ! ?f"] that by (simp add: byte)
  show ?thesis
    unfolding split bitsEqual_def Let_def using full rest by (cases "?r = 0") auto
qed

section \<open>What a rule covers\<close>

text \<open>A suffix that starts with a dot covers every name that ends with it; any other covers the name
  itself and the names below it.\<close>

definition suffix_covers :: "string \<Rightarrow> string \<Rightarrow> bool" where
  "suffix_covers s d \<longleftrightarrow> s \<noteq> [] \<and> (if hd s = CHR ''.'' then suffix s d else label_suffix s d)"

definition range_covers :: "ip_range \<Rightarrow> bytes \<Rightarrow> bool \<Rightarrow> bool" where
  "range_covers r bs v6 \<longleftrightarrow> v6 = ipr_is_v6 r \<and> (\<forall>i < unat (ipr_prefix_len r). addr_bit (ipr_net r) i = addr_bit bs i)"

definition geosite_file_lists :: "'r regex_api \<Rightarrow> geo_files \<Rightarrow> string \<Rightarrow> string \<Rightarrow> string \<Rightarrow> bool" where
  "geosite_file_lists R fs path d code \<longleftrightarrow>
     path \<noteq> [] \<and> (\<exists>entries. read_geosite fs path = Some (Some entries) \<and> geosite_listed R entries d code)"

definition geoip_file_lists :: "geo_files \<Rightarrow> string \<Rightarrow> bytes \<Rightarrow> bool \<Rightarrow> string \<Rightarrow> bool" where
  "geoip_file_lists fs path bs v6 code \<longleftrightarrow>
     path \<noteq> [] \<and> (\<exists>entries. read_geoip fs path = Some (Some entries) \<and> geoip_listed entries bs v6 code)"

definition covers_domain :: "'r regex_api \<Rightarrow> geo_files \<Rightarrow> route_config \<Rightarrow> rule_config \<Rightarrow> string \<Rightarrow> bool" where
  "covers_domain R fs cfg rc d \<longleftrightarrow>
     d \<in> set (rc_domain_exact rc) \<or> (\<exists>s \<in> set (rc_domain_suffix rc). suffix_covers s d)
     \<or> (\<exists>code \<in> set (rc_geosite rc). geosite_file_lists R fs (geosite_path cfg) d code)"

definition covers_ip :: "absl \<Rightarrow> asio_ip \<Rightarrow> geo_files \<Rightarrow> route_config \<Rightarrow> rule_config \<Rightarrow> bytes \<Rightarrow> bool \<Rightarrow> bool" where
  "covers_ip L I fs cfg rc bs v6 \<longleftrightarrow>
     (\<exists>c \<in> set (rc_cidrs rc). \<exists>r. parseCidr L I c = Inr r \<and> range_covers r bs v6)
     \<or> (\<exists>code \<in> set (rc_geoip rc). geoip_file_lists fs (geoip_path cfg) bs v6 code)"

definition no_criteria :: "rule_config \<Rightarrow> bool" where
  "no_criteria rc \<longleftrightarrow> rc_domain_exact rc = [] \<and> rc_domain_suffix rc = [] \<and> rc_geosite rc = []
     \<and> rc_cidrs rc = [] \<and> rc_geoip rc = []"

definition rule_covers ::
  "absl \<Rightarrow> asio_ip \<Rightarrow> 'r regex_api \<Rightarrow> geo_files \<Rightarrow> route_config \<Rightarrow> session_request \<Rightarrow> rule_config \<Rightarrow> bool"
where
  "rule_covers L I R fs cfg r rc \<longleftrightarrow>
     (\<forall>t. rc_inbound_tag rc = Some t \<longrightarrow> t = rq_inbound_tag r)
     \<and> (if no_criteria rc then rc_inbound_tag rc \<noteq> None
        else if isDomain (rq_target r) then covers_domain R fs cfg rc (addr_domain (rq_target r))
        else covers_ip L I fs cfg rc (addr_bytes (rq_target r)) (addr_type (rq_target r) = IPv6))"

lemma nth_before_suffix: "d = p @ s \<Longrightarrow> p \<noteq> [] \<Longrightarrow> d ! (length d - length s - 1) = last p"
  by (simp add: nth_append last_conv_nth)

context absl_laws
begin

lemma endsWithSuffix_spec: "endsWithSuffix L d s \<longleftrightarrow> suffix_covers s d"
proof (cases "s = [] \<or> \<not> suffix s d")
  case True
  then show ?thesis
    by (auto simp: endsWithSuffix_def suffix_covers_def ends_with label_suffix_def dest: suffix_ConsD)
next
  case False
  then obtain p where p: "d = p @ s" and s: "s \<noteq> []" by (auto simp: suffix_def)
  have "endsWithSuffix L d s \<longleftrightarrow> p = [] \<or> hd s = CHR ''.'' \<or> last p = CHR ''.''"
    using p s nth_before_suffix [OF p] by (cases "p = []") (auto simp: endsWithSuffix_def ends_with hd_conv_nth suffix_def)
  moreover have "label_suffix s d \<longleftrightarrow> p = [] \<or> last p = CHR ''.''"
    using p by (cases p rule: rev_cases) (auto simp: label_suffix_def suffix_def)
  ultimately show ?thesis using False s by (auto simp: suffix_covers_def)
qed

end

context asio_laws
begin

lemma parseCidr_wf:
  assumes "parseCidr L I s = Inr r"
  shows "length (ipr_net r) = 16 \<and> unat (ipr_prefix_len r) \<le> 128"
proof -
  obtain host plen where "cidr_host I host plen = Inr r"
    using assms by (auto simp: parseCidr_def split: option.splits)
  then show ?thesis
    using make_address_wf [of host]
    by (auto simp: cidr_host_def Let_def not_less word_le_nat_alt split: option.splits ip_address.splits if_splits)
qed

lemma contains_spec:
  assumes "parseCidr L I s = Inr r" "length bs = 16"
  shows "contains r bs v6 \<longleftrightarrow> range_covers r bs v6"
  using parseCidr_wf [OF assms(1)] assms(2) by (auto simp: contains_def range_covers_def bitsEqual_spec)

end

section \<open>The compiled router\<close>

lemma compile_cidrs_ok:
  "compile_cidrs L I cs acc = Inr rs \<longleftrightarrow> (\<exists>ips. list_all2 (\<lambda>c ip. parseCidr L I c = Inr ip) cs ips \<and> rs = acc @ ips)"
proof (induction cs arbitrary: acc)
  case (Cons c cs)
  show ?case by (cases "parseCidr L I c") (auto simp: Cons.IH list_all2_Cons1)
qed auto

lemma compile_rules_ok:
  "compile_rules L I rcs acc = Inr crs \<longleftrightarrow> (\<exists>cs. list_all2 (\<lambda>rc cr. compile_rule L I rc = Inr cr) rcs cs \<and> crs = acc @ cs)"
proof (induction rcs arbitrary: acc)
  case (Cons rc rcs)
  show ?case by (cases "compile_rule L I rc") (auto simp: Cons.IH list_all2_Cons1)
qed auto

lemma compile_ok:
  assumes "compile L I R fs cfg = Some (Inr rt)"
  shows "list_all2 (\<lambda>rc cr. compile_rule L I rc = Inr cr) (route_rules cfg) (rt_rules rt)"
    and "rt_default_outbound rt = default_outbound cfg"
    and "rt_geosite_matcher rt = load_geosite R fs (geosite_path cfg)"
    and "load_geoip fs (geoip_path cfg) = Some (rt_geoip_matcher rt)"
  using assms
  by (auto simp: compile_def Let_def rbind_Inr compile_rules_ok split: option.splits)

lemma load_geosite_spec:
  "(\<exists>m. load_geosite R fs path = Some m \<and> geosite_match R m d code) \<longleftrightarrow> geosite_file_lists R fs path d code"
proof -
  have "geosite_match R (snd (geosite_load R path dat Map.empty)) d code \<longleftrightarrow>
      (\<exists>entries. dat = Some (Some entries) \<and> geosite_listed R entries d code)" for dat
    by (auto simp: geosite_load_def geosite_match_has load_sites_spec split: option.splits)
  then show ?thesis by (simp add: load_geosite_def geosite_file_lists_def)
qed

lemma load_geoip_spec:
  assumes "load_geoip fs path = Some g"
  shows "(\<exists>m. g = Some m \<and> geoip_match m bs v6 code) \<longleftrightarrow> geoip_file_lists fs path bs v6 code"
proof (cases "path = []")
  case False
  then obtain m where g: "g = Some m" and m: "snd (geoip_load path (read_geoip fs path) Map.empty) = Some m"
    using assms by (auto simp: load_geoip_def)
  show ?thesis
  proof (cases "\<exists>entries. read_geoip fs path = Some (Some entries)")
    case True
    then obtain entries where e: "read_geoip fs path = Some (Some entries)" ..
    with m have "geoip_load path (Some (Some entries)) Map.empty = (fst (geoip_load path (Some (Some entries)) Map.empty), Some m)"
      by (simp add: prod_eq_iff)
    from geoip_loaded [OF this] show ?thesis using g e False by (simp add: geoip_file_lists_def)
  next
    case none: False
    then have "m = Map.empty" using m by (auto simp: geoip_load_def split: option.splits)
    then show ?thesis using g none by (auto simp: geoip_match_def geoip_file_lists_def)
  qed
qed (use assms in \<open>auto simp: load_geoip_def geoip_file_lists_def\<close>)

lemma matches_spec:
  assumes absl: "absl_laws L" and asio: "asio_laws I"
    and rule: "compile_rule L I rc = Inr cr"
    and gs: "rt_geosite_matcher rt = load_geosite R fs (geosite_path cfg)"
    and gi: "load_geoip fs (geoip_path cfg) = Some (rt_geoip_matcher rt)"
    and len: "length (addr_bytes (rq_target r)) = 16"
  shows "matches L R rt cr r \<longleftrightarrow> rule_covers L I R fs cfg r rc"
proof -
  let ?bs = "addr_bytes (rq_target r)"
  obtain ips where ips: "list_all2 (\<lambda>c ip. parseCidr L I c = Inr ip) (rc_cidrs rc) ips"
    and cr: "cr = \<lparr>cr_inbound_tag = rc_inbound_tag rc, cr_domain_exact = set (rc_domain_exact rc),
            cr_domain_suffix = rc_domain_suffix rc, cr_cidrs = ips, cr_geoip = rc_geoip rc,
            cr_geosite = rc_geosite rc, cr_outbound_tag = rc_outbound_tag rc\<rparr>"
    using rule by (auto simp: compile_rule_def rbind_Inr compile_cidrs_ok)
  have "list_ex (\<lambda>x. contains x ?bs v6) ips \<longleftrightarrow>
      (\<exists>c \<in> set (rc_cidrs rc). \<exists>rg. parseCidr L I c = Inr rg \<and> range_covers rg ?bs v6)" for v6
    using ips
    by (induction rule: list_all2_induct) (auto simp: asio_laws.contains_spec [OF asio _ len])
  moreover have "(case rt_geoip_matcher rt of None \<Rightarrow> False | Some m \<Rightarrow> list_ex (geoip_match m bs v6) codes) \<longleftrightarrow>
      (\<exists>code \<in> set codes. geoip_file_lists fs (geoip_path cfg) bs v6 code)" for bs v6 codes
    using load_geoip_spec [OF gi, of bs v6] by (auto simp: list_ex_iff split: option.splits)
  ultimately have ip: "matches_ip rt cr ?bs v6 \<longleftrightarrow> covers_ip L I fs cfg rc ?bs v6" for v6
    unfolding matches_ip_def covers_ip_def cr by auto
  have "(case rt_geosite_matcher rt of None \<Rightarrow> False | Some m \<Rightarrow> list_ex (geosite_match R m d) codes) \<longleftrightarrow>
      (\<exists>code \<in> set codes. geosite_file_lists R fs (geosite_path cfg) d code)" for d codes
    using load_geosite_spec [of R fs "geosite_path cfg" d] gs by (auto simp: list_ex_iff split: option.splits)
  then have dom: "matches_domain L R rt cr d \<longleftrightarrow> covers_domain R fs cfg rc d" for d
    by (auto simp: matches_domain_def covers_domain_def cr list_ex_iff absl_laws.endsWithSuffix_spec [OF absl])
  have len0: "ips = [] \<longleftrightarrow> rc_cidrs rc = []" using ips by (auto simp: list_all2_Nil list_all2_Nil2)
  have no_dom: "\<not> covers_domain R fs cfg rc d"
    if "rc_domain_exact rc = []" "rc_domain_suffix rc = []" "rc_geosite rc = []" for d
    using that by (simp add: covers_domain_def)
  have no_ip: "\<not> covers_ip L I fs cfg rc bs v6" if "rc_cidrs rc = []" "rc_geoip rc = []" for bs v6
    using that by (simp add: covers_ip_def)
  show ?thesis
    unfolding matches_def rule_covers_def Let_def dom ip
    using no_dom no_ip len0
    by (auto simp: cr no_criteria_def isDomain_def isIP_def)
qed

lemma pick_rule_find:
  assumes "list_all2 (\<lambda>rc cr. cr_outbound_tag cr = rc_outbound_tag rc \<and> (matches L R rt cr r \<longleftrightarrow> P rc)) rcs crs"
  shows "pick_rule L R rt r crs = (case find P rcs of None \<Rightarrow> rt_default_outbound rt | Some rc \<Rightarrow> rc_outbound_tag rc)"
  using assms by (induction rule: list_all2_induct) auto

lemma route_first:
  assumes "absl_laws L" and "asio_laws I"
    and "compile L I R fs cfg = Some (Inr rt)" and "length (addr_bytes (rq_target r)) = 16"
  shows "pick L R rt r =
    (case find (rule_covers L I R fs cfg r) (route_rules cfg) of
       None \<Rightarrow> default_outbound cfg
     | Some rc \<Rightarrow> rc_outbound_tag rc)"
proof -
  note ok = compile_ok [OF assms(3)]
  have "cr_outbound_tag cr = rc_outbound_tag rc \<and> (matches L R rt cr r \<longleftrightarrow> rule_covers L I R fs cfg r rc)"
    if "compile_rule L I rc = Inr cr" for rc cr
    using matches_spec [OF assms(1,2) that ok(3,4) assms(4)] that by (auto simp: compile_rule_def rbind_Inr)
  then have "list_all2 (\<lambda>rc cr. cr_outbound_tag cr = rc_outbound_tag rc \<and>
      (matches L R rt cr r \<longleftrightarrow> rule_covers L I R fs cfg r rc)) (route_rules cfg) (rt_rules rt)"
    using ok(1) by (rule list_all2_mono [rotated])
  from pick_rule_find [OF this] show ?thesis unfolding pick_def ok(2) .
qed

text \<open>C12. The router picks the outbound of the first rule, in the order of the configuration, that covers
  the request, and the default outbound when there is none. A rule covers a request when its
  inbound tag (if given) is the request's and some criterion holds: an exact name, a name suffix,
  a listed site; an address block that agrees with the target on its prefix bits, a listed
  country. A rule with no criteria covers by its inbound tag alone, and names are never matched by
  address criteria nor addresses by name criteria.\<close>

theorem route_first_match:
  assumes "absl_laws L" and "asio_laws I"
    and "compile L I R fs cfg = Some (Inr rt)" and "length (addr_bytes (rq_target r)) = 16"
  shows "pick L R rt r =
    (case find (rule_covers L I R fs cfg r) (route_rules cfg) of
       None \<Rightarrow> default_outbound cfg
     | Some rc \<Rightarrow> rc_outbound_tag rc)"
  using assms by (rule route_first)

definition no_regex :: "unit regex_api" where
  "no_regex = \<lparr>regex_compile = (\<lambda>_. None), regex_search = (\<lambda>_ _. False)\<rparr>"

definition example_files :: geo_files where
  "example_files =
     \<lparr>read_geosite = (\<lambda>_. Some (Some [\<lparr>geosite_country_code = ''cn'',
        geosite_domain = [\<lparr>dm_type = Domain_Type_RootDomain, dm_value = ''qq.com''\<rparr>]\<rparr>])),
      read_geoip = (\<lambda>_. None)\<rparr>"

definition example_route :: route_config where
  "example_route =
     \<lparr>geoip_path = [], geosite_path = ''geosite.dat'',
      route_rules =
        [empty_rule\<lparr>rc_domain_suffix := [''.cn''], rc_geosite := [''cn''], rc_outbound_tag := ''direct''\<rparr>,
         empty_rule\<lparr>rc_cidrs := [''10.0.0.0/8''], rc_outbound_tag := ''lan''\<rparr>],
      default_outbound = ''us''\<rparr>"

definition request_to :: "address \<Rightarrow> session_request" where
  "request_to a = \<lparr>rq_inbound_tag = ''in'', rq_inbound_protocol = ''socks5'', rq_protocol = TCP, rq_target = a\<rparr>"

lemma example_cidr:
  "parseCidr absl_ref asio_ref ''10.0.0.0/8'' =
     Inr \<lparr>ipr_net = [10, 0, 0, 0, 0, 0, 0, 0, 0, 0, 0, 0, 0, 0, 0, 0], ipr_prefix_len = 8, ipr_is_v6 = False\<rparr>"
  by code_simp

lemma example_compiles: "\<exists>rt. compile absl_ref asio_ref no_regex example_files example_route = Some (Inr rt)"
  by (simp add: compile_def example_route_def load_geoip_def compile_rule_def example_cidr empty_rule_def)

lemma example_names:
  "label_suffix ''qq.com'' ''www.qq.com''" "\<not> label_suffix ''qq.com'' ''aqq.com''"
  "suffix ''.cn'' ''weibo.cn''" "\<not> suffix ''.cn'' ''www.qq.com''" "\<not> suffix ''.cn'' ''aqq.com''"
  by code_simp+

lemma lower_of_cn: "lower ''cn'' = ''cn''"
  by code_simp

lemmas example_covers = rule_covers_def example_route_def empty_rule_def no_criteria_def request_to_def
  isDomain_def covers_domain_def covers_ip_def suffix_covers_def geosite_file_lists_def geosite_listed_def
  domain_has_def example_files_def example_names lower_of_cn example_cidr range_covers_def

theorem route_first_match_witness:
  "\<exists>rt. compile absl_ref asio_ref no_regex example_files example_route = Some (Inr rt)
    \<and> pick absl_ref no_regex rt (request_to (fromDomain ''weibo.cn'' 80)) = ''direct''
    \<and> pick absl_ref no_regex rt (request_to (fromDomain ''www.qq.com'' 80)) = ''direct''
    \<and> pick absl_ref no_regex rt (request_to (fromDomain ''aqq.com'' 80)) = ''us''
    \<and> pick absl_ref no_regex rt (request_to (fromIPv4 [10, 1, 2, 3] 80)) = ''lan''"
proof -
  obtain rt where rt: "compile absl_ref asio_ref no_regex example_files example_route = Some (Inr rt)"
    using example_compiles by blast
  note pick = route_first_match [OF absl_ref_laws asio_ref_laws rt]
  have bits: "addr_bit [10, 0, 0, 0, 0, 0, 0, 0, 0, 0, 0, 0, 0, 0, 0, 0] i = addr_bit (addr_bytes (fromIPv4 [10, 1, 2, 3] 80)) i"
    if "i < 8" for i
    using that by (simp add: addr_bit_def fromIPv4_def no_address_def)
  show ?thesis
  proof (intro exI [of _ rt] conjI)
    show "pick absl_ref no_regex rt (request_to (fromDomain ''weibo.cn'' 80)) = ''direct''"
      by (subst pick) (simp_all add: example_covers)
    show "pick absl_ref no_regex rt (request_to (fromDomain ''www.qq.com'' 80)) = ''direct''"
      by (subst pick) (simp_all add: example_covers)
    show "pick absl_ref no_regex rt (request_to (fromDomain ''aqq.com'' 80)) = ''us''"
      by (subst pick) (simp_all add: example_covers)
    show "pick absl_ref no_regex rt (request_to (fromIPv4 [10, 1, 2, 3] 80)) = ''lan''"
      by (subst pick) (simp_all add: example_covers bits)
  qed (rule rt)
qed

section \<open>Address blocks as text\<close>

definition is_v6_address :: "ip_address \<Rightarrow> bool" where
  "is_v6_address a = (case a of IpV4 _ \<Rightarrow> False | IpV6 _ \<Rightarrow> True)"

lemma addr_bit_append: "i < 8 * length a \<Longrightarrow> addr_bit (a @ b) i = addr_bit a i"
  by (simp add: addr_bit_def nth_append less_mult_imp_div_less mult.commute)

lemma cidr_host_value:
  assumes "asio_laws I" and "make_address I host = Some a" and "p \<le> 8 * length (ip_bytes a)"
  shows "cidr_host I host (int p) =
    Inr \<lparr>ipr_net = ip_bytes a @ drop (length (ip_bytes a)) (replicate 16 0), ipr_prefix_len = of_nat p, ipr_is_v6 = is_v6_address a\<rparr>"
  using asio_laws.make_address_wf [OF assms(1,2)] assms(2,3)
  by (cases a) (auto simp: cidr_host_def Let_def is_v6_address_def word_less_nat_alt unat_of_nat)

text \<open>C29. An address block written as an address, a slash and a prefix length covers exactly the
  addresses of the same family whose first bits, as many as the prefix says, are those of the
  address; for every prefix length from zero to the full width, in both families.\<close>

theorem cidr_text_block:
  assumes "absl_laws L" and "asio_laws I" and "CHR ''/'' \<notin> set host" and "make_address I host = Some a"
    and "p \<le> 8 * length (ip_bytes a)" and "length bs = 16"
  shows "\<exists>r. parseCidr L I (host @ ''/'' @ dec p) = Inr r
    \<and> (contains r bs v6 \<longleftrightarrow> v6 = is_v6_address a \<and> (\<forall>i < p. addr_bit (ip_bytes a) i = addr_bit bs i))"
proof -
  let ?r = "\<lparr>ipr_net = ip_bytes a @ drop (length (ip_bytes a)) (replicate 16 0), ipr_prefix_len = of_nat p,
    ipr_is_v6 = is_v6_address a\<rparr> :: ip_range"
  have small: "length (ip_bytes a) \<le> 16"
    using asio_laws.make_address_wf [OF assms(2,4)] by (cases a) auto
  then have p: "p \<le> 128" using assms(5) by simp
  have "parseCidr L I (host @ ''/'' @ dec p) = cidr_host I host (int p)"
    using absl_laws.atoi32_dec [OF assms(1), of p] p find_char_append [OF assms(3), of "dec p"]
    by (simp add: parseCidr_def)
  then have r: "parseCidr L I (host @ ''/'' @ dec p) = Inr ?r"
    using cidr_host_value [OF assms(2,4,5)] by simp
  have "contains ?r bs v6 \<longleftrightarrow> range_covers ?r bs v6"
    by (rule asio_laws.contains_spec [OF assms(2) r assms(6)])
  also have "\<dots> \<longleftrightarrow> v6 = is_v6_address a \<and> (\<forall>i < p. addr_bit (ip_bytes a) i = addr_bit bs i)"
    using p assms(5) by (auto simp: range_covers_def unat_of_nat addr_bit_append)
  finally show ?thesis using r by blast
qed

theorem cidr_text_block_witness:
  "\<exists>r. parseCidr absl_ref asio_ref (''10.1.0.0'' @ ''/'' @ dec 12) = Inr r
    \<and> (contains r [10, 9, 3, 3, 0, 0, 0, 0, 0, 0, 0, 0, 0, 0, 0, 0] False \<longleftrightarrow>
        (\<forall>i < 12. addr_bit [10, 1, 0, 0] i = addr_bit [10, 9, 3, 3, 0, 0, 0, 0, 0, 0, 0, 0, 0, 0, 0, 0] i))"
proof -
  have "make_address asio_ref ''10.1.0.0'' = Some (IpV4 [10, 1, 0, 0])" by code_simp
  from cidr_text_block [OF absl_ref_laws asio_ref_laws _ this, of 12
      "[10, 9, 3, 3, 0, 0, 0, 0, 0, 0, 0, 0, 0, 0, 0, 0]" False]
  show ?thesis by (simp add: is_v6_address_def)
qed

text \<open>The prefix is truncated to eight bits before it is compared with the width, and a negative one
  is taken as absent: 264 is read as 8, and -5 as 32.\<close>

lemma cidr_prefix_truncated:
  assumes "make_address I host = Some (IpV4 b)"
  shows "cidr_host I host 264 = cidr_host I host 8" and "cidr_host I host (- 5) = cidr_host I host 32"
  using assms by (simp_all add: cidr_host_def Let_def)

end
