(* ===== verification/Shine_Outbound.thy ===== *)
theory Shine_Outbound
  imports Link Endpoints Router
begin

text \<open>
  Model of \<^verbatim>\<open>outbound/shine_outbound.cpp\<close>: the outbound that carries requests as sessions over a pool of
  links to one server. Links are shared objects, so they live in a store and the pool holds
  positions in it. \<^verbatim>\<open>pickOrMakeLink\<close> takes the lock twice with a connection attempt in between; the two
  critical sections are separate definitions, and the lemmas hold for every interleaving of them
  with other requests, with \<^verbatim>\<open>stop\<close> and with everything a link does.
\<close>

record 'q shine_outbound =
  so_cfg :: outbound_config
  so_pool :: "nat list"
  so_rr :: u64
  so_stopping :: bool
  so_links :: "'q link list"

definition new_shine_outbound :: "outbound_config \<Rightarrow> 'q shine_outbound" where
  "new_shine_outbound cfg =
     \<lparr>so_cfg = cfg, so_pool = [], so_rr = 0, so_stopping = False, so_links = []\<rparr>"

definition client_options :: "outbound_config \<Rightarrow> link_options" where
  "client_options cfg =
     default_link_options
       \<lparr>opt_peer_label := out_server cfg, opt_password := out_password cfg,
        opt_init_window := out_init_window cfg, opt_ping_interval := out_ping_interval cfg,
        opt_pong_timeout := out_pong_timeout cfg, opt_handshake_timeout := out_handshake_timeout cfg,
        opt_is_server := False\<rparr>"

text \<open>\<^verbatim>\<open>dialNewLink\<close>: the position of the new link, or nothing.\<close>

definition dialNewLink ::
  "absl \<Rightarrow> asio_ip \<Rightarrow> net \<Rightarrow> 'q chan_api \<Rightarrow> u64 \<Rightarrow> 'q shine_outbound \<Rightarrow> nat option \<times> 'q shine_outbound"
where
  "dialNewLink L I N C now ob =
     (case dial_server L I N (so_cfg ob) of
        Inl e \<Rightarrow> (None, ob)
      | Inr ep \<Rightarrow>
          let link = link_start now False (new_link C (client_options (so_cfg ob)))
          in (Some (length (so_links ob)), ob\<lparr>so_links := so_links ob @ [link]\<rparr>))"

text \<open>The first critical section of \<^verbatim>\<open>pickOrMakeLink\<close>: drop closed links, take the next in turn.\<close>

definition pickLink :: "'q shine_outbound \<Rightarrow> nat option \<times> 'q shine_outbound" where
  "pickLink ob =
     (let pool = filter (\<lambda>ref. \<not> lk_closed (so_links ob ! ref)) (so_pool ob) in
      if pool \<noteq> [] then
        (Some (pool ! (unat (so_rr ob) mod length pool)), ob\<lparr>so_pool := pool, so_rr := so_rr ob + 1\<rparr>)
      else (None, ob\<lparr>so_pool := pool\<rparr>))"

text \<open>The second: keep the new link if there is room.\<close>

definition addLink :: "nat \<Rightarrow> 'q shine_outbound \<Rightarrow> 'q shine_outbound" where
  "addLink ref ob =
     (if length (so_pool ob) < unat (out_pool_size (so_cfg ob)) then ob\<lparr>so_pool := so_pool ob @ [ref]\<rparr> else ob)"

definition pickOrMakeLink ::
  "absl \<Rightarrow> asio_ip \<Rightarrow> net \<Rightarrow> 'q chan_api \<Rightarrow> u64 \<Rightarrow> 'q shine_outbound \<Rightarrow> nat option \<times> 'q shine_outbound"
where
  "pickOrMakeLink L I N C now ob =
     (case pickLink ob of
        (Some ref, ob) \<Rightarrow> (Some ref, ob)
      | (None, ob) \<Rightarrow>
          (case dialNewLink L I N C now ob of
             (None, ob) \<Rightarrow> (None, ob)
           | (Some ref, ob) \<Rightarrow> (Some ref, addLink ref ob)))"

text \<open>\<^verbatim>\<open>handle\<close> on the link it got: wait for the handshake, open the session. \<open>sid\<close> is the number drawn.\<close>

definition shine_open ::
  "'q chan_api \<Rightarrow> absl \<Rightarrow> u64 \<Rightarrow> session_request \<Rightarrow> 'q link
   \<Rightarrow> (nat \<times> 'q link \<times> link_action list) result outcome"
where
  "shine_open C L sid req l =
     (case waitHandshake C l of
        None \<Rightarrow> Waiting
      | Some (ok, l) \<Rightarrow>
          if \<not> ok then Done (Inl (UnavailableError ''shine link handshake failed''))
          else Done (openSession C L sid (rq_target req) (rq_protocol req = UDP) l))"

definition shine_handle_link ::
  "absl \<Rightarrow> asio_ip \<Rightarrow> net \<Rightarrow> 'q chan_api \<Rightarrow> u64 \<Rightarrow> 'q shine_outbound \<Rightarrow> nat result \<times> 'q shine_outbound"
where
  "shine_handle_link L I N C now ob =
     (if so_stopping ob then (Inl (UnavailableError ''stopped''), ob)
      else
        case pickOrMakeLink L I N C now ob of
          (None, ob) \<Rightarrow> (Inl (UnavailableError ''no live link''), ob)
        | (Some ref, ob) \<Rightarrow> (Inr ref, ob))"

text \<open>\<^verbatim>\<open>for (auto& l : pool_) l->closeNow();\<close>\<close>

fun close_all :: "nat list \<Rightarrow> 'q link list \<Rightarrow> 'q link list" where
  "close_all [] ls = ls"
| "close_all (ref # refs) ls = close_all refs (ls[ref := fst (closeNow (ls ! ref))])"

definition shine_stop_outbound :: "'q shine_outbound \<Rightarrow> 'q shine_outbound" where
  "shine_stop_outbound ob =
     ob\<lparr>so_stopping := True, so_pool := [],
        so_links := close_all (so_pool ob) (so_links ob)\<rparr>"

section \<open>Datagrams\<close>

text \<open>The interface \<^verbatim>\<open>IDatagramStream\<close>, and one step of \<^verbatim>\<open>read_client\<close> (from the client's stream to the
  session) or \<^verbatim>\<open>read_remote\<close> (the other way): a datagram is passed on, or the other side is closed.\<close>

record 's dgram_ops =
  dg_receiveFrom :: "'s \<Rightarrow> ((string \<times> address) result \<times> 's) outcome"
  dg_sendTo :: "bytes \<Rightarrow> address \<Rightarrow> 's \<Rightarrow> unit result \<times> 's"
  dg_close :: "'s \<Rightarrow> 's"

definition pump_step ::
  "'a dgram_ops \<Rightarrow> 'b dgram_ops \<Rightarrow> bool \<times> 'a \<times> 'b \<Rightarrow> (bool \<times> 'a \<times> 'b) option"
where
  "pump_step A B st =
     (case st of (running, a, b) \<Rightarrow>
        if \<not> running then None
        else
          case dg_receiveFrom A a of
            Done (Inl e, a) \<Rightarrow> Some (False, a, dg_close B b)
          | Done (Inr (data, target), a) \<Rightarrow>
              (case dg_sendTo B (as_bytes data) target b of
                 (Inl e, b) \<Rightarrow> Some (False, a, dg_close B b)
               | (Inr u, b) \<Rightarrow> Some (True, a, b))
          | _ \<Rightarrow> None)"

text \<open>\<^verbatim>\<open>handle\<close> once the session is open: which loops carry the request. For UDP a client stream is needed.\<close>

datatype shine_service = ServeDatagrams | ServeStream

definition shine_serve :: "session_request \<Rightarrow> bool \<Rightarrow> shine_service result" where
  "shine_serve req has_client_datagram =
     (if rq_protocol req = UDP then
        if \<not> has_client_datagram then Inl (InvalidArgumentError ''no client udp stream'') else Inr ServeDatagrams
      else Inr ServeStream)"

section \<open>Interleavings\<close>

text \<open>Requests in flight: \<open>dialled\<close> holds the links that were made and not yet offered to the pool.\<close>

inductive pool_step ::
  "absl \<Rightarrow> asio_ip \<Rightarrow> 'q chan_api \<Rightarrow> 'q shine_outbound \<times> nat list \<Rightarrow> 'q shine_outbound \<times> nat list \<Rightarrow> bool"
  for L I C
where
  pool_pick: "pickLink ob = (r, ob') \<Longrightarrow> pool_step L I C (ob, dialled) (ob', dialled)"
| pool_dial: "dialNewLink L I N C now ob = (Some ref, ob') \<Longrightarrow> pool_step L I C (ob, dialled) (ob', ref # dialled)"
| pool_add: "ref \<in> set dialled \<Longrightarrow> pool_step L I C (ob, dialled) (addLink ref ob, remove1 ref dialled)"
| pool_link: "ref < length (so_links ob) \<Longrightarrow> link_step C L (so_links ob ! ref) l \<Longrightarrow>
    pool_step L I C (ob, dialled) (ob\<lparr>so_links := (so_links ob)[ref := l]\<rparr>, dialled)"
| pool_stop: "pool_step L I C (ob, dialled) (shine_stop_outbound ob, dialled)"

definition pool_inv :: "outbound_config \<Rightarrow> 'q shine_outbound \<times> nat list \<Rightarrow> bool" where
  "pool_inv cfg st \<longleftrightarrow>
     (case st of (ob, dialled) \<Rightarrow>
        so_cfg ob = cfg \<and> length (so_pool ob) \<le> unat (out_pool_size cfg) \<and>
        distinct (so_pool ob @ dialled) \<and> (\<forall>ref \<in> set (so_pool ob @ dialled). ref < length (so_links ob)))"

lemma length_close_all [simp]: "length (close_all refs ls) = length ls"
  by (induction refs ls rule: close_all.induct) simp_all

lemma close_all_closed:
  "ref < length ls \<Longrightarrow> ref \<in> set refs \<or> lk_closed (ls ! ref) \<Longrightarrow> lk_closed (close_all refs ls ! ref)"
proof (induction refs ls rule: close_all.induct)
  case (2 r refs ls)
  have "ref \<in> set refs \<or> lk_closed (ls[r := fst (closeNow (ls ! r))] ! ref)"
    using "2.prems" by (cases "r = ref") (auto simp: closeNow_def)
  with 2 show ?case by simp
qed simp

lemma pool_step_inv:
  assumes "pool_step L I C st st'" and "pool_inv cfg st" shows "pool_inv cfg st'"
  using assms
proof (induction rule: pool_step.induct)
  case (pool_pick ob r ob' dialled)
  then show ?case
    by (auto simp: pool_inv_def pickLink_def Let_def intro: le_trans [OF length_filter_le] split: if_splits)
next
  case (pool_dial N now ob ref ob' dialled)
  then show ?case
    by (auto simp: pool_inv_def dialNewLink_def Let_def less_Suc_eq split: sum.splits)
next
  case (pool_add ref dialled ob)
  then show ?case
    by (auto simp: pool_inv_def addLink_def distinct_remove1 dest: notin_set_remove1 split: if_splits)
next
  case (pool_link ref ob l dialled)
  then show ?case by (simp add: pool_inv_def)
next
  case (pool_stop ob dialled)
  then show ?case by (simp add: pool_inv_def shine_stop_outbound_def)
qed

lemma pool_reachable:
  assumes "(pool_step L I C)\<^sup>*\<^sup>* (new_shine_outbound cfg, []) st" shows "pool_inv cfg st"
  using assms
proof (induction rule: rtranclp_induct)
  case base
  then show ?case by (simp add: pool_inv_def new_shine_outbound_def)
next
  case (step y z)
  then show ?case using pool_step_inv by blast
qed

section \<open>Properties of the pool\<close>

lemma pickLink_Some:
  assumes "pickLink ob = (Some ref, ob')" shows "ref \<in> set (so_pool ob) \<and> \<not> lk_closed (so_links ob ! ref)"
proof -
  let ?pool = "filter (\<lambda>ref. \<not> lk_closed (so_links ob ! ref)) (so_pool ob)"
  have "?pool \<noteq> []" "ref = ?pool ! (unat (so_rr ob) mod length ?pool)"
    using assms by (auto simp: pickLink_def Let_def split: if_splits)
  then have "ref \<in> set ?pool" using nth_mem [of "unat (so_rr ob) mod length ?pool" ?pool] by simp
  then show ?thesis by simp
qed

text \<open>C26. The pool is sound under every interleaving of requests, link events and \<^verbatim>\<open>stop\<close>: it never holds
  more links than configured, no link twice and only existing ones; a request is given a link of
  the pool that is open; and it is given none, and so dials, only if every link of the pool is closed.\<close>

theorem shine_pool_sound:
  assumes "(pool_step L I C)\<^sup>*\<^sup>* (new_shine_outbound cfg, []) (ob, dialled)"
  shows "length (so_pool ob) \<le> unat (out_pool_size cfg) \<and> distinct (so_pool ob)
    \<and> (\<forall>ref \<in> set (so_pool ob). ref < length (so_links ob))
    \<and> (case fst (pickLink ob) of
         Some ref \<Rightarrow> ref \<in> set (so_pool ob) \<and> \<not> lk_closed (so_links ob ! ref)
       | None \<Rightarrow> \<forall>ref \<in> set (so_pool ob). lk_closed (so_links ob ! ref))"
proof -
  have "fst (pickLink ob) = None \<Longrightarrow> \<forall>ref \<in> set (so_pool ob). lk_closed (so_links ob ! ref)"
    by (auto simp: pickLink_def Let_def filter_empty_conv split: if_splits)
  moreover have "fst (pickLink ob) = Some ref \<Longrightarrow> ref \<in> set (so_pool ob) \<and> \<not> lk_closed (so_links ob ! ref)" for ref
    using pickLink_Some [of ob ref "snd (pickLink ob)"] by (metis prod.collapse)
  ultimately show ?thesis
    using pool_reachable [OF assms] by (auto simp: pool_inv_def split: option.split)
qed

definition one_server :: net where
  "one_server = \<lparr>net_resolve = (\<lambda>_ _. Inl ''none''), net_connect = (\<lambda>_. None)\<rparr>"

definition shine_cfg :: outbound_config where
  "shine_cfg = default_outbound_config\<lparr>out_server := toString absl_ref asio_ref (fromIPv4 [10, 0, 0, 1] 8443)\<rparr>"

lemma shine_dial:
  "dialNewLink absl_ref asio_ref one_server list_chan_api 0 (new_shine_outbound shine_cfg) =
     (Some 0, (new_shine_outbound shine_cfg)\<lparr>so_links := [link_start 0 False (new_link list_chan_api (client_options shine_cfg))]\<rparr>)"
proof -
  have "parseHostPort absl_ref asio_ref (out_server shine_cfg) = Inr (fromIPv4 [10, 0, 0, 1] 8443)"
    unfolding shine_cfg_def
    using text_roundtrip [OF absl_ref_laws asio_ref_laws, of "fromIPv4 [10, 0, 0, 1] 8443"] by (simp add: isDomain_def)
  then show ?thesis
    by (simp add: dialNewLink_def dial_server_def connect_to_def one_server_def resolveOne_def
          new_shine_outbound_def)
qed

theorem shine_pool_sound_witness:
  "\<exists>ob. (pool_step absl_ref asio_ref list_chan_api)\<^sup>*\<^sup>* (new_shine_outbound shine_cfg, []) (ob, [])
     \<and> so_pool ob = [0] \<and> fst (pickLink ob) = Some 0 \<and> \<not> lk_closed (so_links ob ! 0)"
proof -
  let ?ob = "(new_shine_outbound shine_cfg)\<lparr>so_links := [link_start 0 False (new_link list_chan_api (client_options shine_cfg))]\<rparr>"
  have "pool_step absl_ref asio_ref list_chan_api (new_shine_outbound shine_cfg, []) (?ob, [0])"
    using shine_dial by (rule pool_dial)
  moreover have "pool_step absl_ref asio_ref list_chan_api (?ob, [0]) (addLink 0 ?ob, remove1 0 [0])"
    by (rule pool_add) simp
  ultimately have run: "(pool_step absl_ref asio_ref list_chan_api)\<^sup>*\<^sup>* (new_shine_outbound shine_cfg, []) (addLink 0 ?ob, [])"
    by (simp add: rtranclp.rtrancl_into_rtrancl)
  have pool: "so_pool (addLink 0 ?ob) = [0]"
    by (simp add: addLink_def new_shine_outbound_def shine_cfg_def default_outbound_config_def)
  have "fst (pickLink (addLink 0 ?ob)) = Some 0"
    by (simp add: pickLink_def pool Let_def) (simp add: addLink_def new_shine_outbound_def link_start_def new_link_def)
  moreover from this shine_pool_sound [OF run] have "\<not> lk_closed (so_links (addLink 0 ?ob) ! 0)" by simp
  ultimately show ?thesis using run pool by blast
qed

text \<open>The links a pool holds are closed when it is stopped, but a link that was being dialled meanwhile
  is added to the pool of a stopped outbound and stays open.\<close>

lemma stop_closes_pool:
  assumes "pool_inv cfg (ob, dialled)" and "ref \<in> set (so_pool ob)"
  shows "lk_closed (so_links (shine_stop_outbound ob) ! ref)"
  using assms close_all_closed [of ref "so_links ob" "so_pool ob"] by (simp add: pool_inv_def shine_stop_outbound_def)

lemma added_after_stop:
  assumes "0 < out_pool_size (so_cfg ob)"
  shows "so_stopping (addLink ref (shine_stop_outbound ob)) \<and> so_pool (addLink ref (shine_stop_outbound ob)) = [ref]"
  using assms by (simp add: addLink_def shine_stop_outbound_def word_less_nat_alt)

text \<open>While one link of the pool is open every request is given a link of the pool, so the pool grows
  only while it is empty (or by requests that dial at the same time).\<close>

lemma pool_not_grown:
  assumes "ref \<in> set (so_pool ob)" and "\<not> lk_closed (so_links ob ! ref)"
  shows "so_links (snd (pickOrMakeLink L I N C now ob)) = so_links ob
    \<and> set (so_pool (snd (pickOrMakeLink L I N C now ob))) \<subseteq> set (so_pool ob)"
proof -
  have "filter (\<lambda>ref. \<not> lk_closed (so_links ob ! ref)) (so_pool ob) \<noteq> []"
    using assms by (auto simp: filter_empty_conv)
  then show ?thesis by (auto simp: pickOrMakeLink_def pickLink_def Let_def)
qed

text \<open>A pump passes every datagram on as it came.\<close>

lemma pump_passes_on:
  assumes "dg_receiveFrom A a = Done (Inr (data, target), a')" and "dg_sendTo B (as_bytes data) target b = (Inr u, b')"
  shows "pump_step A B (True, a, b) = Some (True, a', b')"
  using assms by (simp add: pump_step_def)

end
