(* ===== verification/Conversation.thy ===== *)
theory Conversation
  imports Shine_Prelude
begin

text \<open>
  Conversations over a TCP connection: the coroutines that talk a handshake protocol on a socket
  (\<^verbatim>\<open>inbound/socks5_inbound.cpp\<close>, \<^verbatim>\<open>inbound/http_connect_inbound.cpp\<close> and the two client sides under
  \<^verbatim>\<open>outbound/\<close>) as trees of what they read and write. \<open>exec\<close> runs a conversation against a peer whose
  bytes are known; \<open>talk\<close> connects two conversations by a pair of byte queues.
\<close>

text \<open>A conversation ends with a value, reads exactly so many bytes (\<^verbatim>\<open>asio::async_read\<close>), reads until
  a delimiter has arrived (\<^verbatim>\<open>asio::async_read_until\<close>), or writes (\<^verbatim>\<open>asio::async_write\<close>). The
  continuations receive the error message, if any, as \<^verbatim>\<open>redirect_error\<close> gives it to the code.\<close>

datatype 'a conv =
    Ret 'a
  | Recv nat "string + bytes \<Rightarrow> 'a conv"
  | RecvUntil bytes "string + bytes \<Rightarrow> 'a conv"
  | Send bytes "string option \<Rightarrow> 'a conv"

text \<open>\<^verbatim>\<open>readExact\<close> and \<^verbatim>\<open>writeAll\<close> (\<^verbatim>\<open>s5ReadExact\<close>, \<^verbatim>\<open>s5WriteAll\<close>), with what follows an error and what
  follows success.\<close>

definition readExact :: "nat \<Rightarrow> (status \<Rightarrow> 'a conv) \<Rightarrow> (bytes \<Rightarrow> 'a conv) \<Rightarrow> 'a conv" where
  "readExact n fail k =
     Recv n (\<lambda>r. case r of Inl msg \<Rightarrow> fail (UnavailableError msg) | Inr bs \<Rightarrow> k bs)"

definition writeAll :: "bytes \<Rightarrow> (status \<Rightarrow> 'a conv) \<Rightarrow> 'a conv \<Rightarrow> 'a conv" where
  "writeAll bs fail k =
     Send bs (\<lambda>r. case r of Some msg \<Rightarrow> fail (UnavailableError msg) | None \<Rightarrow> k)"

section \<open>Searching for a delimiter\<close>

text \<open>The position just after the first occurrence of \<open>d\<close>.\<close>

fun find_end :: "bytes \<Rightarrow> bytes \<Rightarrow> nat option" where
  "find_end d [] = (if d = [] then Some 0 else None)"
| "find_end d (b # bs) =
     (if take (length d) (b # bs) = d then Some (length d)
      else map_option Suc (find_end d bs))"

lemma find_end_bounds: "find_end d bs = Some n \<Longrightarrow> length d \<le> n \<and> n \<le> length bs"
proof (induction d bs arbitrary: n rule: find_end.induct)
  case (2 d b bs)
  show ?case
  proof (cases "take (length d) (b # bs) = d")
    case True
    then have "length d \<le> length (b # bs)" by (metis length_take min.cobounded1)
    with 2 True show ?thesis by simp
  next
    case False
    with 2 show ?thesis by fastforce
  qed
qed (simp split: if_splits)

section \<open>Running a conversation\<close>

text \<open>The other side of the socket: the bytes the peer sends before it closes its side, the results of
  the writes in order (success when the list is used up), and how many bytes beyond the delimiter
  each search reads into its buffer.\<close>

record peer =
  peer_in :: bytes
  peer_writes :: "string option list"
  peer_extra :: "nat list"

definition write_result :: "peer \<Rightarrow> string option" where
  "write_result p = (case peer_writes p of [] \<Rightarrow> None | w # ws \<Rightarrow> w)"

definition extra_of :: "peer \<Rightarrow> nat" where
  "extra_of p = (case peer_extra p of [] \<Rightarrow> 0 | x # xs \<Rightarrow> x)"

primrec exec :: "'a conv \<Rightarrow> peer \<Rightarrow> 'a \<times> bytes \<times> peer" where
  "exec (Ret x) = (\<lambda>p. (x, [], p))"
| "exec (Recv n k) = (\<lambda>p.
     if n \<le> length (peer_in p) then exec (k (Inr (take n (peer_in p)))) (p\<lparr>peer_in := drop n (peer_in p)\<rparr>)
     else exec (k (Inl ''End of file'')) (p\<lparr>peer_in := []\<rparr>))"
| "exec (RecvUntil d k) = (\<lambda>p.
     case find_end d (peer_in p) of
       None \<Rightarrow> exec (k (Inl ''End of file'')) (p\<lparr>peer_in := []\<rparr>)
     | Some n \<Rightarrow>
         let got = min (length (peer_in p)) (n + extra_of p) in
         exec (k (Inr (take got (peer_in p))))
           (p\<lparr>peer_in := drop got (peer_in p), peer_extra := tl (peer_extra p)\<rparr>))"
| "exec (Send bs k) = (\<lambda>p.
     case exec (k (write_result p)) (p\<lparr>peer_writes := tl (peer_writes p)\<rparr>) of
       (x, out, p') \<Rightarrow> (x, (if write_result p = None then bs @ out else out), p'))"

lemma exec_readExact:
  "exec (readExact n fail k) p =
     (if n \<le> length (peer_in p) then exec (k (take n (peer_in p))) (p\<lparr>peer_in := drop n (peer_in p)\<rparr>)
      else exec (fail (UnavailableError ''End of file'')) (p\<lparr>peer_in := []\<rparr>))"
  by (simp add: readExact_def)

lemma exec_writeAll:
  "exec (writeAll bs fail k) p =
     (case write_result p of
        None \<Rightarrow> (case exec k (p\<lparr>peer_writes := tl (peer_writes p)\<rparr>) of (x, out, p') \<Rightarrow> (x, bs @ out, p'))
      | Some msg \<Rightarrow> exec (fail (UnavailableError msg)) (p\<lparr>peer_writes := tl (peer_writes p)\<rparr>))"
  by (auto simp: writeAll_def split: option.split prod.split)

text \<open>A peer whose connection takes every write.\<close>

definition quiet :: "bytes \<Rightarrow> peer" where
  "quiet bs = \<lparr>peer_in = bs, peer_writes = [], peer_extra = []\<rparr>"

lemma quiet_simps [simp]:
  "peer_in (quiet bs) = bs" "write_result (quiet bs) = None" "extra_of (quiet bs) = 0"
  "(quiet bs)\<lparr>peer_in := cs\<rparr> = quiet cs" "peer_writes (quiet bs) = []" "peer_extra (quiet bs) = []"
  "(quiet bs)\<lparr>peer_writes := []\<rparr> = quiet bs" "(quiet bs)\<lparr>peer_extra := []\<rparr> = quiet bs"
  "(quiet bs)\<lparr>peer_in := cs, peer_extra := []\<rparr> = quiet cs"
  by (simp_all add: quiet_def write_result_def extra_of_def)

section \<open>Two conversations on one connection\<close>

text \<open>One step of one side: it sends into the queue to the other side, or takes what it waits for
  from its own queue. A search for a delimiter takes just what it needs.\<close>

inductive side_step :: "'a conv \<Rightarrow> bytes \<Rightarrow> bytes \<Rightarrow> 'a conv \<Rightarrow> bytes \<Rightarrow> bytes \<Rightarrow> bool" where
  side_send: "side_step (Send bs k) inq outq (k None) inq (outq @ bs)"
| side_recv: "n \<le> length inq \<Longrightarrow> side_step (Recv n k) inq outq (k (Inr (take n inq))) (drop n inq) outq"
| side_until: "find_end d inq = Some n \<Longrightarrow>
    side_step (RecvUntil d k) inq outq (k (Inr (take n inq))) (drop n inq) outq"

inductive_cases side_stepE: "side_step c inq outq c' inq' outq'"

inductive_simps side_step_simps:
  "side_step (Ret x) inq outq c' inq' outq'"
  "side_step (Send bs k) inq outq c' inq' outq'"
  "side_step (Recv n k) inq outq c' inq' outq'"
  "side_step (RecvUntil d k) inq outq c' inq' outq'"

text \<open>The state of a connection: the two sides, the bytes to the left side and the bytes to the right.\<close>

type_synonym ('a, 'b) talk = "'a conv \<times> 'b conv \<times> bytes \<times> bytes"

inductive talk_step :: "('a, 'b) talk \<Rightarrow> ('a, 'b) talk \<Rightarrow> bool" where
  talk_left: "side_step a to_a to_b a' to_a' to_b' \<Longrightarrow> talk_step (a, b, to_a, to_b) (a', b, to_a', to_b')"
| talk_right: "side_step b to_b to_a b' to_b' to_a' \<Longrightarrow> talk_step (a, b, to_a, to_b) (a, b', to_a', to_b')"

inductive_cases talk_stepE: "talk_step s s'"

abbreviation talks :: "('a, 'b) talk \<Rightarrow> ('a, 'b) talk \<Rightarrow> bool" where
  "talks \<equiv> talk_step\<^sup>*\<^sup>*"

lemma talks_step: "talk_step s s' \<Longrightarrow> talks s' t \<Longrightarrow> talks s t"
  by (rule converse_rtranclp_into_rtranclp)

lemma talks_left_send: "talks (k None, b, x, y @ bs) s \<Longrightarrow> talks (Send bs k, b, x, y) s"
  by (rule talks_step [OF talk_left [OF side_send]])

lemma talks_right_send: "talks (a, k None, x @ bs, y) s \<Longrightarrow> talks (a, Send bs k, x, y) s"
  by (rule talks_step [OF talk_right [OF side_send]])

lemma talks_left_recv:
  "n \<le> length x \<Longrightarrow> talks (k (Inr (take n x)), b, drop n x, y) s \<Longrightarrow> talks (Recv n k, b, x, y) s"
  by (rule talks_step [OF talk_left [OF side_recv]])

lemma talks_right_recv:
  "n \<le> length y \<Longrightarrow> talks (a, k (Inr (take n y)), x, drop n y) s \<Longrightarrow> talks (a, Recv n k, x, y) s"
  by (rule talks_step [OF talk_right [OF side_recv]])

lemma talks_left_until:
  "find_end d x = Some n \<Longrightarrow> talks (k (Inr (take n x)), b, drop n x, y) s \<Longrightarrow> talks (RecvUntil d k, b, x, y) s"
  by (rule talks_step [OF talk_left [OF side_until]])

lemma talks_right_until:
  "find_end d y = Some n \<Longrightarrow> talks (a, k (Inr (take n y)), x, drop n y) s \<Longrightarrow> talks (a, RecvUntil d k, x, y) s"
  by (rule talks_step [OF talk_right [OF side_until]])

lemma talks_left_write: "talks (k, b, x, y @ bs) s \<Longrightarrow> talks (writeAll bs fail k, b, x, y) s"
  unfolding writeAll_def by (rule talks_left_send) simp

lemma talks_right_write: "talks (a, k, x @ bs, y) s \<Longrightarrow> talks (a, writeAll bs fail k, x, y) s"
  unfolding writeAll_def by (rule talks_right_send) simp

lemma talks_left_read:
  "n \<le> length x \<Longrightarrow> talks (k (take n x), b, drop n x, y) s \<Longrightarrow> talks (readExact n fail k, b, x, y) s"
  unfolding readExact_def by (rule talks_left_recv) simp_all

lemma talks_right_read:
  "n \<le> length y \<Longrightarrow> talks (a, k (take n y), x, drop n y) s \<Longrightarrow> talks (a, readExact n fail k, x, y) s"
  unfolding readExact_def by (rule talks_right_recv) simp_all

text \<open>Reading what was just put in front of the queue.\<close>

lemma talks_left_take:
  "length bs = n \<Longrightarrow> talks (k bs, b, x, y) s \<Longrightarrow> talks (readExact n fail k, b, bs @ x, y) s"
  by (rule talks_left_read) simp_all

lemma talks_right_take:
  "length bs = n \<Longrightarrow> talks (a, k bs, x, y) s \<Longrightarrow> talks (a, readExact n fail k, x, bs @ y) s"
  by (rule talks_right_read) simp_all

text \<open>Both sides wait for more than has been sent: nothing happens any more.\<close>

lemma both_waiting:
  "length x < n \<Longrightarrow> length y < m \<Longrightarrow> \<not> talk_step (readExact n f k, readExact m g h, x, y) s"
  by (auto simp: readExact_def side_step_simps elim: talk_stepE)

section \<open>Interleavings do not matter\<close>

text \<open>What one side does is not changed by bytes that arrive later, so the steps of the two sides
  commute: where one interleaving ends, every interleaving ends.\<close>

lemma find_end_append: "find_end d bs = Some n \<Longrightarrow> find_end d (bs @ cs) = Some n"
proof (induction d bs arbitrary: n rule: find_end.induct)
  case (1 d)
  then show ?case by (cases cs) (auto split: if_splits)
next
  case (2 d b bs)
  show ?case
  proof (cases "take (length d) (b # bs) = d")
    case True
    then have "length d \<le> length (b # bs)" by (metis length_take min.cobounded1)
    then have "take (length d) ((b # bs) @ cs) = take (length d) (b # bs)" by (simp only: take_append) simp
    with True 2 show ?thesis by simp
  next
    case False
    with 2 obtain m where m: "find_end d bs = Some m" "n = Suc m" by auto
    then have "length d \<le> length (b # bs)" using find_end_bounds by fastforce
    then have "take (length d) ((b # bs) @ cs) = take (length d) (b # bs)" by (simp only: take_append) simp
    with False m 2 show ?thesis by simp
  qed
qed

lemma side_step_later:
  "side_step c inq outq c' inq' outq' \<Longrightarrow> side_step c (inq @ x) outq c' (inq' @ x) outq'"
proof (induction rule: side_step.induct)
  case (side_recv n inq k outq)
  then show ?case using side_step.side_recv [of n "inq @ x" k outq] by simp
next
  case (side_until d inq n k outq)
  then have "n \<le> length inq" using find_end_bounds by blast
  with side_until show ?case
    using side_step.side_until [OF find_end_append [of d inq n x], of k outq] by simp
qed (rule side_send)

lemma side_step_out:
  "side_step c inq outq c' inq' outq' \<Longrightarrow> \<exists>bs. outq' = outq @ bs \<and> (\<forall>o'. side_step c inq o' c' inq' (o' @ bs))"
  by (erule side_step.cases) (auto simp: side_step_simps)

lemma side_step_det:
  "side_step c inq outq c' inq' outq' \<Longrightarrow> side_step c inq outq c'' inq'' outq'' \<Longrightarrow>
   c'' = c' \<and> inq'' = inq' \<and> outq'' = outq'"
  by (erule side_step.cases) (auto simp: side_step_simps)

lemma talk_commute:
  assumes "side_step a x y a' x' y'" and "side_step b y x b' y'' x''"
  shows "\<exists>v. talk_step (a', b, x', y') v \<and> talk_step (a, b', x'', y'') v"
proof -
  obtain p where p: "y' = y @ p" "\<And>o'. side_step a x o' a' x' (o' @ p)" using side_step_out [OF assms(1)] by auto
  obtain q where q: "x'' = x @ q" "\<And>o'. side_step b y o' b' y'' (o' @ q)" using side_step_out [OF assms(2)] by auto
  have "talk_step (a', b, x', y') (a', b', x' @ q, y'' @ p)"
    unfolding p(1) by (rule talk_right, rule side_step_later, rule q(2))
  moreover have "talk_step (a, b', x'', y'') (a', b', x' @ q, y'' @ p)"
    unfolding q(1) by (rule talk_left, rule side_step_later, rule p(2))
  ultimately show ?thesis by blast
qed

lemma talk_diamond:
  assumes "talk_step s t" and "talk_step s u"
  shows "t = u \<or> (\<exists>v. talk_step t v \<and> talk_step u v)"
  using assms by (elim talk_stepE) (auto dest: side_step_det talk_commute)

lemma talks_past:
  assumes "talks s t" and "\<And>v. \<not> talk_step t v" and "talk_step s u"
  shows "talks u t"
  using assms(1,3)
proof (induction arbitrary: u rule: converse_rtranclp_induct)
  case base
  with assms(2) show ?case by blast
next
  case (step s s')
  from talk_diamond [OF step(1) step(4)] show ?case
  proof
    assume "s' = u"
    with step show ?case by simp
  next
    assume "\<exists>v. talk_step s' v \<and> talk_step u v"
    then obtain v where "talk_step s' v" "talk_step u v" by blast
    with step(3) [of v] show ?case by (meson talks_step)
  qed
qed

lemma talks_confluent:
  assumes "talks s t" and "\<And>v. \<not> talk_step t v" and "talks s u"
  shows "talks u t"
  using assms(3,1)
proof (induction rule: rtranclp_induct)
  case base
  then show ?case .
next
  case (step y z)
  then show ?case using talks_past [OF _ assms(2)] by blast
qed

lemma ended: "\<not> talk_step (Ret x, Ret y, to_a, to_b) s"
  by (auto simp: side_step_simps elim: talk_stepE)

lemma ends_always:
  assumes "talks s (Ret x, Ret y, to_a, to_b)" and "talks s u"
  shows "talks u (Ret x, Ret y, to_a, to_b)"
  using assms(1) ended assms(2) by (rule talks_confluent)

end
