(* ===== verification/Socks5.thy ===== *)
theory Socks5
  imports Conversation Endpoints Router
begin

text \<open>
  Model of the SOCKS5 server (\<^verbatim>\<open>inbound/socks5_inbound.cpp\<close>) and client
  (\<^verbatim>\<open>outbound/socks5_outbound.cpp\<close>): the handshakes as conversations, and the datagram stream of a UDP
  association. The lemmas show that a client's CONNECT request is understood as the address it
  names, that credentials are enforced, what the client and the server of this program do when
  they talk to each other, and that an association serves only the first sender.
\<close>

definition port_from :: "u8 \<Rightarrow> u8 \<Rightarrow> u16" where
  "port_from h l = push_bit 8 (ucast h) OR ucast l"

section \<open>The server\<close>

text \<open>How \<^verbatim>\<open>handleClient\<close> ends: the connection is dropped, a TCP request is handed on, or a UDP
  association was set up.\<close>

datatype s5_end = S5Dropped | S5Connect session_request | S5Associated

definition s5_drop :: "status \<Rightarrow> s5_end conv" where
  "s5_drop e = Ret S5Dropped"

fun choose_method :: "bool \<Rightarrow> bytes \<Rightarrow> u8" where
  "choose_method require_auth [] = 0xFF"
| "choose_method require_auth (m # ms) =
     (if \<not> require_auth \<and> m = 0x00 then 0x00
      else if require_auth \<and> m = 0x02 then 0x02
      else choose_method require_auth ms)"

text \<open>\<^verbatim>\<open>if (n && !readExact(...)) co_return;\<close>: nothing is read for a length of zero.\<close>

definition readCounted :: "u8 \<Rightarrow> (bytes \<Rightarrow> s5_end conv) \<Rightarrow> s5_end conv" where
  "readCounted n k = (if n = 0 then k [] else readExact (unat n) s5_drop k)"

definition s5_auth :: "inbound_config \<Rightarrow> s5_end conv \<Rightarrow> s5_end conv" where
  "s5_auth cfg k =
     readExact 1 s5_drop (\<lambda>v.
     if v ! 0 \<noteq> 0x01 then Ret S5Dropped
     else readExact 1 s5_drop (\<lambda>ulen.
     readCounted (ulen ! 0) (\<lambda>u.
     readExact 1 s5_drop (\<lambda>plen.
     readCounted (plen ! 0) (\<lambda>p.
     let status = (if as_string u = in_user cfg \<and> as_string p = in_pass cfg then 0x00 else 0x01)
     in writeAll [0x01, status] s5_drop (if status \<noteq> 0 then Ret S5Dropped else k))))))"

text \<open>The address of a request, by its type byte.\<close>

definition s5_target :: "u8 \<Rightarrow> (address \<Rightarrow> s5_end conv) \<Rightarrow> s5_end conv" where
  "s5_target atyp k =
     (if atyp = 0x01 then
        readExact 6 s5_drop (\<lambda>buf. k (fromIPv4 (take 4 buf) (port_from (buf ! 4) (buf ! 5))))
      else if atyp = 0x03 then
        readExact 1 s5_drop (\<lambda>dlen.
        readCounted (dlen ! 0) (\<lambda>d.
        readExact 2 s5_drop (\<lambda>pb. k (fromDomain (as_string d) (port_from (pb ! 0) (pb ! 1))))))
      else if atyp = 0x04 then
        readExact 18 s5_drop (\<lambda>buf. k (fromIPv6 (take 16 buf) (port_from (buf ! 16) (buf ! 17))))
      else Ret S5Dropped)"

text \<open>The reply to UDP ASSOCIATE, with the address and port of the bound socket; \<open>bound\<close> is the
  result of binding it.\<close>

definition s5_associate :: "string + bytes \<times> u16 \<Rightarrow> s5_end conv" where
  "s5_associate bound =
     (case bound of
        Inl e \<Rightarrow> writeAll [0x05, 0x01, 0x00, 0x01, 0, 0, 0, 0, 0, 0] s5_drop (Ret S5Dropped)
      | Inr (ip, port) \<Rightarrow>
          writeAll ([0x05, 0x00, 0x00, 0x01] @ ip @ [ucast (drop_bit 8 port AND 0xff), ucast (port AND 0xff)])
            s5_drop (Ret S5Associated))"

definition s5_tcp_request :: "inbound_config \<Rightarrow> address \<Rightarrow> session_request" where
  "s5_tcp_request cfg target =
     \<lparr>rq_inbound_tag = in_tag cfg, rq_inbound_protocol = in_protocol cfg, rq_protocol = TCP, rq_target = target\<rparr>"

definition s5_request :: "inbound_config \<Rightarrow> string + bytes \<times> u16 \<Rightarrow> s5_end conv" where
  "s5_request cfg bound =
     readExact 4 s5_drop (\<lambda>req_hdr.
     let cmd = req_hdr ! 1 in
     if req_hdr ! 0 \<noteq> 0x05 \<or> (cmd \<noteq> 0x01 \<and> cmd \<noteq> 0x03) then
       writeAll [0x05, 0x07, 0x00, 0x01, 0, 0, 0, 0, 0, 0] s5_drop (Ret S5Dropped)
     else s5_target (req_hdr ! 3) (\<lambda>target.
       if cmd = 0x03 then s5_associate bound
       else writeAll [0x05, 0x00, 0x00, 0x01, 0, 0, 0, 0, 0, 0] s5_drop
              (Ret (S5Connect (s5_tcp_request cfg target)))))"

definition s5_require_auth :: "inbound_config \<Rightarrow> bool" where
  "s5_require_auth cfg \<longleftrightarrow> in_user cfg \<noteq> [] \<or> in_pass cfg \<noteq> []"

definition socks5_handleClient :: "inbound_config \<Rightarrow> string + bytes \<times> u16 \<Rightarrow> s5_end conv" where
  "socks5_handleClient cfg bound =
     readExact 2 s5_drop (\<lambda>hdr.
     if hdr ! 0 \<noteq> 0x05 then Ret S5Dropped
     else
       let nm = hdr ! 1 in
       if nm = 0 then Ret S5Dropped
       else readExact (unat nm) s5_drop (\<lambda>methods.
         let chosen = choose_method (s5_require_auth cfg) methods in
         writeAll [0x05, chosen] s5_drop
           (if chosen = 0xFF then Ret S5Dropped
            else if s5_require_auth cfg then s5_auth cfg (s5_request cfg bound)
            else s5_request cfg bound)))"

section \<open>The client\<close>

definition s5_fail :: "status \<Rightarrow> unit result conv" where
  "s5_fail e = Ret (Inl e)"

definition s5_connect_frame :: "address \<Rightarrow> bytes" where
  "s5_connect_frame target =
     [0x05, 0x01, 0x00] @
     (case addr_type target of
        IPv4 \<Rightarrow> 0x01 # take 4 (addr_bytes target)
      | IPv6 \<Rightarrow> 0x04 # addr_bytes target
      | Domain \<Rightarrow> 0x03 # of_nat (min 255 (length (addr_domain target))) # as_bytes (addr_domain target)) @
     [ucast (drop_bit 8 (addr_port target)), ucast (addr_port target AND 0xff)]"

definition s5_read_reply :: "unit result conv" where
  "s5_read_reply =
     readExact 4 s5_fail (\<lambda>rep.
     if rep ! 1 \<noteq> 0 then Ret (Inl (UnavailableError ''socks5 CONNECT rejected''))
     else
       let skip = (\<lambda>extra. readExact (extra + 2) s5_fail (\<lambda>_. Ret (Inr ()))) in
       if rep ! 3 = 0x01 then skip 4
       else if rep ! 3 = 0x04 then skip 16
       else if rep ! 3 = 0x03 then readExact 1 s5_fail (\<lambda>dl. skip (unat (dl ! 0)))
       else Ret (Inl (UnavailableError ''bad socks5 atyp'')))"

definition s5_credentials :: "outbound_config \<Rightarrow> bytes" where
  "s5_credentials cfg =
     [0x01, of_nat (length (out_user cfg))] @ as_bytes (out_user cfg) @
     [of_nat (length (out_pass cfg))] @ as_bytes (out_pass cfg)"

definition socks5_client :: "outbound_config \<Rightarrow> address \<Rightarrow> unit result conv" where
  "socks5_client cfg target =
     (let use_auth = (out_user cfg \<noteq> []);
          greet = [0x05, 0x02, 0x00, 0x02];
          glen = (if use_auth then 4 else 3);
          request = writeAll (s5_connect_frame target) s5_fail s5_read_reply
      in writeAll (take glen greet) s5_fail
         (readExact 2 s5_fail (\<lambda>reply.
          if reply ! 0 \<noteq> 0x05 then Ret (Inl (UnavailableError ''bad socks5 ver''))
          else if reply ! 1 = 0xFF then Ret (Inl (UnavailableError ''no acceptable method''))
          else if reply ! 1 = 0x02 then
            writeAll (s5_credentials cfg) s5_fail
              (readExact 2 s5_fail (\<lambda>ar.
               if ar ! 1 \<noteq> 0 then Ret (Inl (UnauthenticatedError ''socks5 auth failed''))
               else request))
          else request)))"

text \<open>\<^verbatim>\<open>Socks5Outbound::handle\<close> up to the copying: reach the server, then talk to it.\<close>

definition socks5_handle :: "absl \<Rightarrow> asio_ip \<Rightarrow> net \<Rightarrow> outbound_config \<Rightarrow> address \<Rightarrow> unit result conv" where
  "socks5_handle L I N cfg target =
     (case dial_server L I N cfg of Inl e \<Rightarrow> Ret (Inl e) | Inr ep \<Rightarrow> socks5_client cfg target)"

section \<open>The datagram stream of an association\<close>

record s5_udp =
  us_open :: bool
  ts_open :: bool
  us_client_ep :: endpoint

definition new_s5_udp :: s5_udp where
  "new_s5_udp = \<lparr>us_open = True, ts_open = True, us_client_ep = \<lparr>ep_addr = IpV4 [0, 0, 0, 0], ep_port = 0\<rparr>\<rparr>"

text \<open>The header of a datagram from the client; \<open>None\<close> when it is skipped.\<close>

definition parse_datagram :: "bytes \<Rightarrow> (string \<times> address) option" where
  "parse_datagram buf =
     (let n = length buf in
      if n < 4 \<or> buf ! 0 \<noteq> 0 \<or> buf ! 1 \<noteq> 0 \<or> buf ! 2 \<noteq> 0 then None
      else
        let atyp = buf ! 3; off = 4 in
        if atyp = 1 then
          if n < off + 4 + 2 then None
          else Some (as_string (drop (off + 6) buf),
                     fromIPv4 (take 4 (drop off buf)) (port_from (buf ! (off + 4)) (buf ! (off + 5))))
        else if atyp = 3 then
          if n < off + 1 then None
          else
            let dlen = unat (buf ! off); off = off + 1 in
            if n < off + dlen + 2 then None
            else Some (as_string (drop (off + dlen + 2) buf),
                       fromDomain (as_string (take dlen (drop off buf)))
                         (port_from (buf ! (off + dlen)) (buf ! (off + dlen + 1))))
        else if atyp = 4 then
          if n < off + 16 + 2 then None
          else Some (as_string (drop (off + 18) buf),
                     fromIPv6 (take 16 (drop off buf)) (port_from (buf ! (off + 16)) (buf ! (off + 17))))
        else None)"

text \<open>\<^verbatim>\<open>receiveFrom\<close> over the datagrams that arrive (or the error of a receive); \<open>None\<close> while it waits.\<close>

fun s5_receiveFrom ::
  "(string + endpoint \<times> bytes) list \<Rightarrow> s5_udp
   \<Rightarrow> ((string \<times> address) result \<times> s5_udp \<times> (string + endpoint \<times> bytes) list) option"
where
  "s5_receiveFrom rxs u =
     (if \<not> us_open u then Some (Inl (UnavailableError ''closed''), u, rxs)
      else
        case rxs of
          [] \<Rightarrow> None
        | Inl e # rxs \<Rightarrow> Some (Inl (UnavailableError e), u, rxs)
        | Inr (sender, buf) # rxs \<Rightarrow>
            if ep_port (us_client_ep u) \<noteq> 0 \<and> sender \<noteq> us_client_ep u then s5_receiveFrom rxs u
            else
              let u = (if ep_port (us_client_ep u) = 0 then u\<lparr>us_client_ep := sender\<rparr> else u) in
              (case parse_datagram buf of
                 None \<Rightarrow> s5_receiveFrom rxs u
               | Some d \<Rightarrow> Some (Inr d, u, rxs)))"

declare s5_receiveFrom.simps [simp del]

text \<open>\<^verbatim>\<open>sendTo\<close>: the datagram for the client and where it is sent; \<open>io\<close> is the error of sending it.\<close>

definition s5_sendTo ::
  "string option \<Rightarrow> bytes \<Rightarrow> address \<Rightarrow> s5_udp \<Rightarrow> unit result \<times> (bytes \<times> endpoint) option"
where
  "s5_sendTo io data target u =
     (if \<not> us_open u then (Inl (UnavailableError ''closed''), None)
      else
        let buf = [0, 0, 0] @ as_bytes (toBinary target) @ data
        in (case io of None \<Rightarrow> Inr () | Some e \<Rightarrow> Inl (UnavailableError e), Some (buf, us_client_ep u)))"

definition s5_close :: "s5_udp \<Rightarrow> s5_udp" where
  "s5_close u = u\<lparr>us_open := False, ts_open := False\<rparr>"

text \<open>The request of an association, for the address of its first datagram.\<close>

definition s5_udp_request :: "inbound_config \<Rightarrow> string \<times> address \<Rightarrow> session_request" where
  "s5_udp_request cfg first =
     \<lparr>rq_inbound_tag = in_tag cfg, rq_inbound_protocol = in_protocol cfg, rq_protocol = UDP, rq_target = snd first\<rparr>"

text \<open>\<^verbatim>\<open>InjectedStream\<close>: the datagram that was read to find the target, then those of the inner stream.\<close>

record 'i injected =
  inj_inner :: 'i
  inj_first :: "(string \<times> address) option"

definition injected_receiveFrom ::
  "('i \<Rightarrow> ((string \<times> address) result \<times> 'i) outcome) \<Rightarrow> 'i injected
   \<Rightarrow> ((string \<times> address) result \<times> 'i injected) outcome"
where
  "injected_receiveFrom recv s =
     (case inj_first s of
        Some d \<Rightarrow> Done (Inr d, s\<lparr>inj_first := None\<rparr>)
      | None \<Rightarrow>
          (case recv (inj_inner s) of
             Done (r, i) \<Rightarrow> Done (r, s\<lparr>inj_inner := i\<rparr>)
           | Waiting \<Rightarrow> Waiting
           | Crash \<Rightarrow> Crash))"

section \<open>The address of a request\<close>

text \<open>The wire form of an address in RFC 1928: type byte, address (a name with its length in front),
  port.\<close>

definition s5_addr :: "address \<Rightarrow> bytes" where
  "s5_addr a =
     (case addr_type a of
        IPv4 \<Rightarrow> 0x01 # take 4 (addr_bytes a)
      | IPv6 \<Rightarrow> 0x04 # addr_bytes a
      | Domain \<Rightarrow> 0x03 # of_nat (length (addr_domain a)) # as_bytes (addr_domain a)) @
     [ucast (drop_bit 8 (addr_port a)), ucast (addr_port a)]"

lemma port_from_bytes: "port_from (ucast (drop_bit 8 p)) (ucast p) = p"
  using be16_bytes [of p] by (simp add: port_from_def be_push_def ucast_and_0xff)

lemma connect_frame_addr:
  assumes "wf_address a" shows "s5_connect_frame a = [5, 1, 0] @ s5_addr a"
  using assms by (cases rule: wf_cases) (simp_all add: s5_connect_frame_def s5_addr_def ucast_and_0xff min_absorb2)

lemma exec_read_quiet: "length b = n \<Longrightarrow> exec (readExact n fail k) (quiet (b @ r)) = exec (k b) (quiet r)"
  by (simp add: exec_readExact)

lemma exec_counted_quiet: "length b = unat n \<Longrightarrow> exec (readCounted n k) (quiet (b @ r)) = exec (k b) (quiet r)"
  by (cases "n = 0") (simp_all add: readCounted_def exec_read_quiet)

lemma exec_write_quiet:
  "exec (writeAll bs fail k) (quiet i) = (case exec k (quiet i) of (x, out, p) \<Rightarrow> (x, bs @ out, p))"
  by (simp add: exec_writeAll)

lemma unat_of_length: "length s \<le> 255 \<Longrightarrow> unat (of_nat (length s) :: u8) = length s"
  by (simp add: unat_of_nat)

lemma exec_target_quiet:
  assumes "wf_address a"
  shows "exec (s5_target (hd (s5_addr a)) k) (quiet (tl (s5_addr a) @ rest)) = exec (k a) (quiet rest)"
  using assms
proof (cases rule: wf_cases)
  case (v4 b p)
  let ?t = "b @ [ucast (drop_bit 8 p), ucast p]"
  have "exec (s5_target 1 k) (quiet (?t @ rest)) = exec (k (fromIPv4 (take 4 ?t) (port_from (?t ! 4) (?t ! 5)))) (quiet rest)"
    using v4(1) exec_read_quiet [of ?t 6 s5_drop] by (simp add: s5_target_def)
  then show ?thesis using v4 by (simp add: s5_addr_def nth_append port_from_bytes)
next
  case (v6 b p)
  let ?t = "b @ [ucast (drop_bit 8 p), ucast p]"
  have "exec (s5_target 4 k) (quiet (?t @ rest)) = exec (k (fromIPv6 (take 16 ?t) (port_from (?t ! 16) (?t ! 17)))) (quiet rest)"
    using v6(1) exec_read_quiet [of ?t 18 s5_drop] by (simp add: s5_target_def)
  then show ?thesis using v6 by (simp add: s5_addr_def nth_append port_from_bytes)
next
  case (name d p)
  have "exec (s5_target 3 k) (quiet ([of_nat (length d)] @ as_bytes d @ [ucast (drop_bit 8 p), ucast p] @ rest))
      = exec (k (fromDomain d (port_from (ucast (drop_bit 8 p)) (ucast p)))) (quiet rest)"
  proof -
    have t: "s5_target 3 k = readExact 1 s5_drop (\<lambda>dlen. readCounted (dlen ! 0) (\<lambda>d.
        readExact 2 s5_drop (\<lambda>pb. k (fromDomain (as_string d) (port_from (pb ! 0) (pb ! 1))))))"
      by (simp add: s5_target_def)
    show ?thesis
      unfolding t
      by (subst exec_read_quiet, simp, subst exec_counted_quiet, simp add: unat_of_length name(2),
          subst exec_read_quiet, simp_all)
  qed
  then show ?thesis using name by (simp add: s5_addr_def port_from_bytes)
qed

section \<open>A client's request is understood\<close>

lemma s5_addr_split: "s5_addr a = hd (s5_addr a) # tl (s5_addr a)"
  by (cases "addr_type a") (simp_all add: s5_addr_def)

lemma exec_request_quiet:
  assumes "wf_address a"
  shows "exec (s5_request cfg bound) (quiet ([5, 1, 0] @ s5_addr a @ rest))
    = (S5Connect (s5_tcp_request cfg a), [5, 0, 0, 1, 0, 0, 0, 0, 0, 0], quiet rest)"
proof -
  have "exec (s5_request cfg bound) (quiet ([5, 1, 0, hd (s5_addr a)] @ tl (s5_addr a) @ rest))
      = exec (s5_target (hd (s5_addr a)) (\<lambda>target. writeAll [5, 0, 0, 1, 0, 0, 0, 0, 0, 0] s5_drop
          (Ret (S5Connect (s5_tcp_request cfg target))))) (quiet (tl (s5_addr a) @ rest))"
    unfolding s5_request_def by (subst exec_read_quiet) (simp_all add: Let_def)
  also have "\<dots> = (S5Connect (s5_tcp_request cfg a), [5, 0, 0, 1, 0, 0, 0, 0, 0, 0], quiet rest)"
    by (simp add: exec_target_quiet [OF assms] exec_write_quiet)
  finally show ?thesis using s5_addr_split [of a] by (metis append_Cons append_Nil)
qed

text \<open>What a client has to send for its credentials (RFC 1929), and how the server answers.\<close>

definition auth_bytes :: "inbound_config \<Rightarrow> bytes" where
  "auth_bytes cfg =
     (if s5_require_auth cfg then
        [1, of_nat (length (in_user cfg))] @ as_bytes (in_user cfg) @
        [of_nat (length (in_pass cfg))] @ as_bytes (in_pass cfg)
      else [])"

definition auth_method :: "inbound_config \<Rightarrow> u8" where
  "auth_method cfg = (if s5_require_auth cfg then 2 else 0)"

definition auth_reply :: "inbound_config \<Rightarrow> bytes" where
  "auth_reply cfg = (if s5_require_auth cfg then [1, 0] else [])"

lemma choose_method_spec:
  "choose_method req ms = (if (if req then 2 else 0) \<in> set ms then (if req then 2 else 0) else 0xFF)"
  by (induction req ms rule: choose_method.induct) auto

lemma exec_auth_quiet:
  assumes "length (in_user cfg) \<le> 255" "length (in_pass cfg) \<le> 255"
  shows "exec (s5_auth cfg k) (quiet ([1] @ [of_nat (length (in_user cfg))] @ as_bytes (in_user cfg) @
      [of_nat (length (in_pass cfg))] @ as_bytes (in_pass cfg) @ rest)) =
    (case exec k (quiet rest) of (x, out, p) \<Rightarrow> (x, [1, 0] @ out, p))"
  unfolding s5_auth_def using assms
  by (simp only: exec_read_quiet exec_counted_quiet unat_of_length length_as_bytes list.size nth_Cons_0
        as_string_as_bytes Let_def simp_thms if_True if_False exec_write_quiet One_nat_def add_0)



section \<open>Credentials are enforced\<close>

lemma exec_readD:
  assumes "exec (readExact n s5_drop k) p = (r, out, p')" "r \<noteq> S5Dropped"
  obtains b rest where "peer_in p = b @ rest" "length b = n" "exec (k b) (p\<lparr>peer_in := rest\<rparr>) = (r, out, p')"
proof -
  have "n \<le> length (peer_in p)"
    using assms by (auto simp: exec_readExact s5_drop_def split: if_splits)
  then show thesis
    using assms that [of "take n (peer_in p)" "drop n (peer_in p)"] by (simp add: exec_readExact)
qed

lemma exec_countedD:
  assumes "exec (readCounted n k) p = (r, out, p')" "r \<noteq> S5Dropped"
  obtains b rest where "peer_in p = b @ rest" "length b = unat n" "exec (k b) (p\<lparr>peer_in := rest\<rparr>) = (r, out, p')"
proof (cases "n = 0")
  case True
  then show thesis using assms that [of "[]" "peer_in p"] by (simp add: readCounted_def)
next
  case False
  then have "exec (readExact (unat n) s5_drop k) p = (r, out, p')" using assms(1) by (simp add: readCounted_def)
  then show thesis using assms(2) that by (rule exec_readD)
qed

lemma exec_writeD:
  assumes "exec (writeAll bs s5_drop k) p = (r, out, p')" "r \<noteq> S5Dropped"
  obtains out' where "exec k (p\<lparr>peer_writes := tl (peer_writes p)\<rparr>) = (r, out', p')"
  using assms by (auto simp: exec_writeAll s5_drop_def split: option.splits prod.splits)

lemma length_one: "length b = 1 \<Longrightarrow> b = [b ! 0]"
  by (cases b) auto

lemma length_two: "length b = 2 \<Longrightarrow> b = [b ! 0, b ! 1]"
  by (cases b; cases "tl b") auto

lemma of_nat_length_unat: "length b = unat (n :: u8) \<Longrightarrow> n = of_nat (length b)"
  by simp

lemma auth_enforced:
  assumes "exec (s5_auth cfg k) p = (r, out, p')" "r \<noteq> S5Dropped"
  shows "\<exists>rest. peer_in p = [1, of_nat (length (in_user cfg))] @ as_bytes (in_user cfg) @
      [of_nat (length (in_pass cfg))] @ as_bytes (in_pass cfg) @ rest"
proof -
  from assms obtain v r1 where v: "peer_in p = v @ r1" "length v = 1" and v1: "v ! 0 = 1"
    and e1: "exec (readExact 1 s5_drop (\<lambda>ulen. readCounted (ulen ! 0) (\<lambda>u. readExact 1 s5_drop (\<lambda>plen.
      readCounted (plen ! 0) (\<lambda>q.
       let status = (if as_string u = in_user cfg \<and> as_string q = in_pass cfg then 0x00 else 0x01)
       in writeAll [0x01, status] s5_drop (if status \<noteq> 0 then Ret S5Dropped else k))))))
      (p\<lparr>peer_in := r1\<rparr>) = (r, out, p')"
    unfolding s5_auth_def by (elim exec_readD) (auto split: if_splits)
  from e1 assms(2) obtain ul r2 u r3 pl r4 q r5 where
    b: "r1 = ul @ r2" "length ul = 1" "r2 = u @ r3" "length u = unat (ul ! 0)"
      "r3 = pl @ r4" "length pl = 1" "r4 = q @ r5" "length q = unat (pl ! 0)"
    and e5: "exec (let status = (if as_string u = in_user cfg \<and> as_string q = in_pass cfg then 0x00 else 0x01 :: u8)
       in writeAll [0x01, status] s5_drop (if status \<noteq> 0 then Ret S5Dropped else k)) (p\<lparr>peer_in := r5\<rparr>) = (r, out, p')"
    by (elim exec_readD exec_countedD) (auto elim!: exec_readD exec_countedD)
  have ok: "as_string u = in_user cfg \<and> as_string q = in_pass cfg"
  proof (rule ccontr)
    assume "\<not> ?thesis"
    with e5 have "exec (writeAll [1, 1] s5_drop (Ret S5Dropped)) (p\<lparr>peer_in := r5\<rparr>) = (r, out, p')" by (simp add: Let_def)
    then show False using assms(2) by (elim exec_writeD) auto
  qed
  then have "u = as_bytes (in_user cfg)" "q = as_bytes (in_pass cfg)" by (metis as_bytes_as_string)+
  moreover have "ul = [of_nat (length u)]" "pl = [of_nat (length q)]"
    using b length_one of_nat_length_unat by metis+
  ultimately show ?thesis
    using v v1 b length_one [OF v(2)] by (auto intro!: exI [of _ r5])
qed

text \<open>C18. Credentials are enforced: if the server has a user name or a password and a connection gets as
  far as a request or an association, whatever the client sent and however its writes went, then
  the client's bytes start with a greeting that offers the user name method, followed by exactly
  the configured user name and password in the form of RFC 1929.\<close>

theorem socks5_credentials_enforced:
  assumes "s5_require_auth cfg" and "exec (socks5_handleClient cfg bound) p = (r, out, p')" and "r \<noteq> S5Dropped"
  shows "\<exists>ms rest. peer_in p = [5, of_nat (length ms)] @ ms @ auth_bytes cfg @ rest \<and> 2 \<in> set ms"
proof -
  from assms(2,3) obtain hdr r1 where h: "peer_in p = hdr @ r1" "length hdr = 2" and h5: "hdr ! 0 = 5"
    and e1: "exec (readExact (unat (hdr ! 1)) s5_drop (\<lambda>methods.
         let chosen = choose_method (s5_require_auth cfg) methods in
         writeAll [0x05, chosen] s5_drop
           (if chosen = 0xFF then Ret S5Dropped
            else if s5_require_auth cfg then s5_auth cfg (s5_request cfg bound)
            else s5_request cfg bound))) (p\<lparr>peer_in := r1\<rparr>) = (r, out, p')"
    unfolding socks5_handleClient_def by (elim exec_readD) (auto simp: Let_def split: if_splits)
  from e1 assms(3) obtain ms r2 where m: "r1 = ms @ r2" "length ms = unat (hdr ! 1)"
    and e2: "exec (let chosen = choose_method True ms in
         writeAll [0x05, chosen] s5_drop
           (if chosen = 0xFF then Ret S5Dropped else s5_auth cfg (s5_request cfg bound))) (p\<lparr>peer_in := r2\<rparr>) = (r, out, p')"
    using assms(1) by (elim exec_readD) (auto simp: Let_def cong: if_cong)
  from e2 assms(3) obtain out' where
    "exec (if choose_method True ms = 0xFF then Ret S5Dropped else s5_auth cfg (s5_request cfg bound))
       (p\<lparr>peer_in := r2, peer_writes := tl (peer_writes p)\<rparr>) = (r, out', p')"
    unfolding Let_def by (elim exec_writeD) auto
  with assms(3) have "choose_method True ms \<noteq> 0xFF" and
    e3: "exec (s5_auth cfg (s5_request cfg bound)) (p\<lparr>peer_in := r2, peer_writes := tl (peer_writes p)\<rparr>) = (r, out', p')"
    by (auto split: if_splits)
  then have "2 \<in> set ms" by (auto simp: choose_method_spec split: if_splits)
  moreover obtain rest where "r2 = auth_bytes cfg @ rest"
    using auth_enforced [OF e3 assms(3)] assms(1) by (auto simp: auth_bytes_def)
  moreover have "hdr = [5, of_nat (length ms)]" using length_two [OF h(2)] h5 m(2) by simp
  ultimately show ?thesis using h(1) m(1) by auto
qed

definition secret_inbound :: inbound_config where
  "secret_inbound = default_inbound\<lparr>in_user := ''u'', in_pass := ''pw''\<rparr>"

lemma secret_inbound_fields:
  "s5_require_auth secret_inbound" "auth_method secret_inbound = 2"
  "auth_bytes secret_inbound = [1, 1] @ as_bytes ''u'' @ [2] @ as_bytes ''pw''"
  by (simp_all add: secret_inbound_def s5_require_auth_def auth_method_def auth_bytes_def default_inbound_def)

lemma secret_run:
  "exec (socks5_handleClient secret_inbound (Inl ''none''))
     (quiet ([5, 1] @ [2] @ auth_bytes secret_inbound @ [5, 1, 0] @ s5_addr (fromDomain ''a.b'' 443) @ []))
   = (S5Connect (s5_tcp_request secret_inbound (fromDomain ''a.b'' 443)), [5, 2, 1, 0, 5, 0, 0, 1, 0, 0, 0, 0, 0, 0], quiet [])"
  by code_simp

theorem socks5_credentials_enforced_witness:
  "\<exists>ms rest. [5, 1] @ [2] @ auth_bytes secret_inbound @ [5, 1, 0] @ s5_addr (fromDomain ''a.b'' 443) @ []
     = [5, of_nat (length ms)] @ ms @ auth_bytes secret_inbound @ rest \<and> 2 \<in> set ms"
  using socks5_credentials_enforced [OF secret_inbound_fields(1) secret_run] by simp

section \<open>This program's client and server\<close>

lemma talks_counted:
  "length bs = unat n \<Longrightarrow> talks (a, k bs, x, y) s \<Longrightarrow> talks (a, readCounted n k, x, bs @ y) s"
  by (cases "n = 0") (simp_all add: readCounted_def talks_right_take)

lemma talks_target:
  assumes "wf_address t" and "talks (a, k t, x, y) s"
  shows "talks (a, s5_target (hd (s5_addr t)) k, x, tl (s5_addr t) @ y) s"
  using assms(1)
proof (cases rule: wf_cases)
  case (v4 b p)
  then show ?thesis
    using talks_right_take [of "b @ [ucast (drop_bit 8 p), ucast p]" 6 a _ x y s s5_drop] assms(2)
    by (simp add: s5_target_def s5_addr_def nth_append port_from_bytes)
next
  case (v6 b p)
  then show ?thesis
    using talks_right_take [of "b @ [ucast (drop_bit 8 p), ucast p]" 18 a _ x y s s5_drop] assms(2)
    by (simp add: s5_target_def s5_addr_def nth_append port_from_bytes)
next
  case (name d p)
  have "talks (a, readExact 1 s5_drop (\<lambda>dlen. readCounted (dlen ! 0) (\<lambda>d.
        readExact 2 s5_drop (\<lambda>pb. k (fromDomain (as_string d) (port_from (pb ! 0) (pb ! 1)))))),
      x, [of_nat (length d)] @ as_bytes d @ [ucast (drop_bit 8 p), ucast p] @ y) s"
    using name assms(2)
    by (intro talks_right_take talks_counted) (simp_all add: unat_of_length port_from_bytes)
  then show ?thesis using name by (simp add: s5_target_def s5_addr_def)
qed

lemma talks_request:
  assumes "wf_address t" and "talks (a, Ret (S5Connect (s5_tcp_request cfg t)), x @ [5, 0, 0, 1, 0, 0, 0, 0, 0, 0], y) s"
  shows "talks (a, s5_request cfg bound, x, [5, 1, 0] @ s5_addr t @ y) s"
proof -
  have "talks (a, s5_request cfg bound, x, [5, 1, 0, hd (s5_addr t)] @ tl (s5_addr t) @ y) s"
    unfolding s5_request_def
    using assms by (intro talks_right_take) (simp_all add: Let_def talks_target talks_right_write)
  then show ?thesis using s5_addr_split [of t] by (metis append_Cons append_Nil)
qed

lemma talks_auth:
  assumes "length (in_user cfg) \<le> 255" "length (in_pass cfg) \<le> 255" and "talks (a, k, x @ [1, 0], y) s"
  shows "talks (a, s5_auth cfg k, x, [1] @ [of_nat (length (in_user cfg))] @ as_bytes (in_user cfg) @
      [of_nat (length (in_pass cfg))] @ as_bytes (in_pass cfg) @ y) s"
  unfolding s5_auth_def
  by (rule talks_right_take, simp, simp only: nth_Cons_0 simp_thms if_False, rule talks_right_take, simp,
      simp only: nth_Cons_0, rule talks_counted, simp add: unat_of_length assms, rule talks_right_take, simp,
      simp only: nth_Cons_0, rule talks_counted, simp add: unat_of_length assms)
     (simp add: Let_def talks_right_write assms)

lemma talks_greeted:
  assumes "auth_method cfg \<in> set ms" and "length ms \<le> 255"
    and "talks (a, if s5_require_auth cfg then s5_auth cfg (s5_request cfg bound) else s5_request cfg bound,
      x @ [5, auth_method cfg], y) s"
  shows "talks (a, socks5_handleClient cfg bound, x, [5, of_nat (length ms)] @ ms @ y) s"
proof -
  have ms: "unat (of_nat (length ms) :: u8) = length ms" "(of_nat (length ms) :: u8) \<noteq> 0"
    using assms(1,2) unat_of_length [OF assms(2)] by (auto dest: arg_cong [where f = unat])
  have "choose_method (s5_require_auth cfg) ms = auth_method cfg" "auth_method cfg \<noteq> 0xFF"
    using assms(1) by (simp_all add: choose_method_spec auth_method_def)
  then show ?thesis
    unfolding socks5_handleClient_def using assms(3) ms
    by (intro talks_right_take) (simp_all add: Let_def talks_right_take talks_right_write)
qed

lemma talks_reply:
  "talks (Ret (Inr ()), b, x, y) s \<Longrightarrow> talks (s5_read_reply, b, [5, 0, 0, 1] @ [0, 0, 0, 0, 0, 0] @ x, y) s"
  unfolding s5_read_reply_def by (intro talks_left_take) (simp_all add: Let_def talks_left_read)

text \<open>C23. The program's own SOCKS5 client and server understand each other when credentials are set: if
  an outbound and an inbound are configured with the same user name (not empty) and password, of
  at most 255 bytes each, then however the steps of the two handshakes on one connection
  interleave, they can go on until the client has succeeded and the server has handed on a TCP
  request for exactly the client's target, with no byte left over in either direction.\<close>

theorem socks5_chain:
  assumes "wf_address t" and "out_user oc \<noteq> []" and "in_user ic = out_user oc" and "in_pass ic = out_pass oc"
    and "length (out_user oc) \<le> 255" and "length (out_pass oc) \<le> 255"
    and "talks (socks5_client oc t, socks5_handleClient ic bound, [], []) u"
  shows "talks u (Ret (Inr ()), Ret (S5Connect (s5_tcp_request ic t)), [], [])"
proof -
  have auth: "s5_require_auth ic" using assms(2,3) by (simp add: s5_require_auth_def)
  have cred: "s5_credentials oc = [1] @ [of_nat (length (in_user ic))] @ as_bytes (in_user ic) @
      [of_nat (length (in_pass ic))] @ as_bytes (in_pass ic) @ []"
    using assms(3,4) by (simp add: s5_credentials_def)
  let ?fin = "(Ret (Inr ()), Ret (S5Connect (s5_tcp_request ic t)), [], []) :: (unit result, s5_end) talk"
  let ?request = "writeAll (s5_connect_frame t) s5_fail s5_read_reply"
  have request: "talks (?request, s5_request ic bound, [], []) ?fin"
    using talks_reply [of "Ret (S5Connect (s5_tcp_request ic t))" "[]" "[]" ?fin]
      talks_request [OF assms(1), of s5_read_reply ic "[]" "[]" ?fin bound]
    by (intro talks_left_write) (simp add: connect_frame_addr [OF assms(1)])
  have answered: "talks (readExact 2 s5_fail (\<lambda>ar. if ar ! 1 \<noteq> 0 then Ret (Inl (UnauthenticatedError ''socks5 auth failed''))
       else ?request), s5_request ic bound, [] @ [1, 0], []) ?fin"
    using request talks_left_take [of "[1, 0]" 2 _ "s5_request ic bound" "[]" "[]" ?fin s5_fail] by simp
  have login: "talks (writeAll (s5_credentials oc) s5_fail
      (readExact 2 s5_fail (\<lambda>ar. if ar ! 1 \<noteq> 0 then Ret (Inl (UnauthenticatedError ''socks5 auth failed'')) else ?request)),
      s5_auth ic (s5_request ic bound), [], []) ?fin"
    using talks_auth [of ic _ "s5_request ic bound" "[]" "[]" ?fin, OF _ _ answered] assms(3-6)
    by (intro talks_left_write) (simp only: cred append_Nil)
  have "talks (socks5_client oc t, socks5_handleClient ic bound, [], []) ?fin"
  proof -
    have "talks (readExact 2 s5_fail k, socks5_handleClient ic bound, [], [5, 2] @ [0, 2] @ []) ?fin"
      if "talks (k [5, 2], s5_auth ic (s5_request ic bound), [], []) ?fin" for k
      using that auth talks_left_take [of "[5, 2]" 2 k _ "[]" "[]" ?fin s5_fail]
        talks_greeted [of ic "[0, 2]" "readExact 2 s5_fail k" bound "[]" "[]" ?fin]
      by (simp add: auth_method_def)
    then show ?thesis
      unfolding socks5_client_def Let_def using login assms(2) by (intro talks_left_write) simp
  qed
  then show ?thesis using assms(7) by (rule ends_always)
qed

definition secret_outbound :: outbound_config where
  "secret_outbound = default_outbound_config\<lparr>out_user := ''u'', out_pass := ''pw''\<rparr>"

theorem socks5_chain_witness:
  "talks (socks5_client secret_outbound (fromDomain ''a.b'' 443), socks5_handleClient secret_inbound (Inl ''none''), [], [])
     (Ret (Inr ()), Ret (S5Connect (s5_tcp_request secret_inbound (fromDomain ''a.b'' 443))), [], [])"
proof (rule socks5_chain [where oc = secret_outbound and bound = "Inl ''none''"])
  show "wf_address (fromDomain ''a.b'' 443)" by simp
qed (simp_all add: secret_outbound_def secret_inbound_def)

text \<open>Without a user name the client announces two methods but sends only one byte of them: against
  this program's own server both sides wait for the other for ever.\<close>

lemma socks5_greeting_deadlock:
  assumes "out_user oc = []"
  shows "\<exists>c s q. talks (socks5_client oc t, socks5_handleClient ic bound, [], []) (c, s, [], q) \<and>
    (\<forall>z. \<not> talk_step (c, s, [], q) z)"
proof -
  let ?cont = "\<lambda>methods. let chosen = choose_method (s5_require_auth ic) methods in
     writeAll [0x05, chosen] s5_drop
       (if chosen = 0xFF then Ret S5Dropped
        else if s5_require_auth ic then s5_auth ic (s5_request ic bound) else s5_request ic bound)"
  obtain k where client: "socks5_client oc t = writeAll [5, 2, 0] s5_fail (readExact 2 s5_fail k)"
    using assms by (simp add: socks5_client_def Let_def)
  have server: "talks (a, socks5_handleClient ic bound, x, [5, 2] @ y) z"
    if "talks (a, readExact 2 s5_drop ?cont, x, y) z" for a x y z
    using that unfolding socks5_handleClient_def by (intro talks_right_take) (simp_all add: Let_def)
  have "talks (socks5_client oc t, socks5_handleClient ic bound, [], [])
     (readExact 2 s5_fail k, readExact 2 s5_drop ?cont, [], [0])"
    unfolding client
    using server [of "readExact 2 s5_fail k" "[]" "[0]"] by (intro talks_left_write) simp
  moreover have "\<not> talk_step (readExact 2 s5_fail k, readExact 2 s5_drop ?cont, [], [0]) z" for z
    by (rule both_waiting) simp_all
  ultimately show ?thesis by blast
qed

section \<open>Datagrams of an association\<close>

lemma parse_datagram_addr:
  assumes "wf_address a"
  shows "parse_datagram ([0, 0, 0] @ s5_addr a @ data) = Some (as_string data, a)"
  using assms
proof (cases rule: wf_cases)
  case (v4 b p)
  then show ?thesis by (simp add: parse_datagram_def s5_addr_def Let_def nth_append port_from_bytes)
next
  case (v6 b p)
  then show ?thesis by (simp add: parse_datagram_def s5_addr_def Let_def nth_append port_from_bytes)
next
  case (name d p)
  then show ?thesis by (simp add: parse_datagram_def s5_addr_def Let_def nth_append port_from_bytes unat_of_length drop_Cons')
qed

lemma pinned_again: "u\<lparr>us_client_ep := us_client_ep u\<rparr> = (u :: s5_udp)"
  by simp

lemma s5_receive_simps:
  "s5_receiveFrom [] u = (if us_open u then None else Some (Inl (UnavailableError ''closed''), u, []))"
  "us_open u \<Longrightarrow> s5_receiveFrom (Inl e # rxs) u = Some (Inl (UnavailableError e), u, rxs)"
  "us_open u \<Longrightarrow> ep_port (us_client_ep u) \<noteq> 0 \<Longrightarrow> sender \<noteq> us_client_ep u \<Longrightarrow>
     s5_receiveFrom (Inr (sender, buf) # rxs) u = s5_receiveFrom rxs u"
  "us_open u \<Longrightarrow> ep_port (us_client_ep u) = 0 \<or> sender = us_client_ep u \<Longrightarrow>
     s5_receiveFrom (Inr (sender, buf) # rxs) u =
       (case parse_datagram buf of
          None \<Rightarrow> s5_receiveFrom rxs (u\<lparr>us_client_ep := sender\<rparr>)
        | Some d \<Rightarrow> Some (Inr d, u\<lparr>us_client_ep := sender\<rparr>, rxs))"
  by (subst s5_receiveFrom.simps, auto simp: Let_def pinned_again split: option.split)+

lemma s5_receive_open: "s5_receiveFrom rxs u = Some (Inr d, u', rest) \<Longrightarrow> us_open u"
  by (auto simp: s5_receiveFrom.simps split: if_splits)

text \<open>C28. An association serves one sender only: a datagram that \<^verbatim>\<open>receiveFrom\<close> returns is the parsed
  content of a datagram that arrived, from the sender the association is now pinned to; a sender
  that was pinned before stays the only one; and every datagram that was passed over came from
  another sender or was malformed.\<close>

theorem s5_receive_pinned:
  assumes "s5_receiveFrom rxs u = Some (Inr d, u', rest)"
  shows "\<exists>skipped sender buf. rxs = skipped @ Inr (sender, buf) # rest \<and> parse_datagram buf = Some d \<and>
    us_client_ep u' = sender \<and> (ep_port (us_client_ep u) \<noteq> 0 \<longrightarrow> sender = us_client_ep u) \<and>
    (\<forall>x \<in> set skipped. \<exists>s b. x = Inr (s, b) \<and> (s \<noteq> sender \<or> parse_datagram b = None))"
  using assms
proof (induction rxs arbitrary: u)
  case Nil
  then show ?case by (simp add: s5_receive_simps split: if_splits)
next
  case (Cons x rxs)
  note opened = s5_receive_open [OF Cons.prems]
  obtain s b where x: "x = Inr (s, b)"
    using Cons.prems opened by (cases x) (auto simp: s5_receive_simps)
  consider (other) "ep_port (us_client_ep u) \<noteq> 0" "s \<noteq> us_client_ep u"
    | (bad) "ep_port (us_client_ep u) = 0 \<or> s = us_client_ep u" "parse_datagram b = None"
    | (good) "ep_port (us_client_ep u) = 0 \<or> s = us_client_ep u" "parse_datagram b \<noteq> None"
    by blast
  then show ?case
  proof cases
    case other
    then obtain skipped sender buf where "rxs = skipped @ Inr (sender, buf) # rest" "parse_datagram buf = Some d"
      "us_client_ep u' = sender" "sender = us_client_ep u"
      "\<forall>x \<in> set skipped. \<exists>s b. x = Inr (s, b) \<and> (s \<noteq> sender \<or> parse_datagram b = None)"
      using Cons.IH [of u] Cons.prems opened by (auto simp: x s5_receive_simps)
    with other x show ?thesis by (intro exI [of _ "x # skipped"] exI [of _ sender] exI [of _ buf]) simp
  next
    case bad
    then obtain skipped sender buf where "rxs = skipped @ Inr (sender, buf) # rest" "parse_datagram buf = Some d"
      "us_client_ep u' = sender" "ep_port s \<noteq> 0 \<longrightarrow> sender = s"
      "\<forall>x \<in> set skipped. \<exists>s b. x = Inr (s, b) \<and> (s \<noteq> sender \<or> parse_datagram b = None)"
      using Cons.IH [of "u\<lparr>us_client_ep := s\<rparr>"] Cons.prems opened by (auto simp: x s5_receive_simps)
    with bad x show ?thesis by (intro exI [of _ "x # skipped"] exI [of _ sender] exI [of _ buf]) auto
  next
    case good
    then have "parse_datagram b = Some d" "us_client_ep u' = s" "rest = rxs"
      using Cons.prems opened by (auto simp: x s5_receive_simps)
    with good x show ?thesis by (intro exI [of _ "[]"] exI [of _ s] exI [of _ b]) auto
  qed
qed

definition client_ep :: endpoint where
  "client_ep = \<lparr>ep_addr = IpV4 [10, 0, 0, 2], ep_port = 5000\<rparr>"

definition other_ep :: endpoint where
  "other_ep = \<lparr>ep_addr = IpV4 [10, 0, 0, 9], ep_port = 5000\<rparr>"

lemma receive_example:
  "s5_receiveFrom [Inr (client_ep, [9]), Inr (other_ep, [0, 0, 0] @ s5_addr (fromDomain ''a'' 53) @ [1]),
      Inr (client_ep, [0, 0, 0] @ s5_addr (fromDomain ''b'' 53) @ [2])] new_s5_udp
   = Some (Inr (as_string [2], fromDomain ''b'' 53), new_s5_udp\<lparr>us_client_ep := client_ep\<rparr>, [])"
  by code_simp

theorem s5_receive_pinned_witness:
  "\<exists>skipped sender buf. [Inr (client_ep, [9]), Inr (other_ep, [0, 0, 0] @ s5_addr (fromDomain ''a'' 53) @ [1]),
      Inr (client_ep, [0, 0, 0] @ s5_addr (fromDomain ''b'' 53) @ [2])] = skipped @ [Inr (sender, buf)] \<and>
    parse_datagram buf = Some (as_string [2], fromDomain ''b'' 53) \<and> sender = client_ep"
  using s5_receive_pinned [OF receive_example] by auto

text \<open>What \<^verbatim>\<open>sendTo\<close> writes for an IPv4 source is not what RFC 1928 asks for: it has a length byte in front
  of the address, so a client that parses as the RFC (or this program) says gets a shifted address.\<close>

lemma s5_sendTo_shifted:
  assumes "length b = 4" and "us_open u"
  shows "\<exists>frame. snd (s5_sendTo io data (fromIPv4 b p) u) = Some (frame, us_client_ep u) \<and>
    parse_datagram frame =
      Some (as_string (ucast p # data), fromIPv4 (4 # take 3 b) (port_from (b ! 3) (ucast (drop_bit 8 p))))"
proof -
  obtain b0 b1 b2 b3 where b: "b = [b0, b1, b2, b3]"
    using assms(1) by (auto simp: eval_nat_numeral length_Suc_conv)
  show ?thesis using assms(2)
    by (simp add: b s5_sendTo_def toBinary_def parse_datagram_def Let_def ucast_and_0xff fromIPv4_def no_address_def)
qed

text \<open>The injected first datagram comes out first; then the stream behaves as its inner one.\<close>

lemma injected_first:
  "injected_receiveFrom recv \<lparr>inj_inner = i, inj_first = Some d\<rparr> = Done (Inr d, \<lparr>inj_inner = i, inj_first = None\<rparr>)"
  "recv i = Done (r, i') \<Longrightarrow>
   injected_receiveFrom recv \<lparr>inj_inner = i, inj_first = None\<rparr> = Done (r, \<lparr>inj_inner = i', inj_first = None\<rparr>)"
  by (simp_all add: injected_receiveFrom_def)

end
