(* ===== verification/Shine_Inbound.thy ===== *)
theory Shine_Inbound
  imports Shine_Outbound Socks5 Flow
begin

text \<open>
  Model of \<^verbatim>\<open>inbound/shine_inbound.cpp\<close>: the inbound that accepts links and turns the sessions their peers
  open into requests. Starting to listen is \<open>shine_start\<close>. The lemmas show what request a session
  becomes and that the inbound's list of links does not keep closed ones.
\<close>

record 'q shine_inbound =
  si_cfg :: inbound_config
  si_acceptor :: acceptor
  si_list :: "nat list"
  si_links :: "'q link list"

definition server_options :: "inbound_config \<Rightarrow> string \<Rightarrow> link_options" where
  "server_options cfg label =
     default_link_options
       \<lparr>opt_peer_label := label, opt_password := in_password cfg, opt_init_window := in_init_window cfg,
        opt_ping_interval := in_ping_interval cfg, opt_pong_timeout := in_pong_timeout cfg,
        opt_handshake_timeout := in_handshake_timeout cfg, opt_max_payload := unat (in_max_payload cfg),
        opt_is_server := True\<rparr>"

text \<open>One round of \<^verbatim>\<open>acceptLoop\<close> with an accepted socket; \<open>label\<close> is the text of the peer's endpoint.\<close>

definition accept_link :: "'q chan_api \<Rightarrow> u64 \<Rightarrow> string \<Rightarrow> 'q shine_inbound \<Rightarrow> 'q shine_inbound" where
  "accept_link C now label ib =
     (let link = link_start now True (new_link C (server_options (si_cfg ib) label));
          ref = length (si_links ib);
          links = si_links ib @ [link]
      in ib\<lparr>si_links := links, si_list := filter (\<lambda>r. \<not> lk_closed (links ! r)) (si_list ib) @ [ref]\<rparr>)"

text \<open>\<^verbatim>\<open>acceptLoop\<close> over the results of its accepts: an error ends it, and it looks at the flag before each.\<close>

fun shine_accept_loop ::
  "'q chan_api \<Rightarrow> (string + u64 \<times> string) list \<Rightarrow> 'q shine_inbound \<Rightarrow> 'q shine_inbound"
where
  "shine_accept_loop C [] ib = ib"
| "shine_accept_loop C (r # rs) ib =
     (if acc_stopping (si_acceptor ib) then ib
      else case r of Inl e \<Rightarrow> ib | Inr (now, label) \<Rightarrow> shine_accept_loop C rs (accept_link C now label ib))"

definition shine_stop :: "'q shine_inbound \<Rightarrow> 'q shine_inbound" where
  "shine_stop ib =
     ib\<lparr>si_acceptor := stop_acceptor (si_acceptor ib),
        si_links := close_all (si_list ib) (si_links ib), si_list := []\<rparr>"

text \<open>The handler of a new session: a request for the target of the session, or for UDP one for the
  target of the first datagram, with that datagram in front of the stream again.\<close>

definition shine_request :: "inbound_config \<Rightarrow> protocol \<Rightarrow> address \<Rightarrow> session_request" where
  "shine_request cfg proto target =
     \<lparr>rq_inbound_tag = in_tag cfg, rq_inbound_protocol = in_protocol cfg, rq_protocol = proto, rq_target = target\<rparr>"

datatype 'q client_side = ClientStream "'q session" | ClientDatagrams "'q session injected"

definition on_session ::
  "'q chan_api \<Rightarrow> inbound_config \<Rightarrow> 'q session \<Rightarrow> address
   \<Rightarrow> (session_request \<times> 'q client_side) option outcome"
where
  "on_session C cfg s t =
     (if sess_protocol s = UDP then
        case receiveFrom C s of
          Waiting \<Rightarrow> Waiting
        | Crash \<Rightarrow> Crash
        | Done (Inl e, s) \<Rightarrow> Done None
        | Done (Inr first, s) \<Rightarrow>
            Done (Some (shine_request cfg UDP (snd first), ClientDatagrams \<lparr>inj_inner = s, inj_first = Some first\<rparr>))
      else Done (Some (shine_request cfg TCP t, ClientStream s)))"

section \<open>The list of links\<close>

definition inbound_inv :: "'q shine_inbound \<Rightarrow> bool" where
  "inbound_inv ib \<longleftrightarrow> distinct (si_list ib) \<and> (\<forall>r \<in> set (si_list ib). r < length (si_links ib))"

lemma accept_link_inv:
  assumes "inbound_inv ib" shows "inbound_inv (accept_link C now label ib)"
  using assms by (auto simp: inbound_inv_def accept_link_def Let_def less_Suc_eq)

lemma shine_accept_loop_inv: "inbound_inv ib \<Longrightarrow> inbound_inv (shine_accept_loop C rs ib)"
  by (induction C rs ib rule: shine_accept_loop.induct) (auto simp: accept_link_inv split: sum.splits)

lemma accept_link_open:
  assumes "inbound_inv ib" and "r \<in> set (si_list (accept_link C now label ib))"
  shows "\<not> lk_closed (si_links (accept_link C now label ib) ! r)"
  using assms by (auto simp: accept_link_def Let_def new_link_def link_start_def)

lemma shine_stop_closes:
  assumes "inbound_inv ib" and "r \<in> set (si_list ib)"
  shows "lk_closed (si_links (shine_stop ib) ! r) \<and> acc_stopping (si_acceptor (shine_stop ib))"
  using assms close_all_closed [of r "si_links ib" "si_list ib"]
  by (simp add: inbound_inv_def shine_stop_def stop_acceptor_def)

section \<open>From a request at one end of a link to a request at the other\<close>

lemma read_encoded: "absl_laws L \<Longrightarrow> frame_fits m f \<Longrightarrow> read_frame L m (encodeFrame L f) = Some f"
  using parse_encoded [of L m f "[]"] by (auto simp: read_frame_def)

lemma toBinary_length: "length (toBinary a) \<le> 259"
  by (cases "addr_type a") (simp_all add: toBinary_def Let_def)

lemma new_frame_arrives:
  assumes "absl_laws L" and "259 \<le> m"
  shows "read_frame L m (encodeNew L [] sid (toBinary t) w) = Some (NewFrame sid (toBinary t) w)"
    and "read_frame L m (encodeNewUdp L [] sid) = Some (NewUdpFrame sid)"
  using read_encoded [OF assms(1), of m "NewFrame sid (toBinary t) w"] read_encoded [OF assms(1), of m "NewUdpFrame sid"]
    toBinary_length [of t] assms(2)
  by (simp_all add: frame_fits_def resp2_valid_def)

lemma udp_frame_arrives:
  assumes "absl_laws L" and "259 \<le> m" and "length data \<le> m" and "length data < 2 ^ 63"
  shows "read_frame L m (encodeUdpData L [] sid (toBinary t) data) = Some (UdpDataFrame sid (toBinary t) data)"
  using read_encoded [OF assms(1), of m "UdpDataFrame sid (toBinary t) data"] toBinary_length [of t] assms(2-4)
  by (simp add: frame_fits_def resp2_valid_def)

text \<open>The session a NEW or NEW\_UDP frame makes at the accepting end.\<close>

definition accepted :: "'q chan_api \<Rightarrow> u64 \<Rightarrow> address \<Rightarrow> u32 \<Rightarrow> protocol \<Rightarrow> 'q link \<Rightarrow> 'q link" where
  "accepted C sid t w proto l =
     l\<lparr>lk_store := lk_store l @ [new_session C sid t w (opt_init_window (lk_opts l)) proto],
       lk_sessions := (sid, length (lk_store l)) # lk_sessions l\<rparr>"

lemma newSession_accepted:
  assumes "findSession sid l = None"
  shows "newSession C L sid t w proto l =
    (accepted C sid t w proto l, [SendFrame (encodeAck L [] sid), SpawnHandler (length (lk_store l)) t])"
  using assms by (simp add: newSession_def emplaceSession_def accepted_def findSession_def Let_def)

lemma accepted_session:
  "findSession sid (accepted C sid t w proto l) = Some (length (lk_store l))"
  "lk_store (accepted C sid t w proto l) ! length (lk_store l) = new_session C sid t w (opt_init_window (lk_opts l)) proto"
  by (simp_all add: accepted_def findSession_def)

lemma dispatch_new:
  assumes "lk_has_handler l" and "findSession sid l = None" and "wf_address t"
  shows "dispatchFrame C L now (NewFrame sid (toBinary t) w) l =
      Done (accepted C sid t w TCP l, [SendFrame (encodeAck L [] sid), SpawnHandler (length (lk_store l)) t])"
    and "dispatchFrame C L now (NewUdpFrame sid) l =
      Done (accepted C sid no_address 0 UDP l, [SendFrame (encodeAck L [] sid), SpawnHandler (length (lk_store l)) no_address])"
  using assms parseBinary_toBinary [OF assms(3), of "[]"] newSession_accepted [OF assms(2)]
  by (simp_all add: dispatchFrame_def)

lemma first_datagram:
  assumes "chan_laws C contents capacity shut"
  shows "\<exists>s. on_session C cfg (onUdpData C payload t (new_session C sid a w v UDP)) a' =
    Done (Some (shine_request cfg UDP t, ClientDatagrams \<lparr>inj_inner = s, inj_first = Some (payload, t)\<rparr>))"
proof -
  let ?q = "ch_try_send C (UdpMsg payload t) (ch_new C 1024)"
  have "contents ?q = [UdpMsg payload t]" "\<not> shut ?q"
    using chan_laws.try_send_room [OF assms, of "ch_new C 1024" "UdpMsg payload t"] chan_laws.new_chan [OF assms, of 1024] by simp_all
  then obtain q' where "ch_receive C ?q = Some (Some (UdpMsg payload t), q')"
    using chan_laws.receive_ready [OF assms] by blast
  then show ?thesis by (simp add: on_session_def receiveFrom_def onUdpData_def new_session_def)
qed

text \<open>The way of a request from the outbound at one end of a link to the handler at the other: the frame
  that opens the session, then for UDP the first datagram, each read from its bytes with the
  peer's limit and dispatched there.\<close>

definition deliver :: "'q chan_api \<Rightarrow> absl \<Rightarrow> nat \<Rightarrow> u64 \<Rightarrow> string \<Rightarrow> 'q link \<Rightarrow> ('q link \<times> link_action list) option" where
  "deliver C L m now wire l =
     (case read_frame L m wire of
        None \<Rightarrow> None
      | Some f \<Rightarrow> (case dispatchFrame C L now f l of Done r \<Rightarrow> Some r | _ \<Rightarrow> None))"

definition shine_hop ::
  "'q chan_api \<Rightarrow> absl \<Rightarrow> nat \<Rightarrow> u64 \<Rightarrow> u64 \<Rightarrow> inbound_config \<Rightarrow> session_request \<Rightarrow> bytes \<Rightarrow> 'q link \<Rightarrow> 'q link
   \<Rightarrow> (session_request \<times> 'q client_side) option"
where
  "shine_hop C L m now sid cfg r data lc ls =
     (case openSession C L sid (rq_target r) (rq_protocol r = UDP) lc of
        Inr (ref, lc, [SendFrame wire]) \<Rightarrow>
          (case deliver C L m now wire ls of
             Some (ls, [ack, SpawnHandler ref' t]) \<Rightarrow>
               (if rq_protocol r = UDP then
                  case sendTo L (view_of lc) data (rq_target r) (lk_store lc ! ref) of
                    (Inr u, s, [EnqueueFrame w]) \<Rightarrow>
                      (case deliver C L m now w ls of
                         Some (ls, []) \<Rightarrow>
                           (case on_session C cfg (lk_store ls ! ref') t of Done x \<Rightarrow> x | _ \<Rightarrow> None)
                       | _ \<Rightarrow> None)
                  | _ \<Rightarrow> None
                else (case on_session C cfg (lk_store ls ! ref') t of Done x \<Rightarrow> x | _ \<Rightarrow> None))
           | _ \<Rightarrow> None)
      | _ \<Rightarrow> None)"

lemma openSession_open:
  assumes "\<not> lk_closed l"
  shows "\<exists>l'. openSession C L sid t udp l = Inr (length (lk_store l), l',
      [SendFrame (if udp then encodeNewUdp L [] sid else encodeNew L [] sid (toBinary t) (opt_init_window (lk_opts l)))])
    \<and> \<not> lk_closed l' \<and> lk_store l' ! length (lk_store l) =
        new_session C sid t (opt_init_window (lk_opts l)) (opt_init_window (lk_opts l)) (if udp then UDP else TCP)"
  using assms by (simp add: openSession_def emplaceSession_def Let_def)

lemma hop_tcp:
  assumes "absl_laws L" and "rq_protocol r = TCP" and "wf_address (rq_target r)" and "\<not> lk_closed lc"
    and "lk_has_handler ls" and "findSession sid ls = None" and "259 \<le> m"
  shows "\<exists>s. shine_hop C L m now sid cfg r data lc ls = Some (shine_request cfg TCP (rq_target r), ClientStream s)"
proof -
  obtain l' where "openSession C L sid (rq_target r) False lc =
      Inr (length (lk_store lc), l', [SendFrame (encodeNew L [] sid (toBinary (rq_target r)) (opt_init_window (lk_opts lc)))])"
    using openSession_open [OF assms(4), of C L sid "rq_target r" False] by auto
  moreover have "deliver C L m now (encodeNew L [] sid (toBinary (rq_target r)) w) ls =
      Some (accepted C sid (rq_target r) w TCP ls, [SendFrame (encodeAck L [] sid), SpawnHandler (length (lk_store ls)) (rq_target r)])" for w
    using new_frame_arrives(1) [OF assms(1,7)] dispatch_new(1) [OF assms(5,6,3)] by (simp add: deliver_def)
  ultimately show ?thesis
    using assms(2) by (simp add: shine_hop_def accepted_session on_session_def new_session_def)
qed

lemma hop_udp:
  assumes "absl_laws L" and "chan_laws C contents capacity shut" and "rq_protocol r = UDP"
    and "wf_address (rq_target r)" and "\<not> lk_closed lc"
    and "lk_has_handler ls" and "findSession sid ls = None" and "259 \<le> m" and "length data \<le> m" and "length data < 2 ^ 63"
  shows "\<exists>s. shine_hop C L m now sid cfg r data lc ls =
    Some (shine_request cfg UDP (rq_target r), ClientDatagrams \<lparr>inj_inner = s, inj_first = Some (as_string data, rq_target r)\<rparr>)"
proof -
  let ?t = "rq_target r" and ?n = "length (lk_store ls)"
  let ?ls = "accepted C sid no_address 0 UDP ls" and ?w = "encodeUdpData L [] sid (toBinary ?t) (as_string data)"
  obtain l' where l': "openSession C L sid ?t True lc = Inr (length (lk_store lc), l', [SendFrame (encodeNewUdp L [] sid)])"
    "\<not> lk_closed l'" "lk_store l' ! length (lk_store lc) =
        new_session C sid ?t (opt_init_window (lk_opts lc)) (opt_init_window (lk_opts lc)) UDP"
    using openSession_open [OF assms(5), of C L sid ?t True] by auto
  have new: "deliver C L m now (encodeNewUdp L [] sid) ls =
      Some (?ls, [SendFrame (encodeAck L [] sid), SpawnHandler ?n no_address])"
    using new_frame_arrives(2) [OF assms(1,8)] dispatch_new(2) [OF assms(6,7,4)] by (simp add: deliver_def)
  have sent: "\<exists>s. sendTo L (view_of l') data ?t (lk_store l' ! length (lk_store lc)) = (Inr (), s, [EnqueueFrame ?w])"
    using l'(2,3) by (simp add: sendTo_def view_of_def new_session_def)
  have data: "deliver C L m now ?w ?ls =
      Some (?ls\<lparr>lk_store := (lk_store ?ls)[?n := onUdpData C (as_string data) ?t (lk_store ?ls ! ?n)]\<rparr>, [])"
    using udp_frame_arrives [OF assms(1,8), of "as_string data" sid ?t] assms(9,10) parseBinary_toBinary [OF assms(4), of "[]"]
    by (simp add: deliver_def dispatchFrame_def accepted_session)
  have "?n < length (lk_store ?ls)" by (simp add: accepted_def)
  then show ?thesis
    using sent l'(1) new data assms(3)
      first_datagram [OF assms(2), of cfg "as_string data" ?t sid no_address 0 "opt_init_window (lk_opts ls)" no_address]
    by (auto simp: shine_hop_def accepted_session)
qed

end
