(* ===== verification/Datagrams.thy ===== *)
theory Datagrams
  imports Shine_Inbound
begin

text \<open>
  One direction of a UDP session between two ends of a link, as a transition system over the session
  methods: the sending end calls \<^verbatim>\<open>sendTo\<close>, its frames travel in order to the receiving end, whose
  reader calls \<^verbatim>\<open>onUdpData\<close> and whose user calls \<^verbatim>\<open>receiveFrom\<close>. Datagrams may be lost, by a full inbox,
  a closed session or a failed link, as datagrams may. The invariant shows that this is all that
  happens to them.
\<close>

type_synonym datagram = "string \<times> address"

record 'q dgrams =
  dt_sender :: "'q session"
  dt_receiver :: "'q session"
  dt_frames :: "string list"
  dt_sent :: "datagram list"
  dt_got :: "datagram list"

definition dgrams_init :: "'q chan_api \<Rightarrow> u64 \<Rightarrow> address \<Rightarrow> u32 \<Rightarrow> u32 \<Rightarrow> 'q dgrams" where
  "dgrams_init C sid target near_window far_window =
     \<lparr>dt_sender = new_session C sid target near_window near_window UDP,
      dt_receiver = new_session C sid no_address 0 far_window UDP,
      dt_frames = [], dt_sent = [], dt_got = []\<rparr>"

text \<open>The ways a session ends.\<close>

inductive session_ends :: "'q chan_api \<Rightarrow> absl \<Rightarrow> 'q session \<Rightarrow> 'q session \<Rightarrow> bool" for C L where
  ends_peer: "session_ends C L s (onPeerClose C s)"
| ends_reset: "session_ends C L s (onReset C s)"
| ends_close: "session_ends C L s (fst (session_close C L lk s))"
| ends_write: "session_ends C L s (fst (shutdownWrite L lk s))"

inductive dgram_step :: "'q chan_api \<Rightarrow> absl \<Rightarrow> nat \<Rightarrow> 'q dgrams \<Rightarrow> 'q dgrams \<Rightarrow> bool"
  for C :: "'q chan_api" and L :: absl and m :: nat
where
  dg_send:
    "wf_address target \<Longrightarrow> length d \<le> m \<Longrightarrow> length d < 2 ^ 63
     \<Longrightarrow> sendTo L lk d target (dt_sender st) = (Inr (), a, calls)
     \<Longrightarrow> dgram_step C L m st
       (st\<lparr>dt_sender := a, dt_frames := dt_frames st @ enqueued calls,
           dt_sent := dt_sent st @ [(as_string d, target)]\<rparr>)"
| dg_arrive:
    "dt_frames st = w # ws
     \<Longrightarrow> read_frame L m w = Some (UdpDataFrame (sess_sid (dt_receiver st)) blob p)
     \<Longrightarrow> parseBinary blob = Inr addr
     \<Longrightarrow> dgram_step C L m st
       (st\<lparr>dt_receiver := onUdpData C p addr (dt_receiver st), dt_frames := ws\<rparr>)"
| dg_receive:
    "receiveFrom C (dt_receiver st) = Done (Inr dg, b)
     \<Longrightarrow> dgram_step C L m st (st\<lparr>dt_receiver := b, dt_got := dt_got st @ [dg]\<rparr>)"
| dg_refused:
    "receiveFrom C (dt_receiver st) = Done (Inl e, b) \<Longrightarrow> dgram_step C L m st (st\<lparr>dt_receiver := b\<rparr>)"
| dg_cut: "dgram_step C L m st (st\<lparr>dt_frames := []\<rparr>)"
| dg_sender_ends: "session_ends C L (dt_sender st) a \<Longrightarrow> dgram_step C L m st (st\<lparr>dt_sender := a\<rparr>)"
| dg_receiver_ends: "session_ends C L (dt_receiver st) b \<Longrightarrow> dgram_step C L m st (st\<lparr>dt_receiver := b\<rparr>)"

section \<open>The invariant\<close>

definition udp_wire :: "absl \<Rightarrow> u64 \<Rightarrow> datagram \<Rightarrow> string" where
  "udp_wire L sid dg = encodeUdpData L [] sid (toBinary (snd dg)) (fst dg)"

definition good_datagram :: "nat \<Rightarrow> datagram \<Rightarrow> bool" where
  "good_datagram m dg \<longleftrightarrow> wf_address (snd dg) \<and> length (fst dg) \<le> m \<and> length (fst dg) < 2 ^ 63"

lemma sendTo_sent:
  "sendTo L lk d target s = (Inr (), s', calls) \<Longrightarrow>
   enqueued calls = [udp_wire L (sess_sid s) (as_string d, target)] \<and> sess_sid s' = sess_sid s"
  by (auto simp: sendTo_def udp_wire_def split: if_splits)

lemma session_ends_keeps:
  assumes "session_ends C L s s'"
  shows "sess_sid s' = sess_sid s" and "sess_state s \<noteq> Init \<Longrightarrow> sess_state s' \<noteq> Init"
    and "readable s' \<Longrightarrow> readable s \<and> udp_inbox s' = udp_inbox s"
  using assms
  by (cases rule: session_ends.cases; cases "sess_state s";
      auto simp: onPeerClose_def onReset_def session_close_def shutdownWrite_def readable_def Let_def split: if_splits)+

lemma subseq_snoc: "subseq xs ys \<Longrightarrow> subseq (xs @ [z]) (ys @ [z])"
  by (rule list_emb_append_mono) simp_all

lemma subseq_mid: "subseq (xs @ zs) (xs @ ys @ zs)"
  by (rule list_emb_append_mono) (simp_all add: subseq_drop_many)

context chan_laws
begin

text \<open>What was received, what is in the inbox and what is under way has been sent, in this order.\<close>

definition inbox_ok :: "datagram list \<Rightarrow> datagram list \<Rightarrow> datagram list \<Rightarrow> 'q session \<Rightarrow> bool" where
  "inbox_ok sent got under_way b \<longleftrightarrow>
     sess_state b \<noteq> Init \<and> subseq (got @ under_way) sent \<and>
     (readable b \<longrightarrow>
       (\<exists>q ds. udp_inbox b = Some q \<and> \<not> closed q \<and> contents q = map (\<lambda>(p, a). UdpMsg p a) ds
          \<and> subseq (got @ ds @ under_way) sent))"

definition dgram_inv :: "absl \<Rightarrow> nat \<Rightarrow> 'q dgrams \<Rightarrow> datagram list \<Rightarrow> bool" where
  "dgram_inv L m st under_way \<longleftrightarrow>
     dt_frames st = map (udp_wire L (sess_sid (dt_sender st))) under_way \<and> list_all (good_datagram m) under_way
     \<and> inbox_ok (dt_sent st) (dt_got st) under_way (dt_receiver st)"

lemma inbox_ok_send: "inbox_ok sent got ds b \<Longrightarrow> inbox_ok (sent @ [dg]) got (ds @ [dg]) b"
  unfolding inbox_ok_def using subseq_snoc by (metis append.assoc)

lemma inbox_ok_cut:
  assumes "inbox_ok sent got ds b" shows "inbox_ok sent got [] b"
  using assms subseq_order.trans [OF subseq_mid [where zs = "[]"]] unfolding inbox_ok_def
  by (metis append.assoc append_Nil2)

lemma inbox_ok_ends: "session_ends C L b b' \<Longrightarrow> inbox_ok sent got ds b \<Longrightarrow> inbox_ok sent got ds b'"
  using session_ends_keeps [of C L b b'] by (auto simp: inbox_ok_def)

lemma receiveFrom_got:
  assumes "receiveFrom C b = Done (Inr dg, b')" and "inbox_ok sent got ds b"
  shows "inbox_ok sent (got @ [dg]) ds b'"
proof -
  have r: "readable b" using assms by (auto simp: receiveFrom_def readable_def inbox_ok_def split: if_splits)
       (cases "sess_state b"; simp)+
  then obtain q xs where q: "udp_inbox b = Some q" "\<not> closed q" "contents q = map (\<lambda>(p, a). UdpMsg p a) xs"
    and sub: "subseq (got @ xs @ ds) sent"
    using assms(2) by (auto simp: inbox_ok_def)
  from assms(1) r q(1) obtain p a q' where got: "ch_receive C q = Some (Some (UdpMsg p a), q')" "dg = (p, a)"
    "b' = b\<lparr>udp_inbox := Some q', bytes_in := bytes_in b + of_nat (length p)\<rparr>"
    by (auto simp: receiveFrom_def readable_def split: option.splits prod.splits msg.splits)
  from receive_SomeD [OF got(1) q(2)] q(3) got(2)
  obtain ys where ys: "xs = dg # ys" "contents q' = map (\<lambda>(p, a). UdpMsg p a) ys" "\<not> closed q'"
    by (cases xs) auto
  have "subseq ((got @ [dg]) @ ds) sent"
  proof (rule subseq_order.trans [OF _ sub])
    show "subseq ((got @ [dg]) @ ds) (got @ xs @ ds)"
      using subseq_mid [of "got @ [dg]" ds ys] by (simp add: ys(1))
  qed
  then show ?thesis using r got(3) ys sub assms(2) by (auto simp: inbox_ok_def readable_def)
qed

lemma receiveFrom_refused:
  assumes "receiveFrom C b = Done (Inl e, b')" and "inbox_ok sent got ds b"
  shows "inbox_ok sent got ds b'"
proof (cases "readable b")
  case False
  with assms have "b' = b"
    by (cases "sess_state b") (auto simp: receiveFrom_def readable_def inbox_ok_def)
  with assms(2) show ?thesis by simp
next
  case True
  then obtain q xs where q: "udp_inbox b = Some q" "\<not> closed q" "contents q = map (\<lambda>(p, a). UdpMsg p a) xs"
    using assms(2) by (auto simp: inbox_ok_def)
  have False
  proof (cases "ch_receive C q")
    case None
    with assms(1) True q show False by (auto simp: receiveFrom_def readable_def)
  next
    case (Some r)
    with receive_SomeD [of q "fst r" "snd r"] q assms(1) True show False
      by (cases xs; cases r) (auto simp: receiveFrom_def readable_def)
  qed
  then show ?thesis ..
qed

lemma onUdpData_arrives:
  assumes "inbox_ok sent got ((p, a) # ds) b" shows "inbox_ok sent got ds (onUdpData C p a b)"
proof -
  have skip: "subseq (xs @ ds) (xs @ (p, a) # ds)" for xs using subseq_mid [of xs ds "[(p, a)]"] by simp
  have cut: "subseq (got @ ds) sent"
    using assms subseq_order.trans [OF skip] by (auto simp: inbox_ok_def)
  show ?thesis
  proof (cases "readable b")
    case False
    with cut assms show ?thesis by (auto simp: inbox_ok_def onUdpData_def readable_def split: option.splits)
  next
    case True
    then obtain q xs where q: "udp_inbox b = Some q" "\<not> closed q" "contents q = map (\<lambda>(p, a). UdpMsg p a) xs"
      and sub: "subseq (got @ xs @ (p, a) # ds) sent"
      using assms by (auto simp: inbox_ok_def)
    have "subseq (got @ xs @ ds) sent" using subseq_order.trans [OF skip [of "got @ xs"]] sub by simp
    with True q sub cut assms try_send_cases [OF q(2), of "UdpMsg p a"]
    show ?thesis
      by (cases "length (contents q) < capacity q")
         (auto simp: inbox_ok_def onUdpData_def readable_def intro: exI [of _ "xs @ [(p, a)]"])
  qed
qed

lemma dgram_inv_step:
  assumes "absl_laws L" and "259 \<le> m" and "dgram_step C L m st st'" and "dgram_inv L m st ds"
  shows "\<exists>ds'. dgram_inv L m st' ds'"
  using assms(3)
proof cases
  case (dg_send target d lk a calls)
  with assms(4) sendTo_sent [OF dg_send(5)] have "dgram_inv L m st' (ds @ [(as_string d, target)])"
    by (simp add: dgram_inv_def good_datagram_def inbox_ok_send)
  then show ?thesis ..
next
  case (dg_arrive w ws blob p addr)
  then obtain dg ds' where ds: "ds = dg # ds'" "w = udp_wire L (sess_sid (dt_sender st)) dg"
      "ws = map (udp_wire L (sess_sid (dt_sender st))) ds'" "good_datagram m dg"
    using assms(4) by (cases ds) (auto simp: dgram_inv_def)
  have "blob = toBinary (snd dg)" "p = fst dg"
    using dg_arrive(3) ds(2,4) udp_frame_arrives [OF assms(1,2), of "fst dg" "sess_sid (dt_sender st)" "snd dg"]
    by (simp_all add: udp_wire_def good_datagram_def)
  moreover from this have "addr = snd dg"
    using dg_arrive(4) ds(4) parseBinary_toBinary [of "snd dg" "[]"] by (simp add: good_datagram_def)
  ultimately have "dgram_inv L m st' ds'"
    using assms(4) dg_arrive(1) ds onUdpData_arrives [of "dt_sent st" "dt_got st" "fst dg" "snd dg" ds']
    by (simp add: dgram_inv_def)
  then show ?thesis ..
next
  case (dg_receive dg b)
  with assms(4) receiveFrom_got [OF dg_receive(2)] have "dgram_inv L m st' ds" by (simp add: dgram_inv_def)
  then show ?thesis ..
next
  case (dg_refused e b)
  with assms(4) receiveFrom_refused [OF dg_refused(2)] have "dgram_inv L m st' ds" by (simp add: dgram_inv_def)
  then show ?thesis ..
next
  case dg_cut
  with assms(4) have "dgram_inv L m st' []" by (auto simp: dgram_inv_def intro: inbox_ok_cut)
  then show ?thesis ..
next
  case (dg_sender_ends a)
  with assms(4) session_ends_keeps(1) [OF dg_sender_ends(2)] have "dgram_inv L m st' ds" by (simp add: dgram_inv_def)
  then show ?thesis ..
next
  case (dg_receiver_ends b)
  with assms(4) inbox_ok_ends [OF dg_receiver_ends(2)] have "dgram_inv L m st' ds" by (simp add: dgram_inv_def)
  then show ?thesis ..
qed

lemma dgram_reachable:
  assumes "absl_laws L" and "259 \<le> m" and "(dgram_step C L m)\<^sup>*\<^sup>* (dgrams_init C sid target nw fw) st"
  shows "\<exists>ds. dgram_inv L m st ds"
  using assms(3)
proof (induction rule: rtranclp_induct)
  case base
  have "dgram_inv L m (dgrams_init C sid target nw fw) []"
    by (simp add: dgram_inv_def dgrams_init_def inbox_ok_def new_session_def)
  then show ?case ..
next
  case (step y z)
  then show ?case using dgram_inv_step [OF assms(1,2)] by blast
qed

lemma dgram_inv_got: "dgram_inv L m st ds \<Longrightarrow> subseq (dt_got st) (dt_sent st)"
  using subseq_order.trans [OF subseq_mid [of "dt_got st" "[]" ds]] by (auto simp: dgram_inv_def inbox_ok_def)

end

section \<open>Properties of datagrams\<close>

text \<open>C14. Datagrams over a link stay whole and in order: in every interleaving of sending, frames under
  way, receiving, ending sessions and failing links, the datagrams the far end has received are a
  subsequence of those the near end has sent, each with its payload and its target address. None is
  changed, split, merged, repeated or invented; they can only be lost.\<close>

theorem datagrams_intact:
  assumes "absl_laws L" and "chan_laws C contents capacity shut" and "259 \<le> m"
    and "(dgram_step C L m)\<^sup>*\<^sup>* (dgrams_init C sid target near_window far_window) st"
  shows "subseq (dt_got st) (dt_sent st)"
  using chan_laws.dgram_reachable [OF assms(2,1,3,4)] chan_laws.dgram_inv_got [OF assms(2)] by blast

definition example_dgrams :: "list_chan dgrams" where
  "example_dgrams = dgrams_init list_chan_api 5 no_address 100 100"

lemma example_dgrams_run:
  "\<exists>st. (dgram_step list_chan_api absl_ref 300)\<^sup>*\<^sup>* example_dgrams st
     \<and> dt_got st = [(as_string [1, 2], fromIPv4 [8, 8, 8, 8] 53)]"
proof -
  let ?t = "fromIPv4 [8, 8, 8, 8] 53" and ?d = "[1, 2] :: bytes"
  let ?w = "encodeUdpData absl_ref [] 5 (toBinary ?t) (as_string ?d)"
  let ?a = "(dt_sender example_dgrams)\<lparr>bytes_out := 2\<rparr>"
  let ?s1 = "example_dgrams\<lparr>dt_sender := ?a, dt_frames := [?w], dt_sent := [(as_string ?d, ?t)]\<rparr>"
  let ?b = "onUdpData list_chan_api (as_string ?d) ?t (dt_receiver example_dgrams)"
  let ?s2 = "?s1\<lparr>dt_receiver := ?b, dt_frames := []\<rparr>"
  have wf: "wf_address ?t" by simp
  have "sendTo absl_ref LinkUp ?d ?t (dt_sender example_dgrams) = (Inr (), ?a, [EnqueueFrame ?w])"
    by (simp add: sendTo_def example_dgrams_def dgrams_init_def new_session_def)
  from dg_send [OF wf _ _ this, of 300 list_chan_api]
  have 1: "dgram_step list_chan_api absl_ref 300 example_dgrams ?s1"
    by (simp add: example_dgrams_def dgrams_init_def)
  have "read_frame absl_ref 300 ?w = Some (UdpDataFrame (sess_sid (dt_receiver ?s1)) (toBinary ?t) (as_string ?d))"
    using udp_frame_arrives [OF absl_ref_laws, of 300 "as_string ?d" 5 ?t]
    by (simp add: example_dgrams_def dgrams_init_def)
  from dg_arrive [OF _ this, of "[]" ?t list_chan_api]
  have 2: "dgram_step list_chan_api absl_ref 300 ?s1 ?s2"
    using parseBinary_toBinary [OF wf, of "[]"] by simp
  obtain b where "receiveFrom list_chan_api (dt_receiver ?s2) = Done (Inr (as_string ?d, ?t), b)"
    by (simp add: receiveFrom_def onUdpData_def example_dgrams_def dgrams_init_def new_session_def list_chan_api_def)
  from dg_receive [OF this, of absl_ref 300]
  have 3: "dgram_step list_chan_api absl_ref 300 ?s2 (?s2\<lparr>dt_receiver := b, dt_got := [(as_string ?d, ?t)]\<rparr>)"
    by (simp add: example_dgrams_def dgrams_init_def)
  from 1 2 3 show ?thesis
    by (intro exI [of _ "?s2\<lparr>dt_receiver := b, dt_got := [(as_string ?d, ?t)]\<rparr>"])
       (auto intro: converse_rtranclp_into_rtranclp)
qed

theorem datagrams_intact_witness:
  "\<exists>st. (dgram_step list_chan_api absl_ref 300)\<^sup>*\<^sup>* example_dgrams st \<and> dt_got st \<noteq> [] \<and> subseq (dt_got st) (dt_sent st)"
proof -
  from example_dgrams_run obtain st where
    run: "(dgram_step list_chan_api absl_ref 300)\<^sup>*\<^sup>* example_dgrams st" and "dt_got st \<noteq> []" by force
  moreover have "subseq (dt_got st) (dt_sent st)"
    by (rule datagrams_intact [OF absl_ref_laws list_chan_laws _ run [unfolded example_dgrams_def]]) simp
  ultimately show ?thesis by blast
qed

end
