(* ===== verification/Http_Connect.thy ===== *)
theory Http_Connect
  imports Conversation Endpoints Router
begin

text \<open>
  Model of the HTTP CONNECT server (\<^verbatim>\<open>inbound/http_connect_inbound.cpp\<close>) and client
  (\<^verbatim>\<open>outbound/http_connect_outbound.cpp\<close>) as conversations. The lemmas show how the head of a request is
  found and taken apart, and that the two sides of this program understand each other.
  \<^verbatim>\<open>absl::Base64Escape\<close> is a parameter; the only law used is that its output has no white space.
\<close>

definition http_crlf :: string where
  "http_crlf = [CHR 0x0D, CHR 0x0A]"

definition head_end :: bytes where
  "head_end = [13, 10, 13, 10]"

section \<open>The server\<close>

datatype http_end = HttpDropped | HttpConnect session_request

text \<open>\<^verbatim>\<open>std::getline\<close>, and the removal of the carriage return it leaves.\<close>

definition getline :: "string \<Rightarrow> string" where
  "getline s = takeWhile (\<lambda>c. c \<noteq> CHR 0x0A) s"

definition request_line :: "string \<Rightarrow> string" where
  "request_line s =
     (let line = getline s in
      if line \<noteq> [] \<and> List.last line = CHR 0x0D then butlast line else line)"

definition http_405 :: string where
  "http_405 = ''HTTP/1.1 405 Method Not Allowed'' @ http_crlf @ http_crlf"

definition http_400 :: string where
  "http_400 = ''HTTP/1.1 400 Bad Request'' @ http_crlf @ http_crlf"

definition http_200 :: string where
  "http_200 = ''HTTP/1.1 200 Connection Established'' @ http_crlf @ http_crlf"

definition http_request :: "inbound_config \<Rightarrow> address \<Rightarrow> session_request" where
  "http_request cfg target =
     \<lparr>rq_inbound_tag = in_tag cfg, rq_inbound_protocol = in_protocol cfg, rq_protocol = TCP, rq_target = target\<rparr>"

definition http_respond :: "absl \<Rightarrow> asio_ip \<Rightarrow> inbound_config \<Rightarrow> string \<Rightarrow> http_end conv" where
  "http_respond L I cfg sb =
     (let tok = StrSplit L (request_line sb) CHR '' '' in
      if length tok < 2 \<or> tok ! 0 \<noteq> ''CONNECT'' then Send (as_bytes http_405) (\<lambda>_. Ret HttpDropped)
      else
        case parseHostPort L I (tok ! 1) of
          Inl e \<Rightarrow> Send (as_bytes http_400) (\<lambda>_. Ret HttpDropped)
        | Inr target \<Rightarrow>
            Send (as_bytes http_200) (\<lambda>ec.
              case ec of Some e \<Rightarrow> Ret HttpDropped | None \<Rightarrow> Ret (HttpConnect (http_request cfg target))))"

definition http_handleClient :: "absl \<Rightarrow> asio_ip \<Rightarrow> inbound_config \<Rightarrow> http_end conv" where
  "http_handleClient L I cfg =
     RecvUntil head_end (\<lambda>r.
       case r of Inl e \<Rightarrow> Ret HttpDropped | Inr sb \<Rightarrow> http_respond L I cfg (as_string sb))"

section \<open>The client\<close>

text \<open>The request: \<open>B\<close> is \<^verbatim>\<open>absl::Base64Escape\<close>. The branch for IPv6 assigns the same text twice.\<close>

definition http_head :: "absl \<Rightarrow> asio_ip \<Rightarrow> (string \<Rightarrow> string) \<Rightarrow> outbound_config \<Rightarrow> address \<Rightarrow> string" where
  "http_head L I B cfg target =
     (let host_port = toString L I target;
          reqline = ''CONNECT '' @ host_port @ '' HTTP/1.1'' @ http_crlf @ ''Host: '' @ host_port @ http_crlf;
          reqline = (if out_user cfg \<noteq> []
                     then reqline @ ''Proxy-Authorization: Basic '' @ B (out_user cfg @ '':'' @ out_pass cfg) @ http_crlf
                     else reqline)
      in reqline @ http_crlf)"

text \<open>\<^verbatim>\<open>status.find(" 200 ")\<close>.\<close>

fun has_sub :: "string \<Rightarrow> string \<Rightarrow> bool" where
  "has_sub p [] = (p = [])"
| "has_sub p (c # s) = (take (length p) (c # s) = p \<or> has_sub p s)"

definition http_client ::
  "absl \<Rightarrow> asio_ip \<Rightarrow> (string \<Rightarrow> string) \<Rightarrow> outbound_config \<Rightarrow> address \<Rightarrow> unit result conv"
where
  "http_client L I B cfg target =
     Send (as_bytes (http_head L I B cfg target)) (\<lambda>ec.
       case ec of
         Some e \<Rightarrow> Ret (Inl (UnavailableError e))
       | None \<Rightarrow>
           RecvUntil head_end (\<lambda>r.
             case r of
               Inl e \<Rightarrow> Ret (Inl (UnavailableError e))
             | Inr sb \<Rightarrow>
                 let status = getline (as_string sb) in
                 if \<not> has_sub '' 200 '' status then Ret (Inl (UnavailableError (''http connect failed: '' @ status)))
                 else Ret (Inr ())))"

definition http_handle ::
  "absl \<Rightarrow> asio_ip \<Rightarrow> net \<Rightarrow> (string \<Rightarrow> string) \<Rightarrow> outbound_config \<Rightarrow> address \<Rightarrow> unit result conv"
where
  "http_handle L I N B cfg target =
     (case dial_server L I N cfg of Inl e \<Rightarrow> Ret (Inl e) | Inr ep \<Rightarrow> http_client L I B cfg target)"

section \<open>Base64\<close>

locale base64_laws =
  fixes B :: "string \<Rightarrow> string"
  assumes b64_chars: "c \<in> set (B s) \<Longrightarrow> \<not> is_space c"

text \<open>A reference encoder (RFC 4648 with padding).\<close>

definition b64_char :: "nat \<Rightarrow> char" where
  "b64_char n =
     (if n < 26 then char_of (65 + n) else if n < 52 then char_of (71 + n)
      else if n < 62 then char_of (n - 4) else if n = 62 then CHR ''+'' else CHR ''/'')"

fun b64_bytes :: "nat list \<Rightarrow> string" where
  "b64_bytes [] = []"
| "b64_bytes [a] = [b64_char (a div 4), b64_char (a mod 4 * 16), CHR ''='', CHR ''='']"
| "b64_bytes [a, b] = [b64_char (a div 4), b64_char (a mod 4 * 16 + b div 16), b64_char (b mod 16 * 4), CHR ''='']"
| "b64_bytes (a # b # c # r) =
     [b64_char (a div 4), b64_char (a mod 4 * 16 + b div 16), b64_char (b mod 16 * 4 + c div 64), b64_char (c mod 64)]
     @ b64_bytes r"

definition base64_ref :: "string \<Rightarrow> string" where
  "base64_ref s = b64_bytes (map of_char s)"

lemma b64_char_space: "\<not> is_space (b64_char n)"
  by (auto simp: b64_char_def is_space_def)

lemma b64_bytes_space: "c \<in> set (b64_bytes bs) \<Longrightarrow> \<not> is_space c"
  by (induction bs rule: b64_bytes.induct) (auto simp: b64_char_space, auto simp: is_space_def)

interpretation base64_ref: base64_laws base64_ref
  by unfold_locales (auto simp: base64_ref_def dest: b64_bytes_space)

lemmas base64_ref_laws = base64_ref.base64_laws_axioms

lemma base64_example: "base64_ref ''user:pass'' = ''dXNlcjpwYXNz'' \<and> base64_ref ''u:p!'' = ''dTpwIQ==''"
  by code_simp

section \<open>The end of a head\<close>

lemma find_head_skip: "13 \<notin> set l \<Longrightarrow> find_end head_end (l @ t) = map_option ((+) (length l)) (find_end head_end t)"
proof (induction l)
  case (Cons b l)
  then have "take (length head_end) ((b # l) @ t) \<noteq> head_end" by (auto simp: head_end_def)
  with Cons show ?case by (cases "find_end head_end t") simp_all
qed (cases "find_end head_end t", simp_all)

lemma find_head_line:
  assumes "hd (t @ [0]) \<noteq> 13"
  shows "find_end head_end (13 # 10 # t) = map_option (\<lambda>n. Suc (Suc n)) (find_end head_end t)"
proof -
  have "find_end head_end (13 # 10 # t) = map_option Suc (map_option Suc (find_end head_end t))"
    using assms by (cases t) (simp_all add: head_end_def)
  then show ?thesis by (simp add: option.map_comp comp_def del: find_end.simps)
qed

lemma find_head_end: "find_end head_end (13 # 10 # 13 # 10 # t) = Some 4"
  by (simp add: head_end_def)

text \<open>The head of a message: its lines, each ended by CRLF, and an empty line.\<close>

definition http_lines :: "string list \<Rightarrow> string" where
  "http_lines ls = concat (map (\<lambda>l. l @ http_crlf) ls) @ http_crlf"

lemma as_bytes_http_crlf [simp]: "as_bytes http_crlf = [13, 10]"
  by (simp add: http_crlf_def u8_of_def)

lemma length_http_crlf: "length http_crlf = 2"
  by (simp add: http_crlf_def)

lemma u8_of_13: "u8_of c = 13 \<longleftrightarrow> c = CHR 0x0D"
  using u8_of_eq_iff [of c "CHR 0x0D"] by (simp add: u8_of_def del: u8_of_eq_iff)

lemma no_cr_bytes: "CHR 0x0D \<notin> set l \<Longrightarrow> 13 \<notin> set (as_bytes l)"
  by (auto simp: as_bytes_def) (metis u8_of_13)

lemma find_head_lines:
  assumes "\<forall>l \<in> set ls. l \<noteq> [] \<and> CHR 0x0D \<notin> set l" and "l \<noteq> []" and "CHR 0x0D \<notin> set l"
  shows "find_end head_end (as_bytes (http_lines (l # ls)) @ t) = Some (length (http_lines (l # ls)))"
  using assms
proof (induction ls arbitrary: l)
  case Nil
  then show ?case
    using find_head_skip [OF no_cr_bytes [OF Nil(3)], of "13 # 10 # 13 # 10 # t"]
    by (simp add: http_lines_def find_head_end length_http_crlf del: find_end.simps)
next
  case (Cons l' ls)
  let ?t = "as_bytes (http_lines (l' # ls)) @ t"
  have "hd (?t @ [0]) \<noteq> 13"
    using Cons.prems(1) by (cases l') (auto simp: http_lines_def u8_of_13)
  then have "find_end head_end (as_bytes l @ 13 # 10 # ?t) = Some (length l + Suc (Suc (length (http_lines (l' # ls)))))"
    using Cons.IH [of l'] Cons.prems by (simp add: find_head_skip no_cr_bytes find_head_line del: find_end.simps)
  then show ?case by (simp add: http_lines_def length_http_crlf del: find_end.simps)
qed

lemma request_line_lines:
  assumes "CHR 0x0A \<notin> set l" shows "request_line (http_lines (l # ls) @ t) = l"
proof -
  have "getline (l @ http_crlf @ t) = l @ [CHR 0x0D]" for t
    using assms by (auto simp: getline_def http_crlf_def takeWhile_append takeWhile_eq_all_conv)
  then have "getline (http_lines (l # ls) @ t) = l @ [CHR 0x0D]" by (simp add: http_lines_def)
  then show ?thesis by (simp add: request_line_def)
qed

section \<open>A request is understood\<close>

text \<open>Targets whose text survives a request line: printable as in \<open>text_roundtrip\<close>, without white space.\<close>

definition http_target :: "absl \<Rightarrow> address \<Rightarrow> bool" where
  "http_target L a \<longleftrightarrow> wf_address a \<and> addr_port a \<noteq> 0 \<and>
     (isDomain a \<longrightarrow> parseIPv4 L (addr_domain a) = None \<and> hd (addr_domain a) \<noteq> CHR ''['' \<and>
        (\<forall>c \<in> set (addr_domain a). \<not> is_space c))"

lemma target_text:
  assumes "absl_laws L" and "asio_laws I" and "http_target L a"
  shows "parseHostPort L I (toString L I a) = Inr a"
    and "CHR '' '' \<notin> set (toString L I a)" and "CHR 0x0A \<notin> set (toString L I a)" and "CHR 0x0D \<notin> set (toString L I a)"
proof -
  show "parseHostPort L I (toString L I a) = Inr a"
    using assms text_roundtrip [OF assms(1,2), of a] by (auto simp: http_target_def)
  have "\<not> is_space c" if "c \<in> set (toString L I a)" for c
    using toString_no_space [OF assms(1,2) _ that] assms(3) by (auto simp: http_target_def)
  moreover have "is_space CHR '' ''" "is_space CHR 0x0A" "is_space CHR 0x0D" by (simp_all add: is_space_def)
  ultimately show "CHR '' '' \<notin> set (toString L I a)" "CHR 0x0A \<notin> set (toString L I a)" "CHR 0x0D \<notin> set (toString L I a)"
    by blast+
qed

definition connect_line :: "absl \<Rightarrow> asio_ip \<Rightarrow> address \<Rightarrow> string \<Rightarrow> string" where
  "connect_line L I a version = ''CONNECT '' @ toString L I a @ '' '' @ version"

lemma split_connect_line:
  assumes "absl_laws L" and "asio_laws I" and "http_target L a"
  shows "\<exists>vs. StrSplit L (connect_line L I a version) CHR '' '' = ''CONNECT'' # toString L I a # vs"
proof -
  let ?v = "StrSplit L version CHR '' ''"
  have v: "?v \<noteq> []" "join CHR '' '' ?v = version" "\<And>p. p \<in> set ?v \<Longrightarrow> CHR '' '' \<notin> set p"
    using absl_laws.split_nonempty [OF assms(1)] absl_laws.split_join [OF assms(1)]
      absl_laws.split_pieces [OF assms(1)] by auto
  have "join CHR '' '' (''CONNECT'' # toString L I a # ?v) = connect_line L I a version"
    using v by (simp add: join_Cons connect_line_def)
  moreover have "CHR '' '' \<notin> set p" if "p \<in> set (''CONNECT'' # toString L I a # ?v)" for p
    using that v(3) target_text(2) [OF assms] by auto
  ultimately show ?thesis
    using absl_laws.split_of_join [OF assms(1), of "''CONNECT'' # toString L I a # ?v" "CHR '' ''"] by auto
qed

lemma respond_connect:
  assumes "absl_laws L" and "asio_laws I" and "http_target L a" and "CHR 0x0A \<notin> set version"
  shows "http_respond L I cfg (http_lines (connect_line L I a version # headers) @ t) =
    Send (as_bytes http_200) (\<lambda>ec. case ec of Some e \<Rightarrow> Ret HttpDropped | None \<Rightarrow> Ret (HttpConnect (http_request cfg a)))"
proof -
  have "CHR 0x0A \<notin> set (connect_line L I a version)"
    using target_text(3) [OF assms(1-3)] assms(4) by (simp add: connect_line_def)
  then have "request_line (http_lines (connect_line L I a version # headers) @ t) = connect_line L I a version"
    by (rule request_line_lines)
  moreover obtain vs where "StrSplit L (connect_line L I a version) CHR '' '' = ''CONNECT'' # toString L I a # vs"
    using split_connect_line [OF assms(1-3)] by blast
  ultimately show ?thesis
    using target_text(1) [OF assms(1-3)] by (simp add: http_respond_def)
qed

lemma find_connect_head:
  assumes "absl_laws L" and "asio_laws I" and "http_target L a" and "CHR 0x0D \<notin> set version"
    and "\<forall>h \<in> set headers. h \<noteq> [] \<and> CHR 0x0D \<notin> set h"
  shows "find_end head_end (as_bytes (http_lines (connect_line L I a version # headers)) @ rest) =
    Some (length (http_lines (connect_line L I a version # headers)))"
  using assms(5) by (rule find_head_lines) (use target_text(4) [OF assms(1-3)] assms(4) in \<open>simp_all add: connect_line_def\<close>)


lemma example_target: "http_target absl_ref (fromDomain ''a.b'' 443)"
proof -
  have "parseIPv4 absl_ref ''a.b'' = None" by code_simp
  then show ?thesis by (simp add: http_target_def is_space_def)
qed


section \<open>This program's client and server\<close>

lemma http_head_lines:
  "http_head L I B cfg a = http_lines (connect_line L I a ''HTTP/1.1'' # (''Host: '' @ toString L I a) #
     (if out_user cfg \<noteq> [] then [''Proxy-Authorization: Basic '' @ B (out_user cfg @ '':'' @ out_pass cfg)] else []))"
  by (simp add: http_head_def http_lines_def connect_line_def Let_def)

lemma find_200: "find_end head_end (as_bytes http_200) = Some (length http_200)" and status_200: "has_sub '' 200 '' (getline http_200)"
  by code_simp+

text \<open>C24. The program's own HTTP CONNECT client and server understand each other, with or without
  credentials: however the steps of the two handshakes on one connection interleave, they can go
  on until the client has succeeded and the server has handed on a TCP request for exactly the
  client's target, with no byte left over in either direction.\<close>

theorem http_chain:
  assumes "absl_laws L" and "asio_laws I" and "base64_laws B" and "http_target L a"
    and "talks (http_client L I B oc a, http_handleClient L I ic, [], []) u"
  shows "talks u (Ret (Inr ()), Ret (HttpConnect (http_request ic a)), [], [])"
proof -
  let ?fin = "(Ret (Inr ()), Ret (HttpConnect (http_request ic a)), [], []) :: (unit result, http_end) talk"
  define headers where "headers = (''Host: '' @ toString L I a) #
     (if out_user oc \<noteq> [] then [''Proxy-Authorization: Basic '' @ B (out_user oc @ '':'' @ out_pass oc)] else [])"
  have head: "http_head L I B oc a = http_lines (connect_line L I a ''HTTP/1.1'' # headers)"
    unfolding headers_def by (rule http_head_lines)
  have "CHR 0x0D \<notin> set (B s)" for s
    using base64_laws.b64_chars [OF assms(3), of "CHR 0x0D" s] by (auto simp: is_space_def)
  then have lines: "\<forall>h \<in> set headers. h \<noteq> [] \<and> CHR 0x0D \<notin> set h"
    using target_text(4) [OF assms(1,2,4)] by (auto simp: headers_def)
  have found: "find_end head_end (as_bytes (http_head L I B oc a)) = Some (length (http_head L I B oc a))"
    using find_connect_head [OF assms(1,2,4) _ lines, of "''HTTP/1.1''" "[]"] by (simp add: head)
  have respond: "http_respond L I ic (http_head L I B oc a) =
      Send (as_bytes http_200) (\<lambda>ec. case ec of Some e \<Rightarrow> Ret HttpDropped | None \<Rightarrow> Ret (HttpConnect (http_request ic a)))"
    using respond_connect [OF assms(1,2,4), of "''HTTP/1.1''" ic headers "[]"] by (simp add: head)
  have "talks (http_client L I B oc a, http_handleClient L I ic, [], []) ?fin"
    unfolding http_client_def http_handleClient_def
    by (rule talks_left_send, simp, rule talks_right_until [OF found], simp add: respond)
       (rule talks_right_send, simp, rule talks_left_until [OF find_200], simp add: status_200)
  then show ?thesis using assms(5) by (rule ends_always)
qed

theorem http_chain_witness:
  "talks (http_client absl_ref asio_ref base64_ref (default_outbound_config\<lparr>out_user := ''u''\<rparr>) (fromDomain ''a.b'' 443),
      http_handleClient absl_ref asio_ref default_inbound, [], [])
     (Ret (Inr ()), Ret (HttpConnect (http_request default_inbound (fromDomain ''a.b'' 443))), [], [])"
  by (rule http_chain [OF absl_ref_laws asio_ref_laws base64_ref_laws example_target,
        where oc = "default_outbound_config\<lparr>out_user := ''u''\<rparr>"]) simp

end
