(* ===== verification/Direct_Outbound.thy ===== *)
theory Direct_Outbound
  imports Endpoints Router "HOL-Library.AList"
begin

text \<open>
  Model of \<^verbatim>\<open>outbound/direct_outbound.cpp\<close>, the outbound that reaches targets itself: the destination
  of a TCP request is \<open>dial_target\<close>; for datagrams, the two loops of \<^verbatim>\<open>handleUdp\<close> with the cache of
  resolved names. The clock and the resolver's answer at each datagram are arguments. The lemmas
  show where every datagram goes and that the cache stays small and fresh.
\<close>

text \<open>\<^verbatim>\<open>absl::Time\<close> in nanoseconds.\<close>

type_synonym dns_cache = "(string \<times> endpoint \<times> int) list"

definition cache_seconds :: int where
  "cache_seconds = 60 * 1000000000"

text \<open>One datagram from the client: its payload and target, the time at the lookup, the resolver, and the
  time after it has answered.\<close>

record udp_event =
  ue_payload :: string
  ue_target :: address
  ue_now :: int
  ue_net :: net
  ue_later :: int

definition cache_fresh :: "udp_event \<Rightarrow> dns_cache \<Rightarrow> endpoint option" where
  "cache_fresh ev cache =
     (case map_of cache (addr_domain (ue_target ev)) of
        None \<Rightarrow> None
      | Some (ep, stored) \<Rightarrow> if ue_now ev - stored < cache_seconds then Some ep else None)"

text \<open>The destination of a datagram (\<open>None\<close> when the name does not resolve and it is skipped).\<close>

definition direct_dest :: "udp_event \<Rightarrow> dns_cache \<Rightarrow> endpoint option \<times> dns_cache" where
  "direct_dest ev cache =
     (let t = ue_target ev in
      if isDomain t then
        case cache_fresh ev cache of
          Some ep \<Rightarrow> (Some ep, cache)
        | None \<Rightarrow>
            (case resolveOne (net_resolve (ue_net ev)) t of
               Inl e \<Rightarrow> (None, cache)
             | Inr ep \<Rightarrow>
                 (Some ep,
                  if length cache < 1024 then AList.update (addr_domain t) (ep, ue_later ev) cache
                  else if map_of cache (addr_domain t) \<noteq> None then AList.update (addr_domain t) (ep, ue_later ev) cache
                  else cache))
      else (Some (endpoint_of t), cache))"

text \<open>\<^verbatim>\<open>read_client\<close>: the destinations of the client's datagrams, in order; the loop ends (and closes the
  socket) at the first error of \<^verbatim>\<open>receiveFrom\<close>, the end of the list here. Errors of sending are ignored.\<close>

fun direct_dests :: "udp_event list \<Rightarrow> dns_cache \<Rightarrow> endpoint option list \<times> dns_cache" where
  "direct_dests [] cache = ([], cache)"
| "direct_dests (ev # evs) cache =
     (case direct_dest ev cache of
        (dest, cache) \<Rightarrow> (case direct_dests evs cache of (dests, cache) \<Rightarrow> (dest # dests, cache)))"

definition read_client :: "udp_event list \<Rightarrow> (string \<times> endpoint) list" where
  "read_client evs =
     concat (map2 (\<lambda>ev dest. case dest of None \<Rightarrow> [] | Some ep \<Rightarrow> [(ue_payload ev, ep)])
       evs (fst (direct_dests evs [])))"

text \<open>\<^verbatim>\<open>read_remote\<close>: what is sent to the client, with the sender as source address, over the results of
  the receives and of the sends to the client; then the client stream is closed.\<close>

definition source_of :: "endpoint \<Rightarrow> address" where
  "source_of ep =
     (case ep_addr ep of IpV4 b \<Rightarrow> fromIPv4 b (ep_port ep) | IpV6 b \<Rightarrow> fromIPv6 b (ep_port ep))"

fun read_remote :: "(string + endpoint \<times> bytes) list \<Rightarrow> unit result list \<Rightarrow> (bytes \<times> address) list" where
  "read_remote (Inr (sender, data) # rxs) (st # sts) =
     (data, source_of sender) # (case st of Inl e \<Rightarrow> [] | Inr u \<Rightarrow> read_remote rxs sts)"
| "read_remote rxs sts = []"

text \<open>\<^verbatim>\<open>handle\<close> up to the relaying.\<close>

datatype direct_plan = DirectTcp endpoint | DirectUdp

definition direct_handle :: "net \<Rightarrow> string option \<Rightarrow> bool \<Rightarrow> session_request \<Rightarrow> direct_plan result" where
  "direct_handle N bind_error has_datagram_stream req =
     (if rq_protocol req = UDP then
        if \<not> has_datagram_stream then Inl (InvalidArgumentError ''no client udp stream'')
        else (case bind_error of Some e \<Rightarrow> Inl (UnavailableError e) | None \<Rightarrow> Inr DirectUdp)
      else rbind (dial_target N (rq_target req)) (\<lambda>ep. Inr (DirectTcp ep)))"

section \<open>Where datagrams go\<close>

text \<open>The entries of the cache come from earlier answers of the resolver.\<close>

definition resolved :: "udp_event \<Rightarrow> string \<Rightarrow> endpoint \<Rightarrow> bool" where
  "resolved ev d ep \<longleftrightarrow>
     isDomain (ue_target ev) \<and> addr_domain (ue_target ev) = d \<and> resolveOne (net_resolve (ue_net ev)) (ue_target ev) = Inr ep"

definition cache_ok :: "udp_event list \<Rightarrow> dns_cache \<Rightarrow> bool" where
  "cache_ok past cache \<longleftrightarrow>
     distinct (map fst cache) \<and> length cache \<le> 1024 \<and>
     (\<forall>d ep stored. map_of cache d = Some (ep, stored) \<longrightarrow>
        (\<exists>ev \<in> set past. resolved ev d ep \<and> stored = ue_later ev))"

lemma length_update: "length (AList.update k v al) = (if k \<in> fst ` set al then length al else Suc (length al))"
  by (induction al) auto

lemma cache_ok_update:
  assumes "cache_ok past cache" "resolved ev d ep" "length cache < 1024 \<or> map_of cache d \<noteq> None"
  shows "cache_ok (past @ [ev]) (AList.update d (ep, ue_later ev) cache)"
proof -
  have "length (AList.update d (ep, ue_later ev) cache) \<le> 1024"
    using assms(1,3) by (auto simp: cache_ok_def length_update map_of_eq_None_iff)
  then show ?thesis
    using assms(1,2) by (auto simp: cache_ok_def distinct_update update_conv')
qed

lemma cache_ok_mono: "cache_ok past cache \<Longrightarrow> cache_ok (past @ [ev]) cache"
  by (fastforce simp: cache_ok_def)

definition goes_to :: "udp_event list \<Rightarrow> udp_event \<Rightarrow> endpoint option \<Rightarrow> bool" where
  "goes_to past ev dest \<longleftrightarrow>
     (case dest of
        None \<Rightarrow> isDomain (ue_target ev) \<and> (\<exists>e. resolveOne (net_resolve (ue_net ev)) (ue_target ev) = Inl e)
      | Some ep \<Rightarrow>
          if isDomain (ue_target ev) then
            resolved ev (addr_domain (ue_target ev)) ep \<or>
            (\<exists>old \<in> set past. resolved old (addr_domain (ue_target ev)) ep \<and> ue_now ev - ue_later old < cache_seconds)
          else ep = endpoint_of (ue_target ev))"

lemma direct_dest_ok:
  assumes "cache_ok past cache" and "direct_dest ev cache = (dest, cache')"
  shows "goes_to past ev dest \<and> cache_ok (past @ [ev]) cache'"
proof (cases "isDomain (ue_target ev)")
  case False
  with assms show ?thesis by (auto simp: direct_dest_def goes_to_def cache_ok_mono)
next
  case dom: True
  show ?thesis
  proof (cases "cache_fresh ev cache")
    case (Some ep)
    then obtain stored where hit: "map_of cache (addr_domain (ue_target ev)) = Some (ep, stored)"
      "ue_now ev - stored < cache_seconds"
      by (auto simp: cache_fresh_def split: option.splits if_splits)
    then obtain old where "old \<in> set past" "resolved old (addr_domain (ue_target ev)) ep" "stored = ue_later old"
      using assms(1) unfolding cache_ok_def by blast
    moreover have "dest = Some ep" "cache' = cache" using assms(2) dom Some by (simp_all add: direct_dest_def)
    ultimately show ?thesis
      using assms(1) dom hit(2) by (auto simp: goes_to_def cache_ok_mono)
  next
    case miss: None
    show ?thesis
    proof (cases "resolveOne (net_resolve (ue_net ev)) (ue_target ev)")
      case (Inl e)
      then show ?thesis using assms dom miss by (auto simp: direct_dest_def goes_to_def cache_ok_mono)
    next
      case (Inr ep)
      then have "resolved ev (addr_domain (ue_target ev)) ep" using dom by (simp add: resolved_def)
      then show ?thesis
        using assms dom miss Inr cache_ok_update [OF assms(1)]
        by (auto simp: direct_dest_def goes_to_def cache_ok_mono Let_def split: if_splits)
    qed
  qed
qed

lemma direct_dests_ok:
  assumes "cache_ok past cache" and "direct_dests evs cache = (dests, cache')"
  shows "length dests = length evs \<and> (\<forall>i < length evs. goes_to (past @ take i evs) (evs ! i) (dests ! i)) \<and>
    cache_ok (past @ evs) cache'"
  using assms
proof (induction evs arbitrary: past cache dests)
  case (Cons ev evs)
  obtain d c1 where 1: "direct_dest ev cache = (d, c1)" by force
  obtain ds c2 where 2: "direct_dests evs c1 = (ds, c2)" by force
  have "dests = d # ds" "cache' = c2" using Cons.prems 1 2 by auto
  moreover note direct_dest_ok [OF Cons.prems(1) 1]
  moreover note Cons.IH [of "past @ [ev]" c1 ds]
  ultimately show ?case using 2 by (auto simp: nth_Cons split: nat.split)
qed simp

text \<open>C27. Datagrams go where they should: a datagram for an IP address is sent to that address and port;
  one for a name is sent to an endpoint the resolver gave for this very name, just now or less than
  sixty seconds ago; it is dropped only when the name does not resolve; and the cache never holds
  more than 1024 names, each once.\<close>

theorem direct_udp_destinations:
  assumes "direct_dests evs [] = (dests, cache)"
  shows "length dests = length evs \<and> (\<forall>i < length evs. goes_to (take i evs) (evs ! i) (dests ! i))
    \<and> distinct (map fst cache) \<and> length cache \<le> 1024"
  using direct_dests_ok [of "[]" "[]" evs dests cache] assms by (simp add: cache_ok_def)

definition example_net :: net where
  "example_net =
     \<lparr>net_resolve = (\<lambda>h s. Inr [\<lparr>ep_addr = IpV4 [192, 0, 2, 1], ep_port = (if s = ''53'' then 53 else 443)\<rparr>]),
      net_connect = (\<lambda>_. None)\<rparr>"

definition example_event :: "address \<Rightarrow> int \<Rightarrow> udp_event" where
  "example_event t now = \<lparr>ue_payload = ''q'', ue_target = t, ue_now = now, ue_net = example_net, ue_later = now\<rparr>"

lemma example_dests:
  "direct_dests [example_event (fromDomain ''ns'' 53) 0, example_event (fromDomain ''ns'' 53) 7] [] =
     ([Some \<lparr>ep_addr = IpV4 [192, 0, 2, 1], ep_port = 53\<rparr>, Some \<lparr>ep_addr = IpV4 [192, 0, 2, 1], ep_port = 53\<rparr>],
      [(''ns'', \<lparr>ep_addr = IpV4 [192, 0, 2, 1], ep_port = 53\<rparr>, 0)])"
  by code_simp

theorem direct_udp_destinations_witness:
  "goes_to [example_event (fromDomain ''ns'' 53) 0] (example_event (fromDomain ''ns'' 53) 7)
     (Some \<lparr>ep_addr = IpV4 [192, 0, 2, 1], ep_port = 53\<rparr>)"
  using direct_udp_destinations [OF example_dests] by (auto dest: spec [of _ 1])

text \<open>The cache is keyed by the name alone but stores the port as well: a datagram to another port of a
  name that was just resolved goes to the port of the earlier one.\<close>

lemma cached_port_wrong:
  "fst (direct_dests [example_event (fromDomain ''ns'' 53) 0, example_event (fromDomain ''ns'' 443) 7] []) =
     [Some \<lparr>ep_addr = IpV4 [192, 0, 2, 1], ep_port = 53\<rparr>, Some \<lparr>ep_addr = IpV4 [192, 0, 2, 1], ep_port = 53\<rparr>]"
  by code_simp

text \<open>The source address of an answer, sent back to the program as a target, names the same endpoint.\<close>

lemma source_of_endpoint:
  assumes "ip_wf (ep_addr ep)" shows "endpoint_of (source_of ep) = ep" and "wf_address (source_of ep)"
  using assms by (cases "ep_addr ep"; simp add: source_of_def endpoint_of_def)+

end
