(* ===== verification/Program.thy ===== *)
theory Program
  imports Shine_Inbound Http_Connect Direct_Outbound Stream_Copy
begin

text \<open>
  Model of \<^verbatim>\<open>main.cpp\<close> and of the two factories: from the command line through the configuration to the
  running program, and from a request to the outbound that handles it. Scheduler, log and metrics
  exporter have no part in what is decided here (\<open>Lifecycle\<close> models them and the shutdown); the counters of \<^verbatim>\<open>metrics/registry.cpp\<close> that
  \<^verbatim>\<open>dispatch\<close> changes are modelled.
\<close>

section \<open>The factories\<close>

datatype outbound =
    DirectOutbound outbound_config
  | BlockOutbound outbound_config
  | ShineOutbound outbound_config
  | Socks5Outbound outbound_config
  | HttpConnectOutbound outbound_config

definition makeOutbound :: "outbound_config \<Rightarrow> outbound result" where
  "makeOutbound cfg =
     (if out_protocol cfg = ''direct'' then Inr (DirectOutbound cfg)
      else if out_protocol cfg = ''block'' then Inr (BlockOutbound cfg)
      else if out_protocol cfg = ''shine-client'' then Inr (ShineOutbound cfg)
      else if out_protocol cfg = ''socks5'' then Inr (Socks5Outbound cfg)
      else if out_protocol cfg = ''http-connect'' then Inr (HttpConnectOutbound cfg)
      else Inl (InvalidArgumentError (''unknown outbound protocol: '' @ out_protocol cfg)))"

datatype inbound =
    Socks5Inbound inbound_config
  | HttpConnectInbound inbound_config
  | ShineInbound inbound_config

definition makeInbound :: "inbound_config \<Rightarrow> inbound result" where
  "makeInbound cfg =
     (if in_protocol cfg = ''socks5'' then Inr (Socks5Inbound cfg)
      else if in_protocol cfg = ''http-connect'' then Inr (HttpConnectInbound cfg)
      else if in_protocol cfg = ''shine'' then Inr (ShineInbound cfg)
      else Inl (InvalidArgumentError (''unknown inbound protocol: '' @ in_protocol cfg)))"

text \<open>The virtual \<^verbatim>\<open>start\<close>.\<close>

fun inbound_start :: "absl \<Rightarrow> asio_ip \<Rightarrow> listen_os \<Rightarrow> inbound \<Rightarrow> endpoint result" where
  "inbound_start L I os (Socks5Inbound cfg) = socks5_start L I os cfg"
| "inbound_start L I os (HttpConnectInbound cfg) = http_connect_start L I os cfg"
| "inbound_start L I os (ShineInbound cfg) = shine_start L I os cfg"

text \<open>\<^verbatim>\<open>BlockOutbound::handle\<close> on the client's stream, if the request has one.\<close>

definition block_handle :: "('s, 'w) stream_ops \<Rightarrow> 's option \<Rightarrow> 's option \<times> unit result" where
  "block_handle S client_stream =
     (case client_stream of
        Some s \<Rightarrow> (Some (op_close S (op_shutdownWrite S s)), Inr ())
      | None \<Rightarrow> (None, Inr ()))"

section \<open>Dispatching a request\<close>

record metrics =
  sessions_opened :: "string \<times> string \<Rightarrow> nat"
  sessions_active :: "string \<times> string \<Rightarrow> int"
  errors_total :: "string \<Rightarrow> nat"

record 'r program =
  pr_config :: config
  pr_router :: "'r router"
  pr_outbounds :: "(string \<times> outbound) list"
  pr_inbounds :: "(inbound \<times> endpoint) list"

datatype dispatched = Dropped | Dispatched string outbound

text \<open>\<open>handle\<close> is the result of the outbound's \<^verbatim>\<open>handle\<close>.\<close>

definition dispatch ::
  "absl \<Rightarrow> 'r regex_api \<Rightarrow> 'r program \<Rightarrow> (outbound \<Rightarrow> session_request \<Rightarrow> unit result) \<Rightarrow> session_request \<Rightarrow> metrics
   \<Rightarrow> dispatched \<times> metrics"
where
  "dispatch L R p handle req m =
     (let tag = pick L R (pr_router p) req in
      if tag = [] then (Dropped, m)
      else
        case map_of (pr_outbounds p) tag of
          None \<Rightarrow> (Dropped, m)
        | Some ob \<Rightarrow>
            let labels = (rq_inbound_tag req, tag);
                m = m\<lparr>sessions_opened := (sessions_opened m)(labels := sessions_opened m labels + 1)\<rparr>;
                m = m\<lparr>sessions_active := (sessions_active m)(labels := sessions_active m labels + 1)\<rparr>;
                st = handle ob req;
                m = m\<lparr>sessions_active := (sessions_active m)(labels := sessions_active m labels - 1)\<rparr>;
                m = (case st of
                       Inl e \<Rightarrow> m\<lparr>errors_total := (errors_total m)(''outbound'' := errors_total m ''outbound'' + 1)\<rparr>
                     | Inr u \<Rightarrow> m)
            in (Dispatched tag ob, m))"

section \<open>The main program\<close>

text \<open>The arguments after the program's name: the configuration file (empty when there is none), or
  \<open>None\<close> for a request for help.\<close>

fun parse_args :: "string list \<Rightarrow> string \<Rightarrow> string option" where
  "parse_args [] cfg_path = Some cfg_path"
| "parse_args [a] cfg_path = (if a = ''-h'' \<or> a = ''--help'' then None else Some cfg_path)"
| "parse_args (a # b # args) cfg_path =
     (if a = ''-c'' then parse_args args b
      else if a = ''-h'' \<or> a = ''--help'' then None
      else parse_args (b # args) cfg_path)"

text \<open>\<^verbatim>\<open>outbounds->emplace(tag, ob)\<close> keeps the first outbound of a tag.\<close>

fun make_outbounds :: "outbound_config list \<Rightarrow> (string \<times> outbound) list \<Rightarrow> (string \<times> outbound) list result" where
  "make_outbounds [] acc = Inr acc"
| "make_outbounds (oc # ocs) acc =
     (case makeOutbound oc of
        Inl e \<Rightarrow> Inl e
      | Inr ob \<Rightarrow> make_outbounds ocs (if map_of acc (out_tag oc) = None then (out_tag oc, ob) # acc else acc))"

fun start_inbounds ::
  "absl \<Rightarrow> asio_ip \<Rightarrow> listen_os \<Rightarrow> inbound_config list \<Rightarrow> (inbound \<times> endpoint) list \<Rightarrow> (inbound \<times> endpoint) list result"
where
  "start_inbounds L I os [] acc = Inr acc"
| "start_inbounds L I os (ic # ics) acc =
     (case makeInbound ic of
        Inl e \<Rightarrow> Inl e
      | Inr ib \<Rightarrow>
          (case inbound_start L I os ib of
             Inl e \<Rightarrow> Inl e
           | Inr ep \<Rightarrow> start_inbounds L I os ics (acc @ [(ib, ep)])))"

text \<open>\<^verbatim>\<open>main\<close> up to the point where it waits for a signal. \<open>Undefined\<close> is the undefined behaviour that
  loading a malformed address database can run into.\<close>

datatype 'r startup = Exit nat | Undefined | Running "'r program"

definition main_start ::
  "absl \<Rightarrow> asio_ip \<Rightarrow> fp \<Rightarrow> 'n yaml \<Rightarrow> 'r regex_api \<Rightarrow> geo_files \<Rightarrow> (string \<Rightarrow> string option) \<Rightarrow> listen_os
   \<Rightarrow> string list \<Rightarrow> 'r startup"
where
  "main_start L I F Y R fs read_file os args =
     (case parse_args args [] of
        None \<Rightarrow> Exit 0
      | Some cfg_path \<Rightarrow>
          if cfg_path = [] then Exit 1
          else
            (case loadFromFile Y L F cfg_path (read_file cfg_path) of
               Inl e \<Rightarrow> Exit 1
             | Inr cfg \<Rightarrow>
                 (case make_outbounds (cfg_outbounds cfg) [] of
                    Inl e \<Rightarrow> Exit 2
                  | Inr outbounds \<Rightarrow>
                      (case compile L I R fs (cfg_route cfg) of
                         None \<Rightarrow> Undefined
                       | Some (Inl e) \<Rightarrow> Exit 2
                       | Some (Inr router) \<Rightarrow>
                           (case start_inbounds L I os (cfg_inbounds cfg) [] of
                              Inl e \<Rightarrow> Exit 2
                            | Inr inbounds \<Rightarrow>
                                Running \<lparr>pr_config = cfg, pr_router = router,
                                         pr_outbounds = outbounds, pr_inbounds = inbounds\<rparr>)))))"

section \<open>What a running program has\<close>

lemma make_outbounds_ok:
  assumes "make_outbounds ocs acc = Inr obs" and "distinct (map fst acc @ map out_tag ocs)"
  shows "map_of obs t = Some ob \<longleftrightarrow>
    map_of acc t = Some ob \<or> (\<exists>oc \<in> set ocs. out_tag oc = t \<and> makeOutbound oc = Inr ob)"
  using assms
proof (induction ocs arbitrary: acc)
  case (Cons oc ocs)
  then obtain ob' where ob': "makeOutbound oc = Inr ob'" "make_outbounds ocs ((out_tag oc, ob') # acc) = Inr obs"
    by (auto simp: map_of_eq_None_iff image_iff split: sum.splits if_splits)
  have "map_of obs t = Some ob \<longleftrightarrow> map_of ((out_tag oc, ob') # acc) t = Some ob \<or>
      (\<exists>oc \<in> set ocs. out_tag oc = t \<and> makeOutbound oc = Inr ob)"
    using Cons.prems by (intro Cons.IH [OF ob'(2)]) auto
  then show ?case using ob'(1) Cons.prems(2) by (auto simp: image_iff dest: map_of_SomeD)
qed auto

lemma make_outbounds_all: "make_outbounds ocs acc = Inr obs \<Longrightarrow> oc \<in> set ocs \<Longrightarrow> \<exists>ob. makeOutbound oc = Inr ob"
  by (induction ocs acc rule: make_outbounds.induct) (auto split: sum.splits)

lemma start_inbounds_ok:
  assumes "start_inbounds L I os ics acc = Inr ibs"
  shows "\<exists>started. ibs = acc @ started \<and>
    list_all2 (\<lambda>ic (ib, ep). makeInbound ic = Inr ib \<and> inbound_start L I os ib = Inr ep) ics started"
  using assms
proof (induction L I os ics acc rule: start_inbounds.induct)
  case (2 L I os ic ics acc)
  then obtain ib ep where "makeInbound ic = Inr ib" "inbound_start L I os ib = Inr ep"
    "start_inbounds L I os ics (acc @ [(ib, ep)]) = Inr ibs" by (auto split: sum.splits)
  moreover from this 2(1) [OF this] obtain started where "ibs = (acc @ [(ib, ep)]) @ started"
    "list_all2 (\<lambda>ic (ib, ep). makeInbound ic = Inr ib \<and> inbound_start L I os ib = Inr ep) ics started" by auto
  ultimately show ?case by (intro exI [of _ "(ib, ep) # started"]) simp
qed simp

lemma main_startD:
  assumes "main_start L I F Y R fs read_file os args = Running p"
  shows "config_ok (pr_config p)"
    and "make_outbounds (cfg_outbounds (pr_config p)) [] = Inr (pr_outbounds p)"
    and "compile L I R fs (cfg_route (pr_config p)) = Some (Inr (pr_router p))"
    and "start_inbounds L I os (cfg_inbounds (pr_config p)) [] = Inr (pr_inbounds p)"
  using assms
  by (auto simp: main_start_def loadFromFile_def dest: load_config_ok split: option.splits sum.splits if_splits)

lemma dispatch_configured:
  assumes "main_start L I F Y R fs read_file os args = Running p" and "pick L R (pr_router p) r = t" and "t \<noteq> []"
    and "t = default_outbound (cfg_route (pr_config p)) \<or> (\<exists>rc \<in> set (route_rules (cfg_route (pr_config p))). t = rc_outbound_tag rc)"
  shows "\<exists>oc \<in> set (cfg_outbounds (pr_config p)). \<exists>ob. out_tag oc = t \<and> makeOutbound oc = Inr ob
    \<and> fst (dispatch L R p handle r m) = Dispatched t ob"
proof -
  note run = main_startD [OF assms(1)]
  have "t \<in> out_tag ` set (cfg_outbounds (pr_config p))"
    using run(1) assms(3,4) by (auto simp: config_ok_def)
  then obtain oc where oc: "oc \<in> set (cfg_outbounds (pr_config p))" "out_tag oc = t" by blast
  obtain ob where ob: "makeOutbound oc = Inr ob" using make_outbounds_all [OF run(2) oc(1)] by blast
  have "map_of (pr_outbounds p) t = Some ob"
    using make_outbounds_ok [OF run(2), of t ob] run(1) oc ob by (auto simp: config_ok_def)
  then have "fst (dispatch L R p handle r m) = Dispatched t ob"
    using assms(2,3) by (simp add: dispatch_def Let_def)
  with oc ob show ?thesis by blast
qed

text \<open>The counters of a request that was handled: one more session opened, as many active as before, and
  one more error if the outbound failed.\<close>

lemma dispatch_metrics:
  assumes "dispatch L R p handle r m = (Dispatched t ob, m')"
  shows "sessions_active m' = sessions_active m
    \<and> sessions_opened m' = (sessions_opened m)((rq_inbound_tag r, t) := sessions_opened m (rq_inbound_tag r, t) + 1)
    \<and> (errors_total m' \<noteq> errors_total m \<longleftrightarrow> (\<exists>e. handle ob r = Inl e))"
  using assms by (auto simp: dispatch_def Let_def fun_eq_iff split: if_splits option.splits sum.splits)

text \<open>The blocking outbound ends both directions of a TCP client's connection.\<close>

lemma block_closes: "fst (block_handle tcp_ops (Some s)) = Some (s\<lparr>tk_shut := True, tk_open := False\<rparr>)"
  by (simp add: block_handle_def tcp_ops_def tcp_shutdownWrite_def tcp_close_def)

section \<open>An example configuration\<close>

datatype ynode = YNone | YScalar string | YSeq "ynode list" | YMap "(string \<times> ynode) list"

fun ynode_get :: "ynode \<Rightarrow> string \<Rightarrow> ynode" where
  "ynode_get (YMap kvs) k = (case map_of kvs k of None \<Rightarrow> YNone | Some v \<Rightarrow> v)"
| "ynode_get _ k = YNone"

definition example_document :: ynode where
  "example_document = YMap
     [(''inbounds'', YSeq [YMap [(''tag'', YScalar ''in''), (''protocol'', YScalar ''socks5''), (''listen'', YScalar ''127.0.0.1:1080'')]]),
      (''outbounds'', YSeq [YMap [(''tag'', YScalar ''out''), (''protocol'', YScalar ''direct'')]]),
      (''route'', YMap [(''default'', YScalar ''out'')])]"

definition example_yaml :: "ynode yaml" where
  "example_yaml =
     \<lparr>yaml_Load = (\<lambda>_. Inr example_document), node_defined = (\<lambda>n. n \<noteq> YNone), node_get = (\<lambda>n k. Inr (ynode_get n k)),
      node_items = (\<lambda>n. case n of YSeq ns \<Rightarrow> ns | _ \<Rightarrow> []),
      as_str = (\<lambda>n. case n of YScalar s \<Rightarrow> Inr s | _ \<Rightarrow> Inl ''bad conversion''),
      as_str_or = (\<lambda>n d. case n of YScalar s \<Rightarrow> s | _ \<Rightarrow> d), as_int_or = (\<lambda>n d. d)\<rparr>"

definition example_start :: "unit startup" where
  "example_start = main_start absl_ref asio_ref fp_ref example_yaml no_regex example_files (\<lambda>_. Some []) quiet_os [''-c'', ''shine.yaml'']"

lemma example_runs:
  "case example_start of
     Running p \<Rightarrow>
       map out_tag (cfg_outbounds (pr_config p)) = [''out''] \<and> map out_protocol (cfg_outbounds (pr_config p)) = [''direct'']
       \<and> map rc_outbound_tag (route_rules (cfg_route (pr_config p))) = []
       \<and> default_outbound (cfg_route (pr_config p)) = ''out''
   | _ \<Rightarrow> False"
  by code_simp

end
