(* ===== verification/Lifecycle.thy ===== *)
theory Lifecycle
  imports Program
begin

text \<open>
  The life of the running program: the log level (\<^verbatim>\<open>core/logging.cpp\<close>), the scheduler with its worker
  threads (\<^verbatim>\<open>core/scheduler.cpp\<close>), the metrics families and their exporter (\<^verbatim>\<open>metrics/registry.cpp\<close>,
  \<^verbatim>\<open>metrics/exporter.cpp\<close>), the wait for a signal (\<^verbatim>\<open>core/signal.cpp\<close>) and the shutdown in \<^verbatim>\<open>main.cpp\<close>. Two
  threads of control react to a signal: the handler of the main thread, and a coroutine on a worker
  that means to give running sessions time. Their steps are interleaved with each other, with the
  ends of the worker threads and with what goes on in the inbounds and outbounds.
\<close>

section \<open>The log level\<close>

datatype spdlog_level = Level_trace | Level_debug | Level_info | Level_warn | Level_err | Level_off

definition log_init :: "string \<Rightarrow> spdlog_level" where
  "log_init level_sv =
     (let s = lower level_sv in
      if s = ''trace'' then Level_trace
      else if s = ''debug'' then Level_debug
      else if s = ''info'' then Level_info
      else if s = ''warn'' \<or> s = ''warning'' then Level_warn
      else if s = ''error'' then Level_err
      else if s = ''off'' then Level_off
      else Level_info)"

lemma log_init_case: "lower a = lower b \<Longrightarrow> log_init a = log_init b"
  by (simp add: log_init_def)

section \<open>The scheduler\<close>

text \<open>The I/O context is stopped or not; a worker thread is in \<^verbatim>\<open>io_.run()\<close> or has ended.\<close>

record scheduler =
  sch_n_threads :: nat
  sch_guard :: bool
  sch_io_stopped :: bool
  sch_stopped :: bool
  sch_threads :: "bool list"

definition new_scheduler :: "nat \<Rightarrow> u64 \<Rightarrow> scheduler" where
  "new_scheduler hardware_concurrency threads =
     \<lparr>sch_n_threads =
        (if threads = 0 then max 2 (min 8 (hardware_concurrency div 2)) else unat threads),
      sch_guard = True, sch_io_stopped = False, sch_stopped = False, sch_threads = []\<rparr>"

text \<open>\<^verbatim>\<open>run\<close>: \<open>limit\<close> is the number of threads that can be made; an exception leaves \<^verbatim>\<open>main\<close> when it is
  exceeded.\<close>

definition scheduler_run :: "nat \<Rightarrow> scheduler \<Rightarrow> scheduler option" where
  "scheduler_run limit s =
     (if sch_n_threads s \<le> limit
      then Some (s\<lparr>sch_threads := sch_threads s @ replicate (sch_n_threads s) True\<rparr>) else None)"

definition scheduler_stop :: "scheduler \<Rightarrow> scheduler" where
  "scheduler_stop s =
     (if sch_stopped s then s
      else s\<lparr>sch_stopped := True, sch_guard := False, sch_io_stopped := True\<rparr>)"

text \<open>\<^verbatim>\<open>join\<close>: \<open>None\<close> while a worker has not ended.\<close>

definition scheduler_join :: "scheduler \<Rightarrow> scheduler option" where
  "scheduler_join s = (if True \<in> set (sch_threads s) then None else Some (s\<lparr>sch_threads := []\<rparr>))"

lemma scheduler_default_threads: "2 \<le> sch_n_threads (new_scheduler hw 0) \<and> sch_n_threads (new_scheduler hw 0) \<le> 8"
  by (simp add: new_scheduler_def)

lemma scheduler_stop_idem: "scheduler_stop (scheduler_stop s) = scheduler_stop s"
  by (simp add: scheduler_stop_def)

text \<open>The configured number is an \<^verbatim>\<open>int\<close> that becomes an unsigned 64-bit number: a negative one asks for
  more threads than there can be, and starting fails.\<close>

lemma negative_threads: "limit < 2 ^ 64 - 1 \<Longrightarrow> scheduler_run limit (new_scheduler hw (word_of_int (-1))) = None"
  by (simp add: scheduler_run_def new_scheduler_def unsigned_minus_1_eq_mask mask_eq_exp_minus_1)

section \<open>Metrics\<close>

datatype metric_kind = Counter | Gauge | Histogram

text \<open>The families the constructor of the registry registers: name, help text and kind.\<close>

definition registry_families :: "(string \<times> string \<times> metric_kind) list" where
  "registry_families =
     [(''shine_inbound_connections_total'', ''Total inbound connections accepted'', Counter),
      (''shine_sessions_active'', ''Currently active proxy sessions'', Gauge),
      (''shine_sessions_opened_total'', ''Proxy sessions opened'', Counter),
      (''shine_sessions_closed_total'', ''Proxy sessions closed'', Counter),
      (''shine_bytes_total'', ''Bytes transferred'', Counter),
      (''shine_connect_latency_seconds'', ''Outbound dial latency'', Histogram),
      (''shine_errors_total'', ''Errors by kind'', Counter),
      (''shine_resp2_decode_errors_total'', ''RESP2 decode errors'', Counter)]"

definition metric_name_char :: "char \<Rightarrow> bool" where
  "metric_name_char c \<longleftrightarrow> c \<in> set ''abcdefghijklmnopqrstuvwxyz0123456789_''"

text \<open>Registering succeeds: the names are different and made of the characters the format allows.\<close>

lemma registry_families_ok:
  "distinct (map fst registry_families)"
  "list_all (\<lambda>(name, _). take 6 name = ''shine_'' \<and> list_all metric_name_char name) registry_families"
  by code_simp+

text \<open>The exporter: the address its HTTP server listens on, if it runs. \<open>open_server\<close> and \<open>register\<close> are the
  exceptions of the server's constructor and of registering the metrics with it.\<close>

record exporter =
  ex_exposer :: "string option"

definition exporter_start ::
  "(string \<Rightarrow> string option) \<Rightarrow> (string \<Rightarrow> string option) \<Rightarrow> metrics_config \<Rightarrow> exporter \<Rightarrow> unit result \<times> exporter"
where
  "exporter_start open_server register cfg e =
     (case open_server (metrics_listen cfg) of
        Some what \<Rightarrow> (Inl (UnavailableError (''metrics exposer: '' @ what)), e)
      | None \<Rightarrow>
          let e = e\<lparr>ex_exposer := Some (metrics_listen cfg)\<rparr> in
          (case register (metrics_listen cfg) of
             Some what \<Rightarrow> (Inl (UnavailableError (''metrics exposer: '' @ what)), e)
           | None \<Rightarrow> (Inr (), e)))"

definition exporter_stop :: "exporter \<Rightarrow> exporter" where
  "exporter_stop e = e\<lparr>ex_exposer := None\<rparr>"

text \<open>The configured path has no influence.\<close>

lemma exporter_path_ignored:
  "exporter_start open_server register (cfg\<lparr>metrics_path := p\<rparr>) e = exporter_start open_server register cfg e"
  by (cases "open_server (metrics_listen cfg)") (simp_all add: exporter_start_def Let_def)

section \<open>Stopping inbounds and outbounds\<close>

datatype 'q live_inbound = AcceptorInbound inbound acceptor | ShineServer "'q shine_inbound"

datatype 'q live_outbound = PoolOutbound "'q shine_outbound" | PlainOutbound outbound

text \<open>The virtual \<^verbatim>\<open>stop\<close>; that of an outbound does nothing but for the shine outbound.\<close>

fun stop_inbound :: "'q live_inbound \<Rightarrow> 'q live_inbound" where
  "stop_inbound (AcceptorInbound ib a) = AcceptorInbound ib (stop_acceptor a)"
| "stop_inbound (ShineServer ib) = ShineServer (shine_stop ib)"

fun stop_outbound :: "'q live_outbound \<Rightarrow> 'q live_outbound" where
  "stop_outbound (PoolOutbound ob) = PoolOutbound (shine_stop_outbound ob)"
| "stop_outbound (PlainOutbound ob) = PlainOutbound ob"

fun inbound_stopped :: "'q live_inbound \<Rightarrow> bool" where
  "inbound_stopped (AcceptorInbound ib a) \<longleftrightarrow> acc_stopping a \<and> \<not> acc_open a"
| "inbound_stopped (ShineServer ib) \<longleftrightarrow> acc_stopping (si_acceptor ib) \<and> \<not> acc_open (si_acceptor ib)"

fun outbound_stopped :: "'q live_outbound \<Rightarrow> bool" where
  "outbound_stopped (PoolOutbound ob) \<longleftrightarrow> so_stopping ob"
| "outbound_stopped (PlainOutbound ob) \<longleftrightarrow> True"

text \<open>What goes on in them meanwhile: links are accepted and dialled, and links work.\<close>

inductive inbound_env :: "'q chan_api \<Rightarrow> absl \<Rightarrow> 'q live_inbound \<Rightarrow> 'q live_inbound \<Rightarrow> bool" for C L where
  env_accept: "inbound_env C L (ShineServer ib) (ShineServer (accept_link C now label ib))"
| env_in_link: "r < length (si_links ib) \<Longrightarrow> link_step C L (si_links ib ! r) l \<Longrightarrow>
    inbound_env C L (ShineServer ib) (ShineServer (ib\<lparr>si_links := (si_links ib)[r := l]\<rparr>))"

inductive outbound_env :: "'q chan_api \<Rightarrow> absl \<Rightarrow> asio_ip \<Rightarrow> 'q live_outbound \<Rightarrow> 'q live_outbound \<Rightarrow> bool" for C L I where
  env_pool: "pool_step L I C (ob, dialled) (ob', dialled') \<Longrightarrow> so_stopping ob' = so_stopping ob \<Longrightarrow>
    outbound_env C L I (PoolOutbound ob) (PoolOutbound ob')"

lemma stop_stops [simp]: "inbound_stopped (stop_inbound ib)" "outbound_stopped (stop_outbound ob)"
  by (cases ib; simp add: stop_acceptor_def shine_stop_def) (cases ob; simp add: shine_stop_outbound_def)

lemma env_keeps_stopped:
  "inbound_env C L ib ib' \<Longrightarrow> inbound_stopped ib \<Longrightarrow> inbound_stopped ib'"
  "outbound_env C L I ob ob' \<Longrightarrow> outbound_stopped ob \<Longrightarrow> outbound_stopped ob'"
  by (auto elim!: inbound_env.cases outbound_env.cases simp: accept_link_def Let_def)

section \<open>The shutdown\<close>

datatype stop_action = StopInbound nat | StopOutbound nat | StopExporter | StopScheduler

datatype main_pc = MainWaits | MainStops "stop_action list" | MainJoins | MainReturned nat

text \<open>The coroutine of \<^verbatim>\<open>waitForTermination\<close>: waiting for a signal; running on a worker, with the calls up to
  its next suspension and what follows it; at its timer; or through.\<close>

datatype graceful_pc =
    GracefulIdle
  | GracefulRuns nat "stop_action list" "stop_action list option"
  | GracefulTimer "stop_action list"
  | GracefulDone

record 'q life =
  lf_inbounds :: "'q live_inbound list"
  lf_outbounds :: "'q live_outbound list"
  lf_exporter :: exporter
  lf_sched :: scheduler
  lf_main :: main_pc
  lf_graceful :: graceful_pc

fun do_stop :: "stop_action \<Rightarrow> 'q life \<Rightarrow> 'q life" where
  "do_stop (StopInbound i) s = s\<lparr>lf_inbounds := (lf_inbounds s)[i := stop_inbound (lf_inbounds s ! i)]\<rparr>"
| "do_stop (StopOutbound i) s = s\<lparr>lf_outbounds := (lf_outbounds s)[i := stop_outbound (lf_outbounds s ! i)]\<rparr>"
| "do_stop StopExporter s = s\<lparr>lf_exporter := exporter_stop (lf_exporter s)\<rparr>"
| "do_stop StopScheduler s = s\<lparr>lf_sched := scheduler_stop (lf_sched s)\<rparr>"

text \<open>The handler of the main thread, for \<open>n\<close> inbounds and the order in which the map of outbounds is
  iterated; and the two parts of the graceful handler.\<close>

definition main_handler :: "nat \<Rightarrow> nat list \<Rightarrow> stop_action list" where
  "main_handler n order = map StopInbound [0..<n] @ map StopOutbound order @ [StopExporter, StopScheduler]"

definition graceful_handler :: "nat \<Rightarrow> nat list \<Rightarrow> stop_action list \<times> stop_action list" where
  "graceful_handler n order = (map StopInbound [0..<n], map StopOutbound order @ [StopExporter])"

text \<open>\<^verbatim>\<open>waitForTermination\<close> when its wait ended, with an error or with a signal.\<close>

definition waitForTermination :: "string option \<Rightarrow> nat \<Rightarrow> (stop_action list \<times> stop_action list) option \<Rightarrow> graceful_pc" where
  "waitForTermination ec worker onTerminate =
     (case ec of
        Some e \<Rightarrow> GracefulDone
      | None \<Rightarrow> (case onTerminate of None \<Rightarrow> GracefulDone | Some (first, rest) \<Rightarrow> GracefulRuns worker first (Some rest)))"

fun on_worker :: "graceful_pc \<Rightarrow> nat \<Rightarrow> bool" where
  "on_worker (GracefulRuns w as rest) v \<longleftrightarrow> v = w"
| "on_worker _ v \<longleftrightarrow> False"

text \<open>A worker that is free to take the next handler: the context must not be stopped.\<close>

definition idle_worker :: "'q life \<Rightarrow> nat \<Rightarrow> bool" where
  "idle_worker s w \<longleftrightarrow> w < length (sch_threads (lf_sched s)) \<and> sch_threads (lf_sched s) ! w
     \<and> \<not> sch_io_stopped (lf_sched s)"

text \<open>A handler that runs is not interrupted by stopping the context, and its worker cannot end before it
  suspends.\<close>

inductive shutdown_step :: "nat list \<Rightarrow> 'q life \<Rightarrow> 'q life \<Rightarrow> bool"
  for order :: "nat list"
where
  main_signal: "lf_main s = MainWaits \<Longrightarrow>
    shutdown_step order s (s\<lparr>lf_main := MainStops (main_handler (length (lf_inbounds s)) order)\<rparr>)"
| main_act: "lf_main s = MainStops (a # as) \<Longrightarrow>
    shutdown_step order s ((do_stop a s)\<lparr>lf_main := MainStops as\<rparr>)"
| main_handled: "lf_main s = MainStops [] \<Longrightarrow> shutdown_step order s (s\<lparr>lf_main := MainJoins\<rparr>)"
| main_joined: "lf_main s = MainJoins \<Longrightarrow> scheduler_join (lf_sched s) = Some sched \<Longrightarrow>
    shutdown_step order s (s\<lparr>lf_sched := sched, lf_main := MainReturned 0\<rparr>)"
| graceful_signal: "lf_graceful s = GracefulIdle \<Longrightarrow> idle_worker s w \<Longrightarrow>
    shutdown_step order s
      (s\<lparr>lf_graceful := waitForTermination ec w (Some (graceful_handler (length (lf_inbounds s)) order))\<rparr>)"
| graceful_act: "lf_graceful s = GracefulRuns w (a # as) rest \<Longrightarrow>
    shutdown_step order s ((do_stop a s)\<lparr>lf_graceful := GracefulRuns w as rest\<rparr>)"
| graceful_suspend: "lf_graceful s = GracefulRuns w [] (Some rest) \<Longrightarrow>
    shutdown_step order s (s\<lparr>lf_graceful := GracefulTimer rest\<rparr>)"
| graceful_resume: "lf_graceful s = GracefulTimer rest \<Longrightarrow> idle_worker s w \<Longrightarrow>
    shutdown_step order s (s\<lparr>lf_graceful := GracefulRuns w rest None\<rparr>)"
| graceful_through: "lf_graceful s = GracefulRuns w [] None \<Longrightarrow>
    shutdown_step order s (s\<lparr>lf_graceful := GracefulDone\<rparr>)"
| worker_ends: "sch_io_stopped (lf_sched s) \<Longrightarrow> w < length (sch_threads (lf_sched s)) \<Longrightarrow>
    sch_threads (lf_sched s) ! w \<Longrightarrow> \<not> on_worker (lf_graceful s) w \<Longrightarrow>
    shutdown_step order s
      (s\<lparr>lf_sched := (lf_sched s)\<lparr>sch_threads := (sch_threads (lf_sched s))[w := False]\<rparr>\<rparr>)"

text \<open>All of the program: the shutdown, the work of inbounds and outbounds as long as there are workers,
  and workers that end because of an exception.\<close>

inductive life_step ::
  "'q chan_api \<Rightarrow> absl \<Rightarrow> asio_ip \<Rightarrow> nat list \<Rightarrow> 'q life \<Rightarrow> 'q life \<Rightarrow> bool"
  for C :: "'q chan_api" and L :: absl and I :: asio_ip and order :: "nat list"
where
  shuts_down: "shutdown_step order s s' \<Longrightarrow> life_step C L I order s s'"
| worker_fails: "w < length (sch_threads (lf_sched s)) \<Longrightarrow> \<not> on_worker (lf_graceful s) w \<Longrightarrow>
    life_step C L I order s
      (s\<lparr>lf_sched := (lf_sched s)\<lparr>sch_threads := (sch_threads (lf_sched s))[w := False]\<rparr>\<rparr>)"
| works_inbound: "True \<in> set (sch_threads (lf_sched s)) \<Longrightarrow> i < length (lf_inbounds s) \<Longrightarrow>
    inbound_env C L (lf_inbounds s ! i) ib \<Longrightarrow>
    life_step C L I order s (s\<lparr>lf_inbounds := (lf_inbounds s)[i := ib]\<rparr>)"
| works_outbound: "True \<in> set (sch_threads (lf_sched s)) \<Longrightarrow> i < length (lf_outbounds s) \<Longrightarrow>
    outbound_env C L I (lf_outbounds s ! i) ob \<Longrightarrow>
    life_step C L I order s (s\<lparr>lf_outbounds := (lf_outbounds s)[i := ob]\<rparr>)"

section \<open>From the start of the program\<close>

fun started_inbound :: "inbound \<Rightarrow> 'q live_inbound" where
  "started_inbound (ShineInbound cfg) =
     ShineServer \<lparr>si_cfg = cfg, si_acceptor = \<lparr>acc_stopping = False, acc_open = True\<rparr>, si_list = [], si_links = []\<rparr>"
| "started_inbound ib = AcceptorInbound ib \<lparr>acc_stopping = False, acc_open = True\<rparr>"

fun made_outbound :: "outbound \<Rightarrow> 'q live_outbound" where
  "made_outbound (ShineOutbound cfg) = PoolOutbound (new_shine_outbound cfg)"
| "made_outbound ob = PlainOutbound ob"

text \<open>The program when \<^verbatim>\<open>main\<close> begins to wait: the scheduler runs since before the inbounds were started, the
  exporter was started or has failed.\<close>

definition life_init :: "scheduler \<Rightarrow> exporter \<Rightarrow> 'r program \<Rightarrow> 'q life" where
  "life_init sched e p =
     \<lparr>lf_inbounds = map (started_inbound \<circ> fst) (pr_inbounds p), lf_outbounds = map (made_outbound \<circ> snd) (pr_outbounds p),
      lf_exporter = e, lf_sched = sched, lf_main = MainWaits, lf_graceful = GracefulIdle\<rparr>"

section \<open>The invariant\<close>

text \<open>What a call of the handlers has brought about; it stays so.\<close>

fun effect :: "stop_action \<Rightarrow> 'q life \<Rightarrow> bool" where
  "effect (StopInbound i) s \<longleftrightarrow> (i < length (lf_inbounds s) \<longrightarrow> inbound_stopped (lf_inbounds s ! i))"
| "effect (StopOutbound i) s \<longleftrightarrow> (i < length (lf_outbounds s) \<longrightarrow> outbound_stopped (lf_outbounds s ! i))"
| "effect StopExporter s \<longleftrightarrow> ex_exposer (lf_exporter s) = None"
| "effect StopScheduler s \<longleftrightarrow> sch_stopped (lf_sched s) \<and> sch_io_stopped (lf_sched s)"

definition sched_ok :: "scheduler \<Rightarrow> bool" where
  "sched_ok sched \<longleftrightarrow> (sch_stopped sched \<longrightarrow> sch_io_stopped sched)"

lemma do_stop_simps [simp]:
  "length (lf_inbounds (do_stop a s)) = length (lf_inbounds s)"
  "length (lf_outbounds (do_stop a s)) = length (lf_outbounds s)"
  "sch_threads (lf_sched (do_stop a s)) = sch_threads (lf_sched s)"
  "lf_main (do_stop a s) = lf_main s" "lf_graceful (do_stop a s) = lf_graceful s"
  by (cases a; simp add: scheduler_stop_def)+

lemma do_stop_effect: "sched_ok (lf_sched s) \<Longrightarrow> effect a (do_stop a s)"
  by (cases a) (auto simp: exporter_stop_def scheduler_stop_def sched_ok_def)

lemma nth_update_keeps: "P (xs ! j) \<Longrightarrow> P y \<Longrightarrow> j < length xs \<Longrightarrow> P (xs[i := y] ! j)"
  by (cases "i = j") auto

lemma do_stop_keeps: "effect b s \<Longrightarrow> effect b (do_stop a s)"
  by (cases a; cases b)
     (auto simp: exporter_stop_def scheduler_stop_def nth_update_keeps [where P = inbound_stopped]
        nth_update_keeps [where P = outbound_stopped])

lemma do_stop_sched: "sched_ok (lf_sched s) \<Longrightarrow> sched_ok (lf_sched (do_stop a s))"
  by (cases a) (auto simp: sched_ok_def scheduler_stop_def)

lemma effect_pc [simp]:
  "effect a (s\<lparr>lf_main := pc\<rparr>) = effect a s" "effect a (s\<lparr>lf_graceful := g\<rparr>) = effect a s"
  "effect a (s\<lparr>lf_sched := (lf_sched s)\<lparr>sch_threads := ts\<rparr>\<rparr>) = effect a s"
  by (cases a; simp)+

fun main_ok :: "stop_action list \<Rightarrow> 'q life \<Rightarrow> main_pc \<Rightarrow> bool" where
  "main_ok script s MainWaits \<longleftrightarrow> True"
| "main_ok script s (MainStops as) \<longleftrightarrow> (\<exists>past. script = past @ as \<and> (\<forall>a \<in> set past. effect a s))"
| "main_ok script s MainJoins \<longleftrightarrow> (\<forall>a \<in> set script. effect a s)"
| "main_ok script s (MainReturned code) \<longleftrightarrow>
     code = 0 \<and> (\<forall>a \<in> set script. effect a s) \<and> sch_threads (lf_sched s) = []"

definition life_inv :: "nat \<Rightarrow> nat \<Rightarrow> nat list \<Rightarrow> 'q life \<Rightarrow> bool" where
  "life_inv n m order s \<longleftrightarrow>
     length (lf_inbounds s) = n \<and> length (lf_outbounds s) = m \<and> sched_ok (lf_sched s)
     \<and> (\<forall>w. on_worker (lf_graceful s) w \<longrightarrow> w < length (sch_threads (lf_sched s)) \<and> sch_threads (lf_sched s) ! w)
     \<and> main_ok (main_handler n order) s (lf_main s)"

lemma main_ok_mono:
  assumes "main_ok script s pc" and "\<And>a. effect a s \<Longrightarrow> effect a s'"
    and "sch_threads (lf_sched s) = [] \<Longrightarrow> sch_threads (lf_sched s') = []"
  shows "main_ok script s' pc"
  using assms by (cases pc) auto

lemma main_ok_pc [simp]:
  "main_ok script (s\<lparr>lf_main := x\<rparr>) pc = main_ok script s pc"
  "main_ok script (s\<lparr>lf_graceful := g\<rparr>) pc = main_ok script s pc"
  "main_ok script (s\<lparr>lf_sched := (lf_sched s)\<lparr>sch_threads := (sch_threads (lf_sched s))[w := False]\<rparr>\<rparr>) pc
   = main_ok script s pc"
  by (cases pc; simp)+

lemma shutdown_step_inv:
  assumes "shutdown_step order s s'" and inv: "life_inv n m order s" shows "life_inv n m order s'"
  using assms(1)
proof cases
  case main_signal
  with inv show ?thesis by (simp add: life_inv_def)
next
  case (main_act a as)
  then obtain past where past: "main_handler n order = past @ a # as" "\<forall>b \<in> set past. effect b s"
    using inv by (auto simp: life_inv_def)
  have "effect a (do_stop a s)" using inv by (simp add: life_inv_def do_stop_effect)
  moreover have "\<forall>b \<in> set past. effect b (do_stop a s)" using past(2) do_stop_keeps by blast
  ultimately have "main_ok (main_handler n order) (do_stop a s) (MainStops as)"
    unfolding main_ok.simps past(1) by (intro exI [of _ "past @ [a]"]) simp
  with main_act inv do_stop_sched [of s a] show ?thesis by (simp add: life_inv_def)
next
  case main_handled
  with inv show ?thesis by (auto simp: life_inv_def)
next
  case (main_joined sched)
  then have "sched = (lf_sched s)\<lparr>sch_threads := []\<rparr>" "True \<notin> set (sch_threads (lf_sched s))"
    by (auto simp: scheduler_join_def split: if_splits)
  with main_joined inv show ?thesis by (auto simp: life_inv_def sched_ok_def in_set_conv_nth)
next
  case (graceful_signal w ec)
  with inv show ?thesis
    by (auto simp: life_inv_def waitForTermination_def idle_worker_def graceful_handler_def
        split: option.splits)
next
  case (graceful_act w a as rest)
  have "main_ok (main_handler n order) (do_stop a s) (lf_main s)"
    by (rule main_ok_mono [of _ s]) (use inv in \<open>simp_all add: life_inv_def do_stop_keeps\<close>)
  with graceful_act inv do_stop_sched [of s a] show ?thesis
    by (simp add: life_inv_def)
next
  case (worker_ends w)
  with inv show ?thesis by (auto simp: life_inv_def sched_ok_def nth_list_update)
qed (use inv in \<open>auto simp: life_inv_def idle_worker_def\<close>)

lemma life_step_inv:
  assumes "life_step C L I order s s'" and inv: "life_inv n m order s" shows "life_inv n m order s'"
  using assms(1)
proof cases
  case shuts_down
  then show ?thesis using inv by (rule shutdown_step_inv)
next
  case (worker_fails w)
  with inv show ?thesis by (auto simp: life_inv_def sched_ok_def nth_list_update)
next
  case (works_inbound i ib)
  have keeps: "effect a s'" if "effect a s" for a
    using that works_inbound(3) env_keeps_stopped(1) [OF works_inbound(4)] unfolding works_inbound(1)
    by (cases a) (auto simp: nth_list_update)
  have "main_ok (main_handler n order) s' (lf_main s)"
    by (rule main_ok_mono [OF _ keeps]) (use inv works_inbound(1) in \<open>simp_all add: life_inv_def\<close>)
  with inv works_inbound(1) show ?thesis by (simp add: life_inv_def)
next
  case (works_outbound i ob)
  have keeps: "effect a s'" if "effect a s" for a
    using that works_outbound(3) env_keeps_stopped(2) [OF works_outbound(4)] unfolding works_outbound(1)
    by (cases a) (auto simp: nth_list_update)
  have "main_ok (main_handler n order) s' (lf_main s)"
    by (rule main_ok_mono [OF _ keeps]) (use inv works_outbound(1) in \<open>simp_all add: life_inv_def\<close>)
  with inv works_outbound(1) show ?thesis by (simp add: life_inv_def)
qed

lemma life_reachable:
  assumes "(life_step C L I order)\<^sup>*\<^sup>* (life_init sched e p) s" and "scheduler_run limit (new_scheduler hw threads) = Some sched"
  shows "life_inv (length (pr_inbounds p)) (length (pr_outbounds p)) order s"
  using assms(1)
proof (induction rule: rtranclp_induct)
  case base
  from assms(2) show ?case
    by (auto simp: life_inv_def life_init_def sched_ok_def scheduler_run_def new_scheduler_def split: if_splits)
next
  case (step y z)
  then show ?case using life_step_inv by blast
qed

section \<open>Progress\<close>

fun main_rank :: "nat \<Rightarrow> main_pc \<Rightarrow> nat" where
  "main_rank k MainWaits = k + 5"
| "main_rank k (MainStops as) = length as + 2"
| "main_rank k MainJoins = 1"
| "main_rank k (MainReturned code) = 0"

fun graceful_rank :: "nat \<Rightarrow> graceful_pc \<Rightarrow> nat" where
  "graceful_rank k GracefulIdle = k + 6"
| "graceful_rank k (GracefulRuns w as (Some rest)) = length as + length rest + 4"
| "graceful_rank k (GracefulRuns w as None) = length as + 1"
| "graceful_rank k (GracefulTimer rest) = length rest + 3"
| "graceful_rank k GracefulDone = 0"

definition life_rank :: "nat list \<Rightarrow> 'q life \<Rightarrow> nat" where
  "life_rank order s =
     main_rank (length (lf_inbounds s) + length order) (lf_main s)
     + graceful_rank (length (lf_inbounds s) + length order) (lf_graceful s)
     + length (filter id (sch_threads (lf_sched s)))"

lemma ended_worker:
  "w < length ts \<Longrightarrow> length (filter id (ts[w := False])) + (if ts ! w then 1 else 0) = length (filter id ts)"
proof (induction ts arbitrary: w)
  case (Cons t ts)
  then show ?case using Cons.IH [of "w - 1"] by (cases w) (auto split: if_splits)
qed simp

lemma shutdown_rank:
  assumes "shutdown_step order s s'" shows "life_rank order s' < life_rank order s"
  using assms
proof cases
  case (main_joined sched)
  then show ?thesis by (auto simp: life_rank_def scheduler_join_def split: if_splits)
next
  case (graceful_signal w ec)
  then show ?thesis
    by (auto simp: life_rank_def waitForTermination_def graceful_handler_def split: option.splits)
next
  case (graceful_act w a as rest)
  then show ?thesis by (cases rest) (simp_all add: life_rank_def)
next
  case (worker_ends w)
  then show ?thesis using ended_worker [of w "sch_threads (lf_sched s)"] by (simp add: life_rank_def)
qed (auto simp: life_rank_def main_handler_def)

lemma life_rank_step:
  assumes "life_step C L I order s s'" shows "life_rank order s' \<le> life_rank order s"
  using assms
proof cases
  case shuts_down
  then show ?thesis using shutdown_rank less_imp_le by blast
next
  case (worker_fails w)
  then show ?thesis using ended_worker [of w "sch_threads (lf_sched s)"] by (simp add: life_rank_def split: if_splits)
qed (simp_all add: life_rank_def)

lemma life_rank_run: "(life_step C L I order)\<^sup>*\<^sup>* s s' \<Longrightarrow> life_rank order s' \<le> life_rank order s"
  by (induction rule: rtranclp_induct) (auto dest: life_rank_step)

lemma shutdown_progress:
  assumes "life_inv n m order s" and "lf_main s \<noteq> MainReturned 0" shows "\<exists>s'. shutdown_step order s s'"
proof (cases "lf_main s")
  case (MainStops as)
  then show ?thesis using shutdown_step.main_act shutdown_step.main_handled by (cases as) blast+
next
  case MainJoins
  show ?thesis
  proof (cases "True \<in> set (sch_threads (lf_sched s))")
    case False
    with MainJoins show ?thesis using shutdown_step.main_joined by (fastforce simp: scheduler_join_def)
  next
    case True
    then obtain w where w: "w < length (sch_threads (lf_sched s))" "sch_threads (lf_sched s) ! w"
      by (auto simp: in_set_conv_nth)
    have "sch_io_stopped (lf_sched s)" using assms(1) MainJoins by (simp add: life_inv_def main_handler_def)
    show ?thesis
    proof (cases "on_worker (lf_graceful s) w")
      case False
      with w \<open>sch_io_stopped (lf_sched s)\<close> show ?thesis using shutdown_step.worker_ends by blast
    next
      case True
      then obtain as rest where "lf_graceful s = GracefulRuns w as rest" by (cases "lf_graceful s") auto
      then show ?thesis
        using shutdown_step.graceful_act shutdown_step.graceful_suspend shutdown_step.graceful_through
        by (cases as; cases rest) blast+
    qed
  qed
next
  case (MainReturned code)
  with assms show ?thesis by (simp add: life_inv_def)
qed (use shutdown_step.main_signal in blast)

lemma shutdown_steps:
  assumes "(shutdown_step order ^^ k) s s'" and "life_inv n m order s"
  shows "life_inv n m order s' \<and> k + life_rank order s' \<le> life_rank order s"
  using assms
proof (induction k arbitrary: s')
  case (Suc k)
  then obtain t where t: "(shutdown_step order ^^ k) s t" "shutdown_step order t s'" by auto
  with Suc have "life_inv n m order t" "k + life_rank order t \<le> life_rank order s" by blast+
  then show ?case using shutdown_step_inv [OF t(2)] shutdown_rank [OF t(2)] by force
qed simp

lemma shutdown_lives: "(shutdown_step order)\<^sup>*\<^sup>* s s' \<Longrightarrow> (life_step C L I order)\<^sup>*\<^sup>* s s'"
  by (induction rule: rtranclp_induct) (auto intro: rtranclp.rtrancl_into_rtrancl life_step.shuts_down)

lemma exit_reachable:
  assumes "life_inv n m order s"
  shows "\<exists>s'. (shutdown_step order)\<^sup>*\<^sup>* s s' \<and> lf_main s' = MainReturned 0"
  using assms
proof (induction "life_rank order s" arbitrary: s rule: less_induct)
  case less
  show ?case
  proof (cases "lf_main s = MainReturned 0")
    case False
    with less.prems obtain t where t: "shutdown_step order s t" using shutdown_progress by blast
    with less.hyps [of t] shutdown_rank [OF t] shutdown_step_inv [OF t less.prems] show ?thesis
      by (meson converse_rtranclp_into_rtranclp)
  qed blast
qed

section \<open>Properties of the shutdown\<close>

text \<open>C13. The program only exits cleanly: in every interleaving of the signal handler of the main thread,
  the graceful coroutine, ending workers and the work of inbounds and outbounds, once \<^verbatim>\<open>main\<close> has
  returned its exit code is 0, every inbound has stopped and closed its acceptor, every outbound
  has been stopped, the metrics server is gone, the scheduler is stopped and has no threads, and no
  part of the graceful handler is running.\<close>

theorem main_exits_clean:
  assumes "scheduler_run limit (new_scheduler hw threads) = Some sched"
    and "set order = {..<length (pr_outbounds p)}"
    and "(life_step C L I order)\<^sup>*\<^sup>* (life_init sched e p) s" and "lf_main s = MainReturned code"
  shows "code = 0 \<and> list_all inbound_stopped (lf_inbounds s) \<and> list_all outbound_stopped (lf_outbounds s)
    \<and> ex_exposer (lf_exporter s) = None \<and> sch_stopped (lf_sched s) \<and> sch_threads (lf_sched s) = []
    \<and> \<not> on_worker (lf_graceful s) w"
proof -
  note inv = life_reachable [OF assms(3,1), unfolded life_inv_def assms(4) main_ok.simps]
  then have "effect (StopInbound i) s" if "i < length (pr_inbounds p)" for i
    using that by (simp add: main_handler_def del: effect.simps)
  moreover from inv have "effect (StopOutbound i) s" if "i < length (pr_outbounds p)" for i
    using that assms(2) by (simp add: main_handler_def del: effect.simps)
  moreover from inv have "effect StopExporter s" "effect StopScheduler s"
    by (simp_all add: main_handler_def del: effect.simps)
  ultimately show ?thesis using inv by (auto simp: list_all_length)
qed

definition example_scheduler :: scheduler where
  "example_scheduler = (new_scheduler 8 0)\<lparr>sch_threads := replicate 4 True\<rparr>"

lemma example_scheduler_runs: "scheduler_run 100 (new_scheduler 8 0) = Some example_scheduler"
  by (simp add: scheduler_run_def new_scheduler_def example_scheduler_def)

definition example_exporter :: exporter where
  "example_exporter = snd (exporter_start (\<lambda>_. None) (\<lambda>_. None) (cfg_metrics default_config) \<lparr>ex_exposer = None\<rparr>)"

definition example_program :: "unit program" where
  "example_program =
     \<lparr>pr_config = default_config, pr_router = \<lparr>rt_rules = [], rt_default_outbound = ''out'', rt_geosite_matcher = None, rt_geoip_matcher = None\<rparr>,
      pr_outbounds = [(''out'', ShineOutbound default_outbound_config)],
      pr_inbounds = [(Socks5Inbound default_inbound, \<lparr>ep_addr = IpV4 [127, 0, 0, 1], ep_port = 1080\<rparr>)]\<rparr>"

theorem main_exits_clean_witness:
  "\<exists>s. (life_step list_chan_api absl_ref asio_ref [0])\<^sup>*\<^sup>* (life_init example_scheduler example_exporter example_program) s
     \<and> lf_main s = MainReturned 0 \<and> list_all inbound_stopped (lf_inbounds s) \<and> list_all outbound_stopped (lf_outbounds s)"
proof -
  let ?init = "life_init example_scheduler example_exporter example_program :: list_chan life"
  have "life_inv 1 1 [0] ?init"
    using life_reachable [OF rtranclp.rtrancl_refl example_scheduler_runs, where order = "[0]" and e = example_exporter
        and p = example_program]
    by (simp add: example_program_def)
  then obtain s where s: "(shutdown_step [0])\<^sup>*\<^sup>* ?init s" "lf_main s = MainReturned 0"
    using exit_reachable by blast
  have run: "(life_step list_chan_api absl_ref asio_ref [0])\<^sup>*\<^sup>* ?init s" using s(1) by (rule shutdown_lives)
  have "set [0] = {..<length (pr_outbounds example_program)}" by (auto simp: example_program_def)
  from main_exits_clean [OF example_scheduler_runs this run s(2)] run s(2) show ?thesis by blast
qed

text \<open>C15. The shutdown ends: whatever has happened before, the steps of the two handlers and of the ending
  workers are at most two per inbound and outbound, one per thread and eleven more, and they do not
  stop before \<^verbatim>\<open>main\<close> has returned 0.\<close>

theorem shutdown_completes:
  assumes "scheduler_run limit (new_scheduler hw threads) = Some sched"
    and "(life_step C L I order)\<^sup>*\<^sup>* (life_init sched e p) s" and "(shutdown_step order ^^ k) s s'"
  shows "k \<le> 2 * (length (pr_inbounds p) + length order) + length (sch_threads sched) + 11
    \<and> ((\<exists>s''. shutdown_step order s' s'') \<or> lf_main s' = MainReturned 0)"
proof -
  note inv = life_reachable [OF assms(2,1)]
  note run = shutdown_steps [OF assms(3) inv]
  have "life_rank order (life_init sched e p :: 'a life)
      \<le> 2 * (length (pr_inbounds p) + length order) + length (sch_threads sched) + 11"
    by (simp add: life_rank_def life_init_def)
  with life_rank_run [OF assms(2)] run shutdown_progress [of _ _ order s'] show ?thesis
    by (meson add_leD1 le_trans)
qed

theorem shutdown_completes_witness:
  "\<not> (\<exists>s'. (shutdown_step [0] ^^ 20) (life_init example_scheduler example_exporter example_program :: list_chan life) s')"
  using shutdown_completes [OF example_scheduler_runs rtranclp.rtrancl_refl, where order = "[0]" and k = 20
      and e = example_exporter and p = example_program]
  by (auto simp: example_program_def example_scheduler_def)

text \<open>The window for running sessions is not given: once the handler of the main thread has stopped the
  scheduler, a graceful handler at its timer stays there.\<close>

lemma graceful_window_cut:
  assumes "(life_step C L I order)\<^sup>*\<^sup>* s s'" and "sch_io_stopped (lf_sched s)" and "lf_graceful s = GracefulTimer rest"
  shows "sch_io_stopped (lf_sched s') \<and> lf_graceful s' = GracefulTimer rest"
  using assms(1)
proof (induction rule: rtranclp_induct)
  case base
  show ?case using assms(2,3) by blast
next
  case (step y z)
  have keeps: "sch_io_stopped (lf_sched (do_stop a y))" for a
    using step.IH by (cases a) (simp_all add: scheduler_stop_def)
  from step.hyps(2) show ?case
  proof cases
    case shuts_down
    then show ?thesis
      using step.IH keeps
      by cases (auto simp: idle_worker_def scheduler_join_def split: if_splits)
  qed (use step.IH in simp_all)
qed

end
